(* ===== verification/Prelude.thy ===== *)
theory Prelude
  imports Main "HOL-Library.State_Monad" "HOL-Library.AList"
begin

text \<open>
  Shared vocabulary of the development.

  \<^item> C strings are lists of characters without the terminating NUL. The functions of
    \<^verbatim>\<open><string.h>\<close> the sources call (\<^verbatim>\<open>strncmp\<close>, \<^verbatim>\<open>strchr\<close>, \<^verbatim>\<open>strrchr\<close>, \<^verbatim>\<open>strstr\<close>,
    \<^verbatim>\<open>strtok_r\<close> with the separator \<^verbatim>\<open>/\<close>) are list functions.
  \<^item> A C function with effects is a program of the library's state monad over a record
    of the process and its file system; \<open>wp\<close> is its weakest precondition, and the
    collection \<open>wp_rules\<close> holds the rules for the constructs the programs use.
  \<^item> Association lists stand for the finite tables of the kernel and of the registries.
\<close>

named_theorems wp_rules \<open>weakest preconditions of the program constructs\<close>
named_theorems str_simps \<open>C string functions\<close>

section \<open>C strings\<close>

type_synonym cstring = "char list"
type_synonym bytes = "char list"

definition starts_with :: "cstring \<Rightarrow> cstring \<Rightarrow> bool" where
  "starts_with p s \<longleftrightarrow> take (length p) s = p"

fun strchr :: "cstring \<Rightarrow> char \<Rightarrow> cstring option" where
  "strchr [] c = None"
| "strchr (x # xs) c = (if x = c then Some (x # xs) else strchr xs c)"

text \<open>\<open>strstr\<close> returns the part of the text before the first occurrence, and the text
  from that occurrence on.\<close>

fun strstr_from :: "cstring \<Rightarrow> cstring \<Rightarrow> cstring \<Rightarrow> (cstring \<times> cstring) option" where
  "strstr_from before [] pat = (if pat = [] then Some (rev before, []) else None)"
| "strstr_from before (x # xs) pat =
     (if starts_with pat (x # xs) then Some (rev before, x # xs)
      else strstr_from (x # before) xs pat)"

definition strstr :: "cstring \<Rightarrow> cstring \<Rightarrow> (cstring \<times> cstring) option" where
  "strstr s pat = strstr_from [] s pat"

text \<open>\<open>strrchr s '/'\<close> as the pair of what stands before the last slash and what follows it.\<close>

definition split_last_slash :: "cstring \<Rightarrow> (cstring \<times> cstring) option" where
  "split_last_slash s =
     (if CHR ''/'' \<in> set s
      then Some (rev (tl (dropWhile (\<lambda>c. c \<noteq> CHR ''/'') (rev s))),
                 rev (takeWhile (\<lambda>c. c \<noteq> CHR ''/'') (rev s)))
      else None)"

text \<open>The tokens \<open>strtok_r\<close> yields with the separator \<^verbatim>\<open>/\<close>: empty ones are skipped.\<close>

fun tokens_from :: "cstring \<Rightarrow> cstring \<Rightarrow> cstring list" where
  "tokens_from acc [] = (if acc = [] then [] else [rev acc])"
| "tokens_from acc (c # cs) =
     (if c = CHR ''/'' then (if acc = [] then tokens_from [] cs
                             else rev acc # tokens_from [] cs)
      else tokens_from (c # acc) cs)"

definition tokens :: "cstring \<Rightarrow> cstring list" where
  "tokens s = tokens_from [] s"

text \<open>The numbers \<^verbatim>\<open>printf\<close> writes: decimal, hexadecimal, octal, and two hexadecimal digits of a byte.\<close>

definition digit_char :: "nat \<Rightarrow> char" where
  "digit_char d = (if d < 10 then char_of (48 + d) else char_of (87 + d))"

fun digits :: "nat \<Rightarrow> nat \<Rightarrow> cstring" where
  "digits b n = (if b < 2 \<or> n < b then [digit_char n] else digits b (n div b) @ [digit_char (n mod b)])"

declare digits.simps [simp del]

abbreviation dec :: "nat \<Rightarrow> cstring" where "dec \<equiv> digits 10"
abbreviation hex :: "nat \<Rightarrow> cstring" where "hex \<equiv> digits 16"

definition hex_byte :: "char \<Rightarrow> cstring" where
  "hex_byte c = (let n = of_char c :: nat in [digit_char (n div 16), digit_char (n mod 16)])"

text \<open>\<^verbatim>\<open>snprintf\<close> into a buffer of \<open>room\<close> bytes keeps what fits before the NUL.\<close>

definition snprintf :: "nat \<Rightarrow> cstring \<Rightarrow> cstring" where
  "snprintf room s = take (room - 1) s"

text \<open>Reading a number back, digit by digit: what is left of the text comes with it.\<close>

definition digit_val :: "char \<Rightarrow> nat" where
  "digit_val c = (let n = of_char c in if n < 58 then n - 48 else n - 87)"

definition is_digit :: "char \<Rightarrow> bool" where
  "is_digit c \<longleftrightarrow> 48 \<le> (of_char c :: nat) \<and> (of_char c :: nat) \<le> 57"

definition value_of :: "nat \<Rightarrow> cstring \<Rightarrow> nat" where
  "value_of b s = foldl (\<lambda>n c. n * b + digit_val c) 0 s"

lemma digit_val_digit_char: "d < 16 \<Longrightarrow> digit_val (digit_char d) = d"
  by (auto simp: digit_val_def digit_char_def Let_def)

lemma value_of_digits: "2 \<le> b \<Longrightarrow> b \<le> 16 \<Longrightarrow> value_of b (digits b n) = n"
proof (induction b n rule: digits.induct)
  case (1 b n)
  show ?case
  proof (cases "n < b")
    case True
    with 1 show ?thesis by (simp add: digits.simps value_of_def digit_val_digit_char)
  next
    case False
    with 1 have "value_of b (digits b (n div b)) = n div b" by simp
    moreover have "n mod b < 16" using 1 mod_less_divisor [of b n] by linarith
    ultimately show ?thesis using False 1
      by (simp add: digits.simps [of b n] value_of_def digit_val_digit_char)
  qed
qed

lemma dec_inject [simp]: "dec m = dec n \<longleftrightarrow> m = n"
proof
  assume "dec m = dec n"
  then have "value_of 10 (dec m) = value_of 10 (dec n)" by (rule arg_cong)
  then show "m = n" by (simp add: value_of_digits)
qed simp

lemma starts_with_Nil [simp]: "starts_with [] s"
  by (simp add: starts_with_def)

lemma starts_with_iff [str_simps]: "starts_with p s \<longleftrightarrow> (\<exists>r. s = p @ r)"
  by (metis append_take_drop_id append_eq_conv_conj starts_with_def)

lemma starts_with_append [simp]: "starts_with p (p @ r)"
  by (auto simp: str_simps)

lemma strchr_None_iff: "strchr s c = None \<longleftrightarrow> c \<notin> set s"
  by (induction s) auto

lemma strstr_from_Some:
  "strstr_from b s pat = Some (u, v) \<Longrightarrow> rev b @ s = u @ v \<and> starts_with pat v"
  by (induction b s pat rule: strstr_from.induct) (auto split: if_splits)

lemma strstr_Some: "strstr s pat = Some (u, v) \<Longrightarrow> s = u @ v \<and> starts_with pat v"
  using strstr_from_Some [of "[]" s pat u v] by (simp add: strstr_def)

lemma strstr_shorter:
  assumes "strstr s pat = Some (b, v)" and "pat \<noteq> []"
  shows "length v - length pat < length s"
proof -
  from strstr_Some [OF assms(1)] obtain r where "s = b @ pat @ r" "v = pat @ r"
    by (auto simp: str_simps)
  with assms(2) show ?thesis by (cases pat) auto
qed

lemma strstr_from_None:
  "strstr_from b s pat = None \<Longrightarrow> s = u @ v \<Longrightarrow> \<not> starts_with pat v"
proof (induction b s pat arbitrary: u rule: strstr_from.induct)
  case (1 b pat)
  then show ?case by (auto simp: str_simps split: if_splits)
next
  case (2 b x xs pat)
  show ?case
  proof (cases u)
    case Nil
    with 2 show ?thesis by (auto split: if_splits)
  next
    case (Cons y ys)
    with 2 show ?thesis by (auto split: if_splits)
  qed
qed

lemma strstr_None: "strstr s pat = None \<Longrightarrow> \<not> (\<exists>u r. s = u @ pat @ r)"
  unfolding strstr_def using starts_with_append strstr_from_None by blast

lemma strstr_from_first:
  "strstr_from acc s pat = Some (b, v) \<Longrightarrow> s = u @ v' \<Longrightarrow> starts_with pat v' \<Longrightarrow>
   length b \<le> length acc + length u"
proof (induction acc s pat arbitrary: u rule: strstr_from.induct)
  case (1 acc pat)
  then show ?case by (auto split: if_splits)
next
  case (2 acc x xs pat)
  show ?case
  proof (cases "starts_with pat (x # xs)")
    case True
    with "2.prems"(1) have "b = rev acc" by simp
    then show ?thesis by simp
  next
    case False
    with "2.prems"(2,3) obtain us where us: "u = x # us" "xs = us @ v'" by (cases u) auto
    from False "2.prems"(1) have "strstr_from (x # acc) xs pat = Some (b, v)" by simp
    from "2.IH" [OF False this us(2) "2.prems"(3)] us(1) show ?thesis by simp
  qed
qed

lemma strstr_first:
  "strstr s pat = Some (b, v) \<Longrightarrow> s = u @ pat @ r \<Longrightarrow> length b \<le> length u"
  using strstr_from_first [of "[]" s pat b v u "pat @ r"] by (simp add: strstr_def)

lemma split_last_slash_Some:
  assumes "split_last_slash s = Some (a, b)"
  shows "s = a @ CHR ''/'' # b \<and> CHR ''/'' \<notin> set b"
proof -
  let ?t = "takeWhile (\<lambda>c. c \<noteq> CHR ''/'') (rev s)"
  let ?d = "dropWhile (\<lambda>c. c \<noteq> CHR ''/'') (rev s)"
  from assms have m: "CHR ''/'' \<in> set s" and ab: "a = rev (tl ?d)" "b = rev ?t"
    by (auto simp: split_last_slash_def split: if_splits)
  from m have ne: "?d \<noteq> []" by (auto simp: dropWhile_eq_Nil_conv)
  then have "hd ?d = CHR ''/''" using hd_dropWhile [OF ne] by simp
  with ne have d: "?d = CHR ''/'' # tl ?d" by (cases ?d) auto
  have "rev s = ?t @ ?d" by simp
  also have "\<dots> = ?t @ CHR ''/'' # tl ?d" using d by simp
  finally have "rev (rev s) = rev (?t @ CHR ''/'' # tl ?d)" by (rule arg_cong)
  then have "s = rev (tl ?d) @ [CHR ''/''] @ rev ?t" by simp
  with ab show ?thesis by (auto dest: set_takeWhileD)
qed

lemma split_last_slash_None: "split_last_slash s = None \<longleftrightarrow> CHR ''/'' \<notin> set s"
  by (simp add: split_last_slash_def)

lemma tokens_from_no_slash:
  "CHR ''/'' \<notin> set acc \<Longrightarrow> t \<in> set (tokens_from acc s) \<Longrightarrow> t \<noteq> [] \<and> CHR ''/'' \<notin> set t"
  by (induction acc s rule: tokens_from.induct) (auto split: if_splits)

lemma tokens_no_slash: "t \<in> set (tokens s) \<Longrightarrow> t \<noteq> [] \<and> CHR ''/'' \<notin> set t"
  by (rule tokens_from_no_slash [of "[]"]) (auto simp: tokens_def)

section \<open>Association lists\<close>

definition al_del :: "'k \<Rightarrow> ('k \<times> 'v) list \<Rightarrow> ('k \<times> 'v) list" where
  "al_del k xs = filter (\<lambda>p. fst p \<noteq> k) xs"

definition al_put :: "'k \<Rightarrow> 'v \<Rightarrow> ('k \<times> 'v) list \<Rightarrow> ('k \<times> 'v) list" where
  "al_put k v xs = (k, v) # al_del k xs"

definition al_adjust :: "'k \<Rightarrow> ('v \<Rightarrow> 'v) \<Rightarrow> ('k \<times> 'v) list \<Rightarrow> ('k \<times> 'v) list" where
  "al_adjust k f xs = map (\<lambda>p. if fst p = k then (fst p, f (snd p)) else p) xs"

lemma map_of_al_del [simp]: "map_of (al_del k xs) j = (if j = k then None else map_of xs j)"
  by (induction xs) (auto simp: al_del_def)

lemma map_of_al_put [simp]: "map_of (al_put k v xs) j = (if j = k then Some v else map_of xs j)"
  by (simp add: al_put_def)

lemma map_of_al_adjust [simp]:
  "map_of (al_adjust k f xs) j = (if j = k then map_option f (map_of xs j) else map_of xs j)"
  by (induction xs) (auto simp: al_adjust_def)

lemma al_del_absent: "map_of xs k = None \<Longrightarrow> al_del k xs = xs"
  by (induction xs) (auto simp: al_del_def split: if_splits)

lemma al_del_idem [simp]: "al_del k (al_del k xs) = al_del k xs"
  by (simp add: al_del_def)

lemma al_del_Cons [simp]:
  "al_del k ((j, v) # xs) = (if j = k then al_del k xs else (j, v) # al_del k xs)"
  by (simp add: al_del_def)

lemma al_del_Nil [simp]: "al_del k [] = []"
  by (simp add: al_del_def)

lemma find_SomeD: "find P xs = Some x \<Longrightarrow> P x \<and> x \<in> set xs"
  by (induction xs) (auto split: if_splits)

text \<open>A transfer of at least one byte leaves less to do.\<close>

lemma transfer_progress: "x \<noteq> [] \<Longrightarrow> \<not> n \<le> k \<Longrightarrow> n - (k + length x) < n - k"
  by (cases x) auto

section \<open>Programs and their weakest preconditions\<close>

abbreviation ret :: "'a \<Rightarrow> ('s, 'a) state" where
  "ret \<equiv> State_Monad.return"

definition gets :: "('s \<Rightarrow> 'a) \<Rightarrow> ('s, 'a) state" where
  "gets f = State (\<lambda>s. (f s, s))"

definition modify :: "('s \<Rightarrow> 's) \<Rightarrow> ('s, unit) state" where
  "modify f = State (\<lambda>s. ((), f s))"

lemma run_gets [simp]: "run_state (gets f) s = (f s, s)"
  by (simp add: gets_def)

lemma run_modify [simp]: "run_state (modify f) s = ((), f s)"
  by (simp add: modify_def)

definition wp :: "('s, 'a) state \<Rightarrow> ('a \<Rightarrow> 's \<Rightarrow> bool) \<Rightarrow> 's \<Rightarrow> bool" where
  "wp m Q s = (case run_state m s of (r, t) \<Rightarrow> Q r t)"

lemma wpD: "wp m Q s \<Longrightarrow> run_state m s = (r, t) \<Longrightarrow> Q r t"
  by (simp add: wp_def)

lemma wpI: "(\<And>r t. run_state m s = (r, t) \<Longrightarrow> Q r t) \<Longrightarrow> wp m Q s"
  by (simp add: wp_def split: prod.splits)

lemma wp_weaken: "wp m Q s \<Longrightarrow> (\<And>r t. Q r t \<Longrightarrow> Q' r t) \<Longrightarrow> wp m Q' s"
  by (auto simp: wp_def split: prod.splits)

lemma wp_conj: "wp m P s \<Longrightarrow> wp m Q s \<Longrightarrow> wp m (\<lambda>r t. P r t \<and> Q r t) s"
  by (simp add: wp_def split: prod.splits)

lemma wp_return [wp_rules, simp]: "wp (State_Monad.return x) Q s \<longleftrightarrow> Q x s"
  by (simp add: wp_def)

lemma wp_bind [wp_rules, simp]:
  "wp (State_Monad.bind m f) Q s \<longleftrightarrow> wp m (\<lambda>r t. wp (f r) Q t) s"
  by (simp add: wp_def split: prod.splits)

lemma wp_gets [wp_rules, simp]: "wp (gets f) Q s \<longleftrightarrow> Q (f s) s"
  by (simp add: wp_def)

lemma wp_modify [wp_rules, simp]: "wp (modify f) Q s \<longleftrightarrow> Q () (f s)"
  by (simp add: wp_def)

lemma wp_if [wp_rules]:
  "(c \<Longrightarrow> wp m Q s) \<Longrightarrow> (\<not> c \<Longrightarrow> wp n Q s) \<Longrightarrow> wp (if c then m else n) Q s"
  by simp

lemma wp_if_iff: "wp (if c then m else n) Q s \<longleftrightarrow> (if c then wp m Q s else wp n Q s)"
  by simp

lemma wp_case_option [wp_rules]:
  "(x = None \<Longrightarrow> wp m Q s) \<Longrightarrow> (\<And>y. x = Some y \<Longrightarrow> wp (n y) Q s) \<Longrightarrow>
   wp (case x of None \<Rightarrow> m | Some y \<Rightarrow> n y) Q s"
  by (cases x) auto

lemma wp_case_prod [wp_rules]:
  "(\<And>a b. x = (a, b) \<Longrightarrow> wp (f a b) Q s) \<Longrightarrow> wp (case x of (a, b) \<Rightarrow> f a b) Q s"
  by (cases x) auto

text \<open>The same rules as introductions, which take a program apart call by call.\<close>

lemma wp_seq: "wp m (\<lambda>r t. wp (f r) Q t) w \<Longrightarrow> wp (State_Monad.bind m f) Q w"
  by simp

lemma wp_ret: "Q x w \<Longrightarrow> wp (State_Monad.return x) Q w"
  by simp

lemma wp_get: "Q (f w) w \<Longrightarrow> wp (gets f) Q w"
  by simp

lemmas wp_intros = wp_seq wp_ret wp_get wp_if wp_case_option wp_case_prod

text \<open>A program keeps a relation between the state before and the state after.\<close>

abbreviation keeps :: "('s \<Rightarrow> 's \<Rightarrow> bool) \<Rightarrow> ('s, 'a) state \<Rightarrow> bool" where
  "keeps \<equiv> state_io_rel"

lemma keeps_iff_wp: "keeps R m \<longleftrightarrow> (\<forall>s. wp m (\<lambda>_ t. R s t) s)"
  by (simp add: state_io_rel_def wp_def case_prod_beta)

lemma keepsD: "keeps R m \<Longrightarrow> run_state m s = (r, t) \<Longrightarrow> R s t"
  by (metis snd_conv state_io_rel_def)

lemma keeps_return: "reflp R \<Longrightarrow> keeps R (State_Monad.return x)"
  by (simp add: state_io_rel_def reflpD)

lemma keeps_bind:
  assumes "transp R" and "keeps R m" and "\<And>x. keeps R (f x)"
  shows "keeps R (State_Monad.bind m f)"
proof (rule state_io_relI)
  fix a s s'
  assume "run_state (State_Monad.bind m f) s = (a, s')"
  then obtain x t where mt: "run_state m s = (x, t)" and ft: "run_state (f x) t = (a, s')"
    by (auto split: prod.splits)
  have "R s t" using assms(2) mt by (rule keepsD)
  moreover have "R t s'" using assms(3) ft by (rule keepsD)
  ultimately show "R s s'" using assms(1) by (meson transpD)
qed

lemma keeps_if:
  "keeps R m \<Longrightarrow> keeps R n \<Longrightarrow> keeps R (if c then m else n)"
  by simp

lemma keeps_case_option:
  "keeps R m \<Longrightarrow> (\<And>y. keeps R (n y)) \<Longrightarrow>
   keeps R (case x of None \<Rightarrow> m | Some y \<Rightarrow> n y)"
  by (cases x) auto

lemma keeps_case_prod:
  "(\<And>a b. keeps R (f a b)) \<Longrightarrow> keeps R (case x of (a, b) \<Rightarrow> f a b)"
  by (cases x) auto

lemma keeps_gets: "reflp R \<Longrightarrow> keeps R (gets f)"
  by (simp add: state_io_rel_def reflpD)

lemma keeps_modify: "(\<And>s. R s (f s)) \<Longrightarrow> keeps R (modify f)"
  by (simp add: state_io_rel_def)

end
