(* ===== verification/Host.thy ===== *)
theory Host
  imports Prelude
begin

text \<open>
  The POSIX host the C sources run on: the file system, the descriptor table, \<^verbatim>\<open>errno\<close>, and
  the system calls and C library calls of the sources, as programs over a record
  \<open>world\<close> that the components extend with their own registries.

  Concurrency and failure. Before every call one \<open>turn\<close> of the environment is taken from
  the schedule \<open>w_turns\<close>: other processes change the file system by \<open>t_peer\<close>, a signal may
  arrive, and the call may fail with \<open>t_fault\<close>, transfer only a part (\<open>t_amount\<close>), or read
  the random bytes \<open>t_bytes\<close>. A fault has no effect beyond \<^verbatim>\<open>errno\<close>. When the schedule is
  used up the process runs alone and calls fail only for the reasons written below. A
  statement for every schedule therefore covers every interleaving with other processes
  and every failure of every call, including those whose causes are not modelled
  (permissions, quotas, name lengths).

  \<open>w_log\<close> is a history variable: the changes the process itself made to the name space and
  to file contents, newest first. No definition of a component reads it.
\<close>

section \<open>Objects\<close>

datatype errno = EOK | EPERM | ENOENT | EINTR | EIO | EBADF | EAGAIN | ENOMEM | EACCES
  | EBUSY | EEXIST | EXDEV | ENOTDIR | EISDIR | EINVAL | EMFILE | EFBIG | EROFS
  | ENAMETOOLONG | ENOSYS | ENOTEMPTY | ELOOP | EOVERFLOW | ENODATA | ENOTSUP
  | EALREADY | ECHILD | ESRCH | ESTALE | EFAULT

datatype host = Linux | Darwin | FreeBSD

text \<open>An object is named by its device and inode numbers.\<close>

type_synonym oid = "nat \<times> nat"

datatype node = Dir "(cstring \<times> oid) list" | Reg bytes | Lnk cstring | Special

record inode =
  i_node :: node
  i_perm :: nat
  i_uid :: nat
  i_gid :: nat
  i_nlink :: nat
  i_caps :: bool
  i_leased :: bool
  i_casefold :: bool

type_synonym fs = "(oid \<times> inode) list"

datatype kind = KReg | KDir | KLnk | KOther

record stat =
  st_dev :: nat
  st_ino :: nat
  st_kind :: kind
  st_perm :: nat
  st_uid :: nat
  st_gid :: nat
  st_nlink :: nat

text \<open>The all-zero \<^verbatim>\<open>struct stat\<close> of a \<^verbatim>\<open>calloc\<close>ed record: \<^verbatim>\<open>S_ISREG\<close> and \<^verbatim>\<open>S_ISDIR\<close> fail on it.\<close>

definition zero_stat :: stat where
  "zero_stat = \<lparr>st_dev = 0, st_ino = 0, st_kind = KOther, st_perm = 0,
                st_uid = 0, st_gid = 0, st_nlink = 0\<rparr>"

fun kind_of :: "node \<Rightarrow> kind" where
  "kind_of (Dir _) = KDir"
| "kind_of (Reg _) = KReg"
| "kind_of (Lnk _) = KLnk"
| "kind_of Special = KOther"

definition stat_of :: "fs \<Rightarrow> oid \<Rightarrow> stat option" where
  "stat_of f ob = map_option
     (\<lambda>i. \<lparr>st_dev = fst ob, st_ino = snd ob, st_kind = kind_of (i_node i), st_perm = i_perm i,
           st_uid = i_uid i, st_gid = i_gid i, st_nlink = i_nlink i\<rparr>) (map_of f ob)"

definition st_id :: "stat \<Rightarrow> oid" where
  "st_id s = (st_dev s, st_ino s)"

definition same_stat :: "stat \<Rightarrow> stat \<Rightarrow> bool" where
  "same_stat a b \<longleftrightarrow> st_dev a = st_dev b \<and> st_ino a = st_ino b"

definition S_ISDIR :: "stat \<Rightarrow> bool" where "S_ISDIR s \<longleftrightarrow> st_kind s = KDir"
definition S_ISREG :: "stat \<Rightarrow> bool" where "S_ISREG s \<longleftrightarrow> st_kind s = KReg"
definition S_ISLNK :: "stat \<Rightarrow> bool" where "S_ISLNK s \<longleftrightarrow> st_kind s = KLnk"

definition dir_of :: "fs \<Rightarrow> oid \<Rightarrow> (cstring \<times> oid) list option" where
  "dir_of f d = (case map_of f d of None \<Rightarrow> None
     | Some i \<Rightarrow> (case i_node i of Dir es \<Rightarrow> Some es | _ \<Rightarrow> None))"

definition content_of :: "fs \<Rightarrow> oid \<Rightarrow> bytes option" where
  "content_of f ob = (case map_of f ob of None \<Rightarrow> None
     | Some i \<Rightarrow> (case i_node i of Reg b \<Rightarrow> Some b | _ \<Rightarrow> None))"

definition fs_lookup :: "fs \<Rightarrow> oid \<Rightarrow> cstring \<Rightarrow> oid option" where
  "fs_lookup f d n = (case dir_of f d of None \<Rightarrow> None | Some es \<Rightarrow> map_of es n)"

definition is_dir :: "fs \<Rightarrow> oid \<Rightarrow> bool" where
  "is_dir f ob \<longleftrightarrow> dir_of f ob \<noteq> None"

text \<open>A removed directory has no links, and takes no new entries.\<close>

definition dir_live :: "fs \<Rightarrow> oid \<Rightarrow> bool" where
  "dir_live f d = (case map_of f d of None \<Rightarrow> False | Some i \<Rightarrow> 0 < i_nlink i)"

definition set_node :: "oid \<Rightarrow> node \<Rightarrow> fs \<Rightarrow> fs" where
  "set_node ob nd = al_adjust ob (\<lambda>i. i\<lparr>i_node := nd\<rparr>)"

definition add_entry :: "oid \<Rightarrow> cstring \<Rightarrow> oid \<Rightarrow> fs \<Rightarrow> fs" where
  "add_entry d n ob f = (case dir_of f d of None \<Rightarrow> f
     | Some es \<Rightarrow> set_node d (Dir (al_put n ob es)) f)"

definition del_entry :: "oid \<Rightarrow> cstring \<Rightarrow> fs \<Rightarrow> fs" where
  "del_entry d n f = (case dir_of f d of None \<Rightarrow> f
     | Some es \<Rightarrow> set_node d (Dir (al_del n es)) f)"

definition add_link :: "oid \<Rightarrow> fs \<Rightarrow> fs" where
  "add_link ob = al_adjust ob (\<lambda>i. i\<lparr>i_nlink := Suc (i_nlink i)\<rparr>)"

definition drop_link :: "oid \<Rightarrow> fs \<Rightarrow> fs" where
  "drop_link ob = al_adjust ob
     (\<lambda>i. i\<lparr>i_nlink := (case i_node i of Dir _ \<Rightarrow> 0 | _ \<Rightarrow> i_nlink i - 1)\<rparr>)"

definition fresh_oid :: "fs \<Rightarrow> nat \<Rightarrow> oid" where
  "fresh_oid f dev = (dev, Suc (fold max (map (\<lambda>p. snd (fst p)) f) 0))"

definition new_inode :: "node \<Rightarrow> nat \<Rightarrow> nat \<Rightarrow> nat \<Rightarrow> inode" where
  "new_inode nd perm uid gid = \<lparr>i_node = nd, i_perm = perm, i_uid = uid, i_gid = gid,
     i_nlink = (case nd of Dir _ \<Rightarrow> 2 | _ \<Rightarrow> 1), i_caps = False, i_leased = False,
     i_casefold = False\<rparr>"

section \<open>The process\<close>

record desc =
  d_obj :: oid
  d_pos :: nat
  d_read :: bool
  d_write :: bool
  d_cloexec :: bool

record turn =
  t_peer :: "fs \<Rightarrow> fs"
  t_fault :: "errno option"
  t_amount :: "nat option"
  t_bytes :: bytes
  t_signal :: nat

definition idle_turn :: turn where
  "idle_turn = \<lparr>t_peer = (\<lambda>f. f), t_fault = None, t_amount = None, t_bytes = [], t_signal = 0\<rparr>"

text \<open>
  The history: an entry removed; an entry moved, with what it replaced; an entry linked; an
  object made under a name; contents or mode of an object changed.
\<close>

datatype event =
    Unlinked oid cstring oid
  | Moved oid cstring oid cstring oid "oid option"
  | Linked oid cstring oid
  | Made oid cstring oid
  | Wrote oid
  | Truncated oid
  | Moded oid

text \<open>What the host says of a volume: its type, and \<open>_PC_CASE_SENSITIVE\<close> where it has an answer.\<close>

datatype fstype = EXT4 | F2FS | TMPFS | RAMFS | BTRFS | OVERLAYFS | APFS | HFS | OtherFS

record volume =
  v_type :: fstype
  v_case :: int

type_synonym hook = "cstring \<Rightarrow> cstring \<Rightarrow> fs \<Rightarrow> fs"

record world =
  w_fs :: fs
  w_fds :: "(int \<times> desc) list"
  w_errno :: errno
  w_turns :: "turn list"
  w_cancel :: nat
  w_hook :: "hook option"
  w_log :: "event list"
  w_host :: host
  w_root :: oid
  w_cwd :: cstring
  w_uid :: nat
  w_gid :: nat
  w_groups :: "nat list"
  w_pid :: nat
  w_volumes :: "nat \<Rightarrow> volume"
  w_tmpdir :: "cstring option"
  w_nofile :: nat
  w_strerror :: "errno \<Rightarrow> cstring"

definition next_turn :: "'z world_scheme \<Rightarrow> turn \<times> 'z world_scheme" where
  "next_turn w = (case w_turns w of [] \<Rightarrow> (idle_turn, w)
     | t # ts \<Rightarrow> (t, w\<lparr>w_turns := ts, w_fs := t_peer t (w_fs w),
                       w_cancel := (if w_cancel w = 0 then t_signal t else w_cancel w)\<rparr>))"

text \<open>A call: the environment's turn, then a fault, an error of the call's own, or its effect.\<close>

definition call :: "'r \<Rightarrow> (turn \<Rightarrow> 'z world_scheme \<Rightarrow> errno + ('r \<times> 'z world_scheme))
    \<Rightarrow> ('z world_scheme, 'r) state" where
  "call bad act = State (\<lambda>w. case next_turn w of (t, w1) \<Rightarrow>
     (case t_fault t of
        Some e \<Rightarrow> (bad, w1\<lparr>w_errno := e\<rparr>)
      | None \<Rightarrow> (case act t w1 of Inl e \<Rightarrow> (bad, w1\<lparr>w_errno := e\<rparr>) | Inr rw \<Rightarrow> rw)))"

text \<open>
  What the termination of every retry loop rests on: a call that fails with \<open>EINTR\<close> has used up
  a turn of the schedule, and no call adds one.
\<close>

lemma call_interrupted:
  assumes act: "\<And>t w e. act t w = Inl e \<Longrightarrow> e \<noteq> EINTR"
    and good: "\<And>t w r w'. act t w = Inr (r, w') \<Longrightarrow> r \<noteq> bad"
    and run: "run_state (call bad act) w = (bad, w')" "w_errno w' = EINTR"
  shows "length (w_turns w') < length (w_turns w)"
proof (cases "w_turns w")
  case Nil
  with run show ?thesis
    by (auto simp: call_def next_turn_def idle_turn_def split: sum.splits dest: act good)
next
  case (Cons t ts)
  with run show ?thesis
    by (auto simp: call_def next_turn_def split: sum.splits option.splits dest: good)
qed

lemma call_turns_le:
  assumes "\<And>t w r w'. act t w = Inr (r, w') \<Longrightarrow> length (w_turns w') \<le> length (w_turns w)"
    and "run_state (call bad act) w = (r, w')"
  shows "length (w_turns w') \<le> length (w_turns w)"
proof (cases "w_turns w")
  case Nil
  with assms(2) show ?thesis
    by (auto simp: call_def next_turn_def idle_turn_def split: sum.splits dest!: assms(1))
next
  case (Cons t ts)
  with assms(2) show ?thesis
    by (auto simp: call_def next_turn_def split: sum.splits option.splits dest!: assms(1))
qed

definition set_errno :: "errno \<Rightarrow> ('z world_scheme, unit) state" where
  "set_errno e = modify (\<lambda>w. w\<lparr>w_errno := e\<rparr>)"

definition get_errno :: "('z world_scheme, errno) state" where
  "get_errno = gets w_errno"

text \<open>\<open>errno = e; return -1\<close>.\<close>

definition fail_with :: "errno \<Rightarrow> ('z world_scheme, int) state" where
  "fail_with e = State_Monad.bind (set_errno e) (\<lambda>_. ret (-1))"

text \<open>Test hooks: production leaves them unset; a test's hook changes the file system only.\<close>

definition barrier :: "cstring \<Rightarrow> cstring \<Rightarrow> ('z world_scheme, unit) state" where
  "barrier event path = modify (\<lambda>w. case w_hook w of None \<Rightarrow> w
     | Some h \<Rightarrow> w\<lparr>w_fs := h event path (w_fs w)\<rparr>)"

definition log :: "event \<Rightarrow> 'z world_scheme \<Rightarrow> 'z world_scheme" where
  "log e w = w\<lparr>w_log := e # w_log w\<rparr>"

text \<open>An allocation of the C library (\<^verbatim>\<open>malloc\<close>, \<^verbatim>\<open>calloc\<close>, \<^verbatim>\<open>realloc\<close>, \<^verbatim>\<open>strdup\<close>): false on \<^verbatim>\<open>NULL\<close>.\<close>

definition alloc :: "('z world_scheme, bool) state" where
  "alloc = call False (\<lambda>_ w. Inr (True, w))"

section \<open>Descriptors\<close>

definition free_fd :: "nat \<Rightarrow> (int \<times> 'v) list \<Rightarrow> int" where
  "free_fd k fds = (case find (\<lambda>n. map_of fds n = None) (map int [k ..< k + length fds + 1]) of
     Some n \<Rightarrow> n | None \<Rightarrow> -1)"

lemma free_fd_fresh: "map_of fds (free_fd k fds) = None \<and> int k \<le> free_fd k fds"
proof -
  let ?ns = "map int [k ..< k + length fds + 1]"
  have "\<exists>n \<in> set ?ns. map_of fds n = None"
  proof (rule ccontr)
    assume "\<not> ?thesis"
    then have "set ?ns \<subseteq> fst ` set fds" by (auto simp: map_of_eq_None_iff)
    then have "card (set ?ns) \<le> card (fst ` set fds)" by (simp add: card_mono)
    also have "\<dots> \<le> length fds" by (metis card_length length_map set_map)
    finally have "card (set ?ns) \<le> length fds" .
    moreover have "card (set ?ns) = length ?ns"
      by (rule distinct_card) (auto simp: distinct_map inj_on_def)
    ultimately show False by simp
  qed
  then have "find (\<lambda>n. map_of fds n = None) ?ns \<noteq> None"
    unfolding find_None_iff by blast
  then obtain n where "find (\<lambda>n. map_of fds n = None) ?ns = Some n"
    by (cases "find (\<lambda>n. map_of fds n = None) ?ns") simp_all
  moreover from this have "map_of fds n = None \<and> n \<in> set ?ns"
    by (rule find_SomeD)
  ultimately show ?thesis by (auto simp: free_fd_def)
qed

definition open_fd :: "nat \<Rightarrow> desc \<Rightarrow> 'z world_scheme \<Rightarrow> int \<times> 'z world_scheme" where
  "open_fd k ds w = (let n = free_fd k (w_fds w) in (n, w\<lparr>w_fds := (n, ds) # w_fds w\<rparr>))"

definition fd_obj :: "'z world_scheme \<Rightarrow> int \<Rightarrow> errno + oid" where
  "fd_obj w fd = (case map_of (w_fds w) fd of None \<Rightarrow> Inl EBADF | Some ds \<Rightarrow> Inr (d_obj ds))"

definition fd_dir :: "'z world_scheme \<Rightarrow> int \<Rightarrow> errno + (oid \<times> (cstring \<times> oid) list)" where
  "fd_dir w fd = (case fd_obj w fd of Inl e \<Rightarrow> Inl e
     | Inr d \<Rightarrow> (case dir_of (w_fs w) d of None \<Rightarrow> Inl ENOTDIR | Some es \<Rightarrow> Inr (d, es)))"

definition sys_close :: "int \<Rightarrow> ('z world_scheme, int) state" where
  "sys_close fd = State (\<lambda>w. case next_turn w of (t, w1) \<Rightarrow>
     (case map_of (w_fds w1) fd of
        None \<Rightarrow> (-1, w1\<lparr>w_errno := EBADF\<rparr>)
      | Some _ \<Rightarrow> (let w2 = w1\<lparr>w_fds := al_del fd (w_fds w1)\<rparr> in
          (case t_fault t of None \<Rightarrow> (0, w2) | Some e \<Rightarrow> (-1, w2\<lparr>w_errno := e\<rparr>)))))"

text \<open>\<open>dup\<close> (k = 0), whose copy a started program inherits, and \<open>fcntl(fd, F_DUPFD_CLOEXEC, k)\<close>.\<close>

definition sys_dup :: "int \<Rightarrow> nat \<Rightarrow> ('z world_scheme, int) state" where
  "sys_dup fd k = call (-1) (\<lambda>_ w. case map_of (w_fds w) fd of None \<Rightarrow> Inl EBADF
     | Some ds \<Rightarrow> Inr (open_fd k (ds\<lparr>d_cloexec := (k \<noteq> 0)\<rparr>) w))"

section \<open>Opening\<close>

datatype oflag = O_RDONLY | O_WRONLY | O_RDWR | O_CREAT | O_EXCL | O_DIRECTORY | O_NOFOLLOW
  | O_CLOEXEC | O_NONBLOCK

definition flag_desc :: "oid \<Rightarrow> oflag list \<Rightarrow> desc" where
  "flag_desc ob fl = \<lparr>d_obj = ob, d_pos = 0, d_read = (O_WRONLY \<notin> set fl),
     d_write = (O_WRONLY \<in> set fl \<or> O_RDWR \<in> set fl), d_cloexec = (O_CLOEXEC \<in> set fl)\<rparr>"

text \<open>Opening an existing object that no symbolic link stands before.\<close>

definition open_obj :: "oid \<Rightarrow> oflag list \<Rightarrow> 'z world_scheme
    \<Rightarrow> errno + (int \<times> 'z world_scheme)" where
  "open_obj ob fl w = (case map_of (w_fs w) ob of
     None \<Rightarrow> Inl ENOENT
   | Some i \<Rightarrow> (case i_node i of
        Lnk _ \<Rightarrow> Inl ELOOP
      | Dir _ \<Rightarrow> if O_WRONLY \<in> set fl \<or> O_RDWR \<in> set fl then Inl EISDIR
                 else Inr (open_fd 0 (flag_desc ob fl) w)
      | _ \<Rightarrow> if O_DIRECTORY \<in> set fl then Inl ENOTDIR
             else Inr (open_fd 0 (flag_desc ob fl) w)))"

text \<open>\<open>openat\<close> of one component; every \<open>openat\<close> of the sources passes \<open>O_NOFOLLOW\<close>.\<close>

definition sys_openat :: "int \<Rightarrow> cstring \<Rightarrow> oflag list \<Rightarrow> nat \<Rightarrow> ('z world_scheme, int) state" where
  "sys_openat fd n fl perm = call (-1) (\<lambda>_ w. case fd_dir w fd of Inl e \<Rightarrow> Inl e
     | Inr (d, es) \<Rightarrow> (case map_of es n of
         Some ob \<Rightarrow> if O_CREAT \<in> set fl \<and> O_EXCL \<in> set fl then Inl EEXIST else open_obj ob fl w
       | None \<Rightarrow> if O_CREAT \<notin> set fl \<or> \<not> dir_live (w_fs w) d then Inl ENOENT
           else (let ob = fresh_oid (w_fs w) (fst d);
                     i = new_inode (Reg []) perm (w_uid w) (w_gid w);
                     w1 = log (Made d n ob)
                            (w\<lparr>w_fs := (ob, i) # add_entry d n ob (w_fs w)\<rparr>)
                 in Inr (open_fd 0 (flag_desc ob fl) w1))))"

section \<open>Path names\<close>

definition top_obj :: "oid \<Rightarrow> (cstring \<times> oid) list \<Rightarrow> oid" where
  "top_obj root st = (case st of [] \<Rightarrow> root | (_, ob) # _ \<Rightarrow> ob)"

definition components :: "cstring \<Rightarrow> cstring list" where
  "components p = tokens p @ (if p \<noteq> [] \<and> last p = CHR ''/'' then [''.''] else [])"

definition is_absolute :: "cstring \<Rightarrow> bool" where
  "is_absolute p \<longleftrightarrow> (case p of [] \<Rightarrow> False | c # _ \<Rightarrow> c = CHR ''/'')"

text \<open>
  Resolution of a path: the stack holds the names and objects passed so far, so that
  \<^verbatim>\<open>..\<close> pops it and the canonical path can be read off; at most \<open>links\<close> symbolic links are
  followed.
\<close>

function walk :: "fs \<Rightarrow> oid \<Rightarrow> bool \<Rightarrow> nat \<Rightarrow> (cstring \<times> oid) list \<Rightarrow> cstring list
    \<Rightarrow> errno + (cstring \<times> oid) list" where
  "walk f root follow links st [] = Inr st"
| "walk f root follow links st (c # cs) =
     (case dir_of f (top_obj root st) of
        None \<Rightarrow> Inl ENOTDIR
      | Some es \<Rightarrow>
          if c = ''.'' then walk f root follow links st cs
          else if c = ''..'' then walk f root follow links (tl st) cs
          else (case map_of es c of
              None \<Rightarrow> Inl ENOENT
            | Some ob \<Rightarrow> (case map_option i_node (map_of f ob) of
                Some (Lnk target) \<Rightarrow>
                  if cs = [] \<and> \<not> follow then Inr ((c, ob) # st)
                  else (case links of 0 \<Rightarrow> Inl ELOOP
                    | Suc k \<Rightarrow> walk f root follow k (if is_absolute target then [] else st)
                                    (components target @ cs))
              | _ \<Rightarrow> walk f root follow links ((c, ob) # st) cs)))"
  by pat_completeness auto
termination
  by (relation "measures [\<lambda>(f, root, follow, links, st, cs). links,
                          \<lambda>(f, root, follow, links, st, cs). length cs]") auto

definition resolve :: "'z world_scheme \<Rightarrow> bool \<Rightarrow> cstring \<Rightarrow> errno + (cstring \<times> oid) list" where
  "resolve w follow p = (if p = [] then Inl ENOENT
     else walk (w_fs w) (w_root w) follow 40 []
       ((if is_absolute p then [] else tokens (w_cwd w)) @ components p))"

definition canonical :: "(cstring \<times> oid) list \<Rightarrow> cstring" where
  "canonical st = (if st = [] then ''/'' else concat (map (\<lambda>p. CHR ''/'' # fst p) (rev st)))"

text \<open>The directory that holds a path's last name, and that name.\<close>

definition resolve_parent :: "'z world_scheme \<Rightarrow> cstring \<Rightarrow> errno + (oid \<times> cstring)" where
  "resolve_parent w p = (case rev (tokens p) of
     [] \<Rightarrow> Inl EEXIST
   | n # rest \<Rightarrow> (case walk (w_fs w) (w_root w) True 40 []
        ((if is_absolute p then [] else tokens (w_cwd w)) @ rev rest) of
         Inl e \<Rightarrow> Inl e | Inr st \<Rightarrow> Inr (top_obj (w_root w) st, n)))"

definition sys_open :: "cstring \<Rightarrow> oflag list \<Rightarrow> ('z world_scheme, int) state" where
  "sys_open p fl = call (-1) (\<lambda>_ w. case resolve w (O_NOFOLLOW \<notin> set fl) p of Inl e \<Rightarrow> Inl e
     | Inr st \<Rightarrow> open_obj (top_obj (w_root w) st) fl w)"

definition stat_path :: "bool \<Rightarrow> cstring \<Rightarrow> ('z world_scheme, stat option) state" where
  "stat_path follow p = call None (\<lambda>_ w. case resolve w follow p of Inl e \<Rightarrow> Inl e
     | Inr st \<Rightarrow> (case stat_of (w_fs w) (top_obj (w_root w) st) of None \<Rightarrow> Inl ENOENT
         | Some s \<Rightarrow> Inr (Some s, w)))"

abbreviation sys_stat :: "cstring \<Rightarrow> ('z world_scheme, stat option) state" where
  "sys_stat \<equiv> stat_path True"

abbreviation sys_lstat :: "cstring \<Rightarrow> ('z world_scheme, stat option) state" where
  "sys_lstat \<equiv> stat_path False"

definition sys_realpath :: "cstring \<Rightarrow> ('z world_scheme, cstring option) state" where
  "sys_realpath p = call None (\<lambda>_ w. case resolve w True p of Inl e \<Rightarrow> Inl e
     | Inr st \<Rightarrow> (if map_of (w_fs w) (top_obj (w_root w) st) = None then Inl ENOENT
                  else Inr (Some (canonical st), w)))"

definition sys_readlink :: "cstring \<Rightarrow> ('z world_scheme, cstring option) state" where
  "sys_readlink p = call None (\<lambda>_ w. case resolve w False p of Inl e \<Rightarrow> Inl e
     | Inr st \<Rightarrow> (case map_option i_node (map_of (w_fs w) (top_obj (w_root w) st)) of
         Some (Lnk t) \<Rightarrow> Inr (Some t, w) | _ \<Rightarrow> Inl EINVAL))"

definition sys_getcwd :: "('z world_scheme, cstring option) state" where
  "sys_getcwd = call None (\<lambda>_ w. Inr (Some (w_cwd w), w))"

section \<open>Status\<close>

definition sys_fstat :: "int \<Rightarrow> ('z world_scheme, stat option) state" where
  "sys_fstat fd = call None (\<lambda>_ w. case fd_obj w fd of Inl e \<Rightarrow> Inl e
     | Inr ob \<Rightarrow> (case stat_of (w_fs w) ob of None \<Rightarrow> Inl EIO | Some s \<Rightarrow> Inr (Some s, w)))"

text \<open>\<open>fstatat\<close> with \<open>AT_SYMLINK_NOFOLLOW\<close>, as every call of the sources passes.\<close>

definition sys_fstatat :: "int \<Rightarrow> cstring \<Rightarrow> ('z world_scheme, stat option) state" where
  "sys_fstatat fd n = call None (\<lambda>_ w. case fd_dir w fd of Inl e \<Rightarrow> Inl e
     | Inr (d, es) \<Rightarrow> (case map_of es n of None \<Rightarrow> Inl ENOENT
         | Some ob \<Rightarrow> (case stat_of (w_fs w) ob of None \<Rightarrow> Inl ENOENT | Some s \<Rightarrow> Inr (Some s, w))))"

section \<open>Changing the name space\<close>

definition sys_mkdirat :: "int \<Rightarrow> cstring \<Rightarrow> nat \<Rightarrow> ('z world_scheme, int) state" where
  "sys_mkdirat fd n perm = call (-1) (\<lambda>_ w. case fd_dir w fd of Inl e \<Rightarrow> Inl e
     | Inr (d, es) \<Rightarrow> if map_of es n \<noteq> None then Inl EEXIST
         else if \<not> dir_live (w_fs w) d then Inl ENOENT
         else (let ob = fresh_oid (w_fs w) (fst d);
                   i = new_inode (Dir []) perm (w_uid w) (w_gid w)
               in Inr (0, log (Made d n ob)
                            (w\<lparr>w_fs := (ob, i) # add_entry d n ob (w_fs w)\<rparr>))))"

definition remove_entry :: "bool \<Rightarrow> oid \<Rightarrow> (cstring \<times> oid) list \<Rightarrow> cstring \<Rightarrow> 'z world_scheme
    \<Rightarrow> errno + (int \<times> 'z world_scheme)" where
  "remove_entry rmdir d es n w = (case map_of es n of
     None \<Rightarrow> Inl ENOENT
   | Some ob \<Rightarrow> (case dir_of (w_fs w) ob of
        Some sub \<Rightarrow> if \<not> rmdir then Inl EISDIR else if sub \<noteq> [] then Inl ENOTEMPTY
           else Inr (0, log (Unlinked d n ob)
                  (w\<lparr>w_fs := drop_link ob (del_entry d n (w_fs w))\<rparr>))
      | None \<Rightarrow> if rmdir then Inl ENOTDIR
           else Inr (0, log (Unlinked d n ob)
                  (w\<lparr>w_fs := drop_link ob (del_entry d n (w_fs w))\<rparr>))))"

text \<open>\<open>unlinkat\<close>; the flag is \<open>AT_REMOVEDIR\<close>.\<close>

definition sys_unlinkat :: "int \<Rightarrow> cstring \<Rightarrow> bool \<Rightarrow> ('z world_scheme, int) state" where
  "sys_unlinkat fd n rmdir = call (-1) (\<lambda>_ w. case fd_dir w fd of Inl e \<Rightarrow> Inl e
     | Inr (d, es) \<Rightarrow> remove_entry rmdir d es n w)"

definition remove_path :: "bool \<Rightarrow> cstring \<Rightarrow> ('z world_scheme, int) state" where
  "remove_path rmdir p = call (-1) (\<lambda>_ w. case resolve_parent w p of Inl e \<Rightarrow> Inl e
     | Inr (d, n) \<Rightarrow> (case dir_of (w_fs w) d of None \<Rightarrow> Inl ENOTDIR
         | Some es \<Rightarrow> remove_entry rmdir d es n w))"

abbreviation sys_unlink :: "cstring \<Rightarrow> ('z world_scheme, int) state" where
  "sys_unlink \<equiv> remove_path False"

abbreviation sys_rmdir :: "cstring \<Rightarrow> ('z world_scheme, int) state" where
  "sys_rmdir \<equiv> remove_path True"

definition link_entry :: "oid \<Rightarrow> oid \<Rightarrow> (cstring \<times> oid) list \<Rightarrow> cstring \<Rightarrow> 'z world_scheme
    \<Rightarrow> errno + (int \<times> 'z world_scheme)" where
  "link_entry ob d es n w =
     (if is_dir (w_fs w) ob then Inl EPERM
      else if fst ob \<noteq> fst d then Inl EXDEV
      else if map_of es n \<noteq> None then Inl EEXIST
      else if \<not> dir_live (w_fs w) d then Inl ENOENT
      else Inr (0, log (Linked d n ob) (w\<lparr>w_fs := add_link ob (add_entry d n ob (w_fs w))\<rparr>)))"

definition sys_linkat :: "int \<Rightarrow> cstring \<Rightarrow> int \<Rightarrow> cstring \<Rightarrow> ('z world_scheme, int) state" where
  "sys_linkat fd1 n1 fd2 n2 = call (-1) (\<lambda>_ w. case fd_dir w fd1 of Inl e \<Rightarrow> Inl e
     | Inr (d1, es1) \<Rightarrow> (case map_of es1 n1 of None \<Rightarrow> Inl ENOENT
       | Some ob \<Rightarrow> (case fd_dir w fd2 of Inl e \<Rightarrow> Inl e
         | Inr (d2, es2) \<Rightarrow> link_entry ob d2 es2 n2 w)))"

definition sys_link :: "cstring \<Rightarrow> cstring \<Rightarrow> ('z world_scheme, int) state" where
  "sys_link p q = call (-1) (\<lambda>_ w. case resolve w False p of Inl e \<Rightarrow> Inl e
     | Inr st \<Rightarrow> (case resolve_parent w q of Inl e \<Rightarrow> Inl e
       | Inr (d, n) \<Rightarrow> (case dir_of (w_fs w) d of None \<Rightarrow> Inl ENOTDIR
         | Some es \<Rightarrow> link_entry (top_obj (w_root w) st) d es n w)))"

text \<open>What \<open>rename\<close> demands of an entry it replaces.\<close>

definition rename_clash :: "fs \<Rightarrow> oid \<Rightarrow> oid \<Rightarrow> errno option" where
  "rename_clash f ob old = (case dir_of f old of
     Some sub \<Rightarrow> if \<not> is_dir f ob then Some EISDIR else if sub \<noteq> [] then Some ENOTEMPTY else None
   | None \<Rightarrow> if is_dir f ob then Some ENOTDIR else None)"

definition move_entry :: "oid \<Rightarrow> cstring \<Rightarrow> oid \<Rightarrow> cstring \<Rightarrow> oid \<Rightarrow> fs \<Rightarrow> fs" where
  "move_entry d1 n1 d2 n2 ob f = add_entry d2 n2 ob (del_entry d1 n1 f)"

text \<open>
  \<open>renameat\<close>, and with \<open>excl\<close> the no-replace form (\<open>renameat2\<close> with flag 1, \<open>renameatx_np\<close> with
  \<open>RENAME_EXCL\<close>). Moving a directory below itself is not detected.
\<close>

definition sys_rename :: "bool \<Rightarrow> int \<Rightarrow> cstring \<Rightarrow> int \<Rightarrow> cstring \<Rightarrow> ('z world_scheme, int) state" where
  "sys_rename excl fd1 n1 fd2 n2 = call (-1) (\<lambda>_ w. case fd_dir w fd1 of Inl e \<Rightarrow> Inl e
     | Inr (d1, es1) \<Rightarrow> (case fd_dir w fd2 of Inl e \<Rightarrow> Inl e
       | Inr (d2, es2) \<Rightarrow> (case map_of es1 n1 of None \<Rightarrow> Inl ENOENT
         | Some ob \<Rightarrow>
             if fst d1 \<noteq> fst d2 then Inl EXDEV
             else (case map_of es2 n2 of
                 None \<Rightarrow> if \<not> dir_live (w_fs w) d2 then Inl ENOENT
                   else Inr (0, log (Moved d1 n1 d2 n2 ob None)
                          (w\<lparr>w_fs := move_entry d1 n1 d2 n2 ob (w_fs w)\<rparr>))
               | Some old \<Rightarrow> if excl then Inl EEXIST
                   else if old = ob then Inr (0, w)
                   else (case rename_clash (w_fs w) ob old of Some e \<Rightarrow> Inl e
                     | None \<Rightarrow> Inr (0, log (Moved d1 n1 d2 n2 ob (Some old))
                         (w\<lparr>w_fs := drop_link old (move_entry d1 n1 d2 n2 ob (w_fs w))\<rparr>)))))))"

abbreviation sys_renameat :: "int \<Rightarrow> cstring \<Rightarrow> int \<Rightarrow> cstring \<Rightarrow> ('z world_scheme, int) state" where
  "sys_renameat \<equiv> sys_rename False"

abbreviation sys_rename_excl :: "int \<Rightarrow> cstring \<Rightarrow> int \<Rightarrow> cstring \<Rightarrow> ('z world_scheme, int) state" where
  "sys_rename_excl \<equiv> sys_rename True"

section \<open>Directory streams\<close>

text \<open>
  \<open>fdopendir\<close> and a rewind: the names the stream will yield, fixed here; each \<open>readdir\<close> is a
  call of its own, which may fail (\<open>None\<close> with \<^verbatim>\<open>errno\<close> set) or end (\<open>None\<close>, \<^verbatim>\<open>errno\<close> kept).
  A removed directory yields no entry at all, not even the dots.
\<close>

definition sys_fdopendir :: "int \<Rightarrow> ('z world_scheme, cstring list option) state" where
  "sys_fdopendir fd = call None (\<lambda>_ w. case fd_dir w fd of Inl e \<Rightarrow> Inl e
     | Inr (d, es) \<Rightarrow> Inr (Some ((if dir_live (w_fs w) d then [''.'', ''..''] else []) @ map fst es), w))"

definition sys_readdir :: "cstring list \<Rightarrow> ('z world_scheme, cstring option) state" where
  "sys_readdir ns = call None (\<lambda>_ w. case ns of [] \<Rightarrow> Inr (None, w) | n # _ \<Rightarrow> Inr (Some n, w))"

definition sys_opendir :: "cstring \<Rightarrow> ('z world_scheme, bool) state" where
  "sys_opendir p = call False (\<lambda>_ w. case resolve w True p of Inl e \<Rightarrow> Inl e
     | Inr st \<Rightarrow> (case dir_of (w_fs w) (top_obj (w_root w) st) of None \<Rightarrow> Inl ENOTDIR
         | Some _ \<Rightarrow> Inr (True, w)))"

section \<open>Contents\<close>

text \<open>A read of a positive length from before the end yields at least one byte.\<close>

definition short_read :: "nat option \<Rightarrow> nat \<Rightarrow> nat" where
  "short_read amount n = (case amount of None \<Rightarrow> n | Some k \<Rightarrow> min n (Suc k))"

definition short_write :: "nat option \<Rightarrow> nat \<Rightarrow> nat" where
  "short_write amount n = (case amount of None \<Rightarrow> n | Some k \<Rightarrow> min n k)"

definition sys_pread :: "int \<Rightarrow> nat \<Rightarrow> nat \<Rightarrow> ('z world_scheme, bytes option) state" where
  "sys_pread fd len off = call None (\<lambda>t w. case fd_obj w fd of Inl e \<Rightarrow> Inl e
     | Inr ob \<Rightarrow> (case map_option i_node (map_of (w_fs w) ob) of
         Some (Reg b) \<Rightarrow> Inr (Some (take (short_read (t_amount t) len) (drop off b)), w)
       | Some (Dir _) \<Rightarrow> Inl EISDIR
       | _ \<Rightarrow> Inl EINVAL))"

definition splice :: "nat \<Rightarrow> bytes \<Rightarrow> bytes \<Rightarrow> bytes" where
  "splice off data b = take off (b @ replicate (off - length b) (CHR 0x00)) @ data
     @ drop (off + length data) b"

text \<open>Writing clears the set-ID bits (octal 6000) and a file's capabilities.\<close>

definition write_obj :: "oid \<Rightarrow> bytes \<Rightarrow> fs \<Rightarrow> fs" where
  "write_obj ob b = al_adjust ob (\<lambda>i. i\<lparr>i_node := Reg b, i_perm := i_perm i mod 1024, i_caps := False\<rparr>)"

definition sys_pwrite :: "int \<Rightarrow> bytes \<Rightarrow> nat \<Rightarrow> ('z world_scheme, int) state" where
  "sys_pwrite fd data off = call (-1) (\<lambda>t w. case map_of (w_fds w) fd of None \<Rightarrow> Inl EBADF
     | Some ds \<Rightarrow> if \<not> d_write ds then Inl EBADF
       else (case content_of (w_fs w) (d_obj ds) of None \<Rightarrow> Inl EINVAL
         | Some b \<Rightarrow> (let n = short_write (t_amount t) (length data) in
             Inr (int n, log (Wrote (d_obj ds))
               (w\<lparr>w_fs := write_obj (d_obj ds) (splice off (take n data) b) (w_fs w)\<rparr>)))))"

text \<open>\<open>write\<close> at the descriptor's own offset, which it advances.\<close>

definition sys_write :: "int \<Rightarrow> bytes \<Rightarrow> ('z world_scheme, int) state" where
  "sys_write fd data = call (-1) (\<lambda>t w. case map_of (w_fds w) fd of None \<Rightarrow> Inl EBADF
     | Some ds \<Rightarrow> if \<not> d_write ds then Inl EBADF
       else (case content_of (w_fs w) (d_obj ds) of None \<Rightarrow> Inl EINVAL
         | Some b \<Rightarrow> (let n = short_write (t_amount t) (length data) in
             Inr (int n, log (Wrote (d_obj ds))
               (w\<lparr>w_fs := write_obj (d_obj ds) (splice (d_pos ds) (take n data) b) (w_fs w),
                  w_fds := al_adjust fd (\<lambda>x. x\<lparr>d_pos := d_pos x + n\<rparr>) (w_fds w)\<rparr>)))))"

text \<open>\<open>read\<close> from a device: the environment's bytes.\<close>

definition sys_read_device :: "int \<Rightarrow> nat \<Rightarrow> ('z world_scheme, bytes option) state" where
  "sys_read_device fd len = call None (\<lambda>t w. case fd_obj w fd of Inl e \<Rightarrow> Inl e
     | Inr ob \<Rightarrow> (let b = take len (t_bytes t @ replicate len (CHR 0x00)) in
         Inr (Some (take (short_read (t_amount t) len) b), w)))"

definition sys_ftruncate :: "int \<Rightarrow> nat \<Rightarrow> ('z world_scheme, int) state" where
  "sys_ftruncate fd len = call (-1) (\<lambda>_ w. case map_of (w_fds w) fd of None \<Rightarrow> Inl EBADF
     | Some ds \<Rightarrow> if \<not> d_write ds then Inl EINVAL
       else (case content_of (w_fs w) (d_obj ds) of None \<Rightarrow> Inl EINVAL
         | Some b \<Rightarrow> Inr (0, log (Truncated (d_obj ds))
             (w\<lparr>w_fs := write_obj (d_obj ds)
                  (take len (b @ replicate (len - length b) (CHR 0x00))) (w_fs w)\<rparr>))))"

text \<open>Calls whose effect is not visible in the model: they need an open descriptor.\<close>

definition sys_fd_only :: "int \<Rightarrow> ('z world_scheme, int) state" where
  "sys_fd_only fd = call (-1) (\<lambda>_ w. case fd_obj w fd of Inl e \<Rightarrow> Inl e | Inr _ \<Rightarrow> Inr (0, w))"

abbreviation sys_fsync :: "int \<Rightarrow> ('z world_scheme, int) state" where
  "sys_fsync \<equiv> sys_fd_only"

text \<open>\<open>flock\<close> and \<open>fcntl(F_SETLK)\<close>; another process's hold on the lock is a fault or a wait.\<close>

abbreviation sys_flock :: "int \<Rightarrow> ('z world_scheme, int) state" where
  "sys_flock \<equiv> sys_fd_only"

abbreviation sys_setlk :: "int \<Rightarrow> ('z world_scheme, int) state" where
  "sys_setlk \<equiv> sys_fd_only"

text \<open>\<open>fcntl(F_GETLK)\<close>: whether another process holds a write lease on the object.\<close>

definition sys_getlk :: "int \<Rightarrow> ('z world_scheme, bool option) state" where
  "sys_getlk fd = call None (\<lambda>_ w. case fd_obj w fd of Inl e \<Rightarrow> Inl e
     | Inr ob \<Rightarrow> (case map_of (w_fs w) ob of None \<Rightarrow> Inl EBADF | Some i \<Rightarrow> Inr (Some (i_leased i), w)))"

definition sys_fchmod :: "int \<Rightarrow> nat \<Rightarrow> ('z world_scheme, int) state" where
  "sys_fchmod fd perm = call (-1) (\<lambda>_ w. case fd_obj w fd of Inl e \<Rightarrow> Inl e
     | Inr ob \<Rightarrow> Inr (0, log (Moded ob)
         (w\<lparr>w_fs := al_adjust ob (\<lambda>i. i\<lparr>i_perm := perm\<rparr>) (w_fs w)\<rparr>)))"

text \<open>\<open>fgetxattr(fd, "security.capability", ...)\<close>: negative with \<open>ENODATA\<close> when it is absent.\<close>

definition sys_fgetxattr_caps :: "int \<Rightarrow> ('z world_scheme, int) state" where
  "sys_fgetxattr_caps fd = call (-1) (\<lambda>_ w. case fd_obj w fd of Inl e \<Rightarrow> Inl e
     | Inr ob \<Rightarrow> (case map_of (w_fs w) ob of None \<Rightarrow> Inl EBADF
         | Some i \<Rightarrow> if i_caps i then Inr (0, w) else Inl ENODATA))"

text \<open>\<open>fstatfs\<close>, \<open>fpathconf(_PC_CASE_SENSITIVE)\<close>, \<open>ioctl(FS_IOC_GETFLAGS)\<close> and the path forms.\<close>

definition sys_fstatfs :: "int \<Rightarrow> ('z world_scheme, fstype option) state" where
  "sys_fstatfs fd = call None (\<lambda>_ w. case fd_obj w fd of Inl e \<Rightarrow> Inl e
     | Inr ob \<Rightarrow> Inr (Some (v_type (w_volumes w (fst ob))), w))"

definition sys_fpathconf_case :: "int \<Rightarrow> ('z world_scheme, int) state" where
  "sys_fpathconf_case fd = call (-1) (\<lambda>_ w. case fd_obj w fd of Inl e \<Rightarrow> Inl e
     | Inr ob \<Rightarrow> Inr (v_case (w_volumes w (fst ob)), w))"

definition sys_getflags_casefold :: "int \<Rightarrow> ('z world_scheme, bool option) state" where
  "sys_getflags_casefold fd = call None (\<lambda>_ w. case fd_obj w fd of Inl e \<Rightarrow> Inl e
     | Inr ob \<Rightarrow> (case map_of (w_fs w) ob of None \<Rightarrow> Inl EBADF | Some i \<Rightarrow> Inr (Some (i_casefold i), w)))"

definition sys_statfs :: "cstring \<Rightarrow> ('z world_scheme, fstype option) state" where
  "sys_statfs p = call None (\<lambda>_ w. case resolve w True p of Inl e \<Rightarrow> Inl e
     | Inr st \<Rightarrow> Inr (Some (v_type (w_volumes w (fst (top_obj (w_root w) st)))), w))"

definition sys_pathconf_case :: "cstring \<Rightarrow> ('z world_scheme, int) state" where
  "sys_pathconf_case p = call (-1) (\<lambda>_ w. case resolve w True p of Inl e \<Rightarrow> Inl e
     | Inr st \<Rightarrow> Inr (v_case (w_volumes w (fst (top_obj (w_root w) st))), w))"

text \<open>Files of the platform layer's \<^verbatim>\<open>landin_cancellation_requested\<close> read this flag.\<close>

definition cancellation_requested :: "('z world_scheme, bool) state" where
  "cancellation_requested = gets (\<lambda>w. w_cancel w \<noteq> 0)"

section \<open>Writing everything\<close>

text \<open>
  The loop \<^verbatim>\<open>while (used < size) write(...)\<close> of the staged and of the private write: interrupted
  writes are retried, a write of nothing is a failure. Without \<open>retry\<close> it is the loop of the C
  library's \<^verbatim>\<open>dprintf\<close>, which fails at the first error.
\<close>

lemma sys_write_cases:
  assumes "run_state (sys_write fd data) w = (n, w')"
  shows "length (w_turns w') \<le> length (w_turns w)"
    and "n < 0 \<Longrightarrow> w_errno w' = EINTR \<Longrightarrow> length (w_turns w') < length (w_turns w)"
proof -
  show "length (w_turns w') \<le> length (w_turns w)"
    using assms unfolding sys_write_def
    by (rule call_turns_le [rotated])
      (auto simp: Let_def log_def split: option.splits if_splits)
  have "n = -1 \<or> 0 \<le> n"
    using assms unfolding sys_write_def call_def
    by (auto simp: Let_def split: prod.splits option.splits sum.splits if_splits)
  moreover have "length (w_turns w') < length (w_turns w)" if n: "n = -1" and e: "w_errno w' = EINTR"
    by (rule call_interrupted [OF _ _ assms [unfolded sys_write_def n] e])
      (auto simp: Let_def split: option.splits if_splits)
  ultimately show "n < 0 \<Longrightarrow> w_errno w' = EINTR \<Longrightarrow> length (w_turns w') < length (w_turns w)"
    by auto
qed

function write_fully :: "bool \<Rightarrow> int \<Rightarrow> bytes \<Rightarrow> 'z world_scheme \<Rightarrow> bool \<times> 'z world_scheme" where
  "write_fully retry fd data w =
     (if data = [] then (True, w)
      else (case run_state (sys_write fd data) w of
          (n, w1) \<Rightarrow> if n < 0 \<and> retry \<and> w_errno w1 = EINTR then write_fully retry fd data w1
            else if n \<le> 0 then (False, w1)
            else write_fully retry fd (drop (nat n) data) w1))"
  by pat_completeness auto
termination
  by (relation "measures [\<lambda>(retry, fd, data, w). length (w_turns w), \<lambda>(retry, fd, data, w). length data]")
    (auto dest: sys_write_cases(2) [OF sym] sys_write_cases(1) [OF sym] intro: le_neq_implies_less)

declare write_fully.simps [simp del]

section \<open>Reading everything\<close>

text \<open>
  The loop of \<^verbatim>\<open>read_bytes\<close>, \<^verbatim>\<open>read_all\<close> and \<^verbatim>\<open>landin_tool_capture_read_locked\<close>: a buffer that
  doubles when it is full, refused with \<open>overflow\<close> when the doubling would pass \<open>SIZE_MAX\<close>. The
  result comes with the capacity reached.
\<close>

definition SIZE_MAX :: nat where "SIZE_MAX = 2 ^ 64 - 1"

definition content_length :: "'z world_scheme \<Rightarrow> int \<Rightarrow> nat" where
  "content_length w fd = (case fd_obj w fd of Inl e \<Rightarrow> 0
     | Inr ob \<Rightarrow> (case content_of (w_fs w) ob of None \<Rightarrow> 0 | Some b \<Rightarrow> length b))"

lemma sys_pread_interrupted:
  "run_state (sys_pread fd n off) w = (None, w') \<Longrightarrow> w_errno w' = EINTR \<Longrightarrow>
   length (w_turns w') < length (w_turns w)"
  unfolding sys_pread_def
  by (rule call_interrupted) (auto simp: fd_obj_def split: sum.splits option.splits node.splits)

lemma sys_pread_turns:
  "run_state (sys_pread fd n off) w = (r, w') \<Longrightarrow> length (w_turns w') \<le> length (w_turns w)"
  unfolding sys_pread_def
  by (drule call_turns_le [rotated]) (auto simp: fd_obj_def split: sum.splits option.splits node.splits)

lemma call_no_turn:
  "w_turns w = [] \<Longrightarrow> run_state (call bad act) w =
     (case act idle_turn w of Inl e \<Rightarrow> (bad, w\<lparr>w_errno := e\<rparr>) | Inr rw \<Rightarrow> rw)"
  by (simp add: call_def next_turn_def) (simp add: idle_turn_def)

lemma call_uses_turn:
  assumes "\<And>t w r w'. act t w = Inr (r, w') \<Longrightarrow> w_turns w' = w_turns w"
    and "run_state (call bad act) w = (r, w')" and "w_turns w \<noteq> []"
  shows "length (w_turns w') < length (w_turns w)"
proof -
  from assms(3) obtain t ts where "w_turns w = t # ts" by (cases "w_turns w") auto
  with assms(2) show ?thesis
    by (auto simp: call_def next_turn_def split: sum.splits option.splits dest!: assms(1))
qed

lemma sys_pread_uses_turn:
  "run_state (sys_pread fd n off) w = (r, w') \<Longrightarrow> w_turns w \<noteq> [] \<Longrightarrow>
   length (w_turns w') < length (w_turns w)"
  unfolding sys_pread_def
  by (rule call_uses_turn) (auto simp: fd_obj_def split: sum.splits option.splits node.splits)

lemma sys_pread_progress:
  assumes "run_state (sys_pread fd n off) w = (Some got, w')" and "got \<noteq> []"
    and "\<not> length (w_turns w') < length (w_turns w)"
  shows "w' = w \<and> off < content_length w fd"
proof -
  have "w_turns w = []"
    using assms(3) sys_pread_uses_turn [OF assms(1)] by blast
  with assms show ?thesis
    by (auto simp: sys_pread_def call_no_turn content_length_def content_of_def
        split: sum.splits option.splits node.splits)
qed

lemma grow_step:
  assumes "run_state (if c then alloc else ret True) w = (r, w1)"
  shows "length (w_turns w1) < length (w_turns w) \<or> w1 = w"
proof (cases "c \<and> w_turns w \<noteq> []")
  case True
  with assms have "length (w_turns w1) < length (w_turns w)"
    unfolding alloc_def by (intro call_uses_turn [of "\<lambda>_ w. Inr (True, w)" False w r w1]) auto
  then show ?thesis ..
next
  case False
  with assms show ?thesis by (auto simp: alloc_def call_no_turn split: if_splits)
qed

lemma pread_round_interrupted:
  assumes "run_state (if c then alloc else ret True) w = (r, w1)"
    and "run_state (sys_pread fd n k) w1 = (None, w2)" and "w_errno w2 = EINTR"
  shows "length (w_turns w2) < length (w_turns w)"
  using grow_step [OF assms(1)] sys_pread_interrupted [OF assms(2,3)] by auto

lemma pread_round_progress:
  assumes "run_state (if c then alloc else ret True) w = (r, w1)"
    and "run_state (sys_pread fd n (length used)) w1 = (Some got, w2)" and "got \<noteq> []"
    and "\<not> length (w_turns w2) < length (w_turns w)"
  shows "length (w_turns w2) = length (w_turns w)
    \<and> content_length w2 fd - (length used + length got) < content_length w fd - length used"
proof -
  from sys_pread_turns [OF assms(2)] grow_step [OF assms(1)] assms(4)
  have w1: "w1 = w" and le: "\<not> length (w_turns w2) < length (w_turns w1)" by auto
  from sys_pread_progress [OF assms(2,3) le] w1
  have "w2 = w" "length used < content_length w fd" by auto
  with assms(3) show ?thesis by (simp add: transfer_progress)
qed

function pread_loop :: "errno \<Rightarrow> int \<Rightarrow> bytes \<Rightarrow> nat \<Rightarrow> 'z world_scheme
    \<Rightarrow> (bytes \<times> nat) option \<times> 'z world_scheme" where
  "pread_loop overflow fd used capacity w =
     (if length used = capacity \<and> SIZE_MAX div 2 < capacity
      then (None, w\<lparr>w_errno := overflow\<rparr>)
      else (case run_state (if length used = capacity then alloc else ret True) w of
          (room, w1) \<Rightarrow>
            if \<not> room then (None, w1)
            else (let cap = (if length used = capacity then 2 * capacity else capacity) in
              case run_state (sys_pread fd (cap - length used) (length used)) w1 of
                (None, w2) \<Rightarrow> if w_errno w2 = EINTR then pread_loop overflow fd used cap w2
                              else (None, w2)
              | (Some got, w2) \<Rightarrow> if got = [] then (Some (used, cap), w2)
                              else pread_loop overflow fd (used @ got) cap w2)))"
  by pat_completeness auto
termination
proof (relation "measures [\<lambda>(e, fd, used, cap, w). length (w_turns w),
                          \<lambda>(e, fd, used, cap, w). content_length w fd - length used]",
    goal_cases)
  case 1
  show ?case by simp
next
  case 2
  then show ?case by simp (blast dest: pread_round_interrupted [OF sym sym])
next
  case 3
  then show ?case by simp (blast dest: pread_round_progress [OF sym sym])
qed

declare pread_loop.simps [simp del]

end
