(* ===== verification/OwnedDirectory.thy ===== *)
theory OwnedDirectory
  imports Host
begin

text \<open>
  Model of \<^verbatim>\<open>compiler/ada/src/platform/landin_owned_directory.h\<close>: private scratch directories
  shared by process captures and by the registry of private roots. A directory is made under
  a random name in a parent that stays pinned by a descriptor; removal moves the public entry
  into a fresh retirement directory, compares it with the retained root, and empties it only
  when it is that root.
\<close>

definition PATH_MAX :: nat where "PATH_MAX = 4096"
definition NAME_MAX :: nat where "NAME_MAX = 255"

record owned =
  o_parent :: int
  o_root :: int
  o_finished :: bool
  o_retained :: bool
  o_identity :: stat
  o_path :: cstring
  o_parent_path :: cstring
  o_name :: cstring
  o_reason :: cstring

definition owned_zero :: owned where
  "owned_zero = \<lparr>o_parent = -1, o_root = -1, o_finished = False, o_retained = False,
     o_identity = zero_stat, o_path = [], o_parent_path = [], o_name = [], o_reason = []\<rparr>"

definition landin_owned_same :: "stat \<Rightarrow> stat \<Rightarrow> bool" where
  "landin_owned_same a b \<longleftrightarrow> st_dev a = st_dev b \<and> st_ino a = st_ino b"

section \<open>Random names\<close>

text \<open>The loop that fills the random buffer: interrupted reads are retried.\<close>

lemma read_device_interrupted:
  "run_state (sys_read_device fd n) w = (None, w') \<Longrightarrow> w_errno w' = EINTR \<Longrightarrow>
   length (w_turns w') < length (w_turns w)"
  unfolding sys_read_device_def
  by (rule call_interrupted) (auto simp: fd_obj_def Let_def split: sum.splits option.splits)

lemma read_device_turns:
  "run_state (sys_read_device fd n) w = (Some b, w') \<Longrightarrow>
   \<not> length (w_turns w') < length (w_turns w) \<Longrightarrow> length (w_turns w') = length (w_turns w)"
  unfolding sys_read_device_def
  by (drule call_turns_le [rotated]) (auto simp: fd_obj_def Let_def split: sum.splits option.splits)

function read_random :: "int \<Rightarrow> nat \<Rightarrow> bytes \<Rightarrow> 'z world_scheme \<Rightarrow> bytes option \<times> 'z world_scheme" where
  "read_random fd room used w =
     (if room \<le> length used then (Some used, w)
      else (case run_state (sys_read_device fd (room - length used)) w of
          (None, w1) \<Rightarrow> if w_errno w1 = EINTR then read_random fd room used w1 else (None, w1)
        | (Some got, w1) \<Rightarrow> if got = [] then (None, w1) else read_random fd room (used @ got) w1))"
  by pat_completeness auto
termination
  by (relation "measures [\<lambda>(fd, room, used, w). length (w_turns w),
                          \<lambda>(fd, room, used, w). room - length used]")
    (auto simp: transfer_progress dest: read_device_interrupted [OF sym]
      read_device_turns [OF sym])

declare read_random.simps [simp del]

definition landin_owned_random :: "nat \<Rightarrow> cstring \<Rightarrow> ('z world_scheme, cstring option) state" where
  "landin_owned_random room prefix =
     (if room < length prefix + 25 \<or> CHR ''/'' \<in> set prefix
      then do { set_errno EINVAL; ret None }
      else do {
        fd \<leftarrow> sys_open ''/dev/urandom'' [O_RDONLY, O_CLOEXEC];
        if fd < 0 then ret None
        else do {
          random \<leftarrow> State (read_random fd 12 []);
          sys_close fd;
          case random of
            None \<Rightarrow> ret None
          | Some bs \<Rightarrow> ret (Some (prefix @ concat (map hex_byte bs)))
        }
      })"

section \<open>Creation\<close>

fun owned_attempt :: "nat \<Rightarrow> int \<Rightarrow> cstring \<Rightarrow> cstring
    \<Rightarrow> ('z world_scheme, (cstring \<times> cstring) option) state" where
  "owned_attempt 0 parent parent_path prefix = do { set_errno EEXIST; ret None }"
| "owned_attempt (Suc k) parent parent_path prefix = do {
     random \<leftarrow> landin_owned_random (NAME_MAX + 1) prefix;
     case random of
       None \<Rightarrow> ret None
     | Some name \<Rightarrow> (let path = parent_path @ ''/'' @ name in
         if PATH_MAX \<le> length path then do { set_errno ENAMETOOLONG; ret None }
         else do {
           made \<leftarrow> sys_mkdirat parent name 448;
           if made = 0 then ret (Some (name, path))
           else do {
             e \<leftarrow> get_errno;
             if e \<noteq> EEXIST then ret None else owned_attempt k parent parent_path prefix
           }
         })
   }"

definition landin_owned_allocate :: "int \<Rightarrow> cstring \<Rightarrow> cstring
    \<Rightarrow> ('z world_scheme, owned option) state" where
  "landin_owned_allocate parent parent_path prefix = do {
     pinned \<leftarrow> sys_dup parent 3;
     if pinned < 0 then ret None
     else if PATH_MAX \<le> length parent_path
     then do { set_errno ENAMETOOLONG; sys_close pinned; ret None }
     else do {
       made \<leftarrow> owned_attempt 100 pinned parent_path prefix;
       case made of
         None \<Rightarrow> do { sys_close pinned; ret None }
       | Some (name, path) \<Rightarrow> do {
           root \<leftarrow> sys_openat pinned name [O_RDONLY, O_DIRECTORY, O_NOFOLLOW, O_CLOEXEC] 0;
           if root < 0 then do { sys_close pinned; ret None }
           else do {
             identity \<leftarrow> sys_fstat root;
             case identity of
               None \<Rightarrow> do { sys_close root; sys_close pinned; ret None }
             | Some s \<Rightarrow> ret (Some (owned_zero\<lparr>o_parent := pinned, o_root := root,
                 o_identity := s, o_path := path, o_parent_path := parent_path, o_name := name\<rparr>))
           }
         }
     }
   }"

definition landin_owned_create :: "cstring \<Rightarrow> ('z world_scheme, owned option) state" where
  "landin_owned_create prefix = do {
     tmpdir \<leftarrow> gets w_tmpdir;
     let directory = (case tmpdir of Some (c # cs) \<Rightarrow> c # cs | _ \<Rightarrow> ''/tmp'');
       fd \<leftarrow> sys_open directory [O_RDONLY, O_DIRECTORY, O_CLOEXEC];
       if fd < 0 then ret None
       else do {
         named \<leftarrow> (if is_absolute directory then ret (Some directory)
           else do {
             cwd \<leftarrow> sys_getcwd;
             case cwd of
               None \<Rightarrow> ret None
             | Some c \<Rightarrow> do {
                 room \<leftarrow> alloc;
                 ret (if room then Some (c @ ''/'' @ directory) else None)
               }
           });
         case named of
           None \<Rightarrow> do { sys_close fd; ret None }
         | Some n \<Rightarrow> do {
             result \<leftarrow> landin_owned_allocate fd n prefix;
             e \<leftarrow> get_errno;
             sys_close fd;
             set_errno e;
             ret result
           }
       }
     }"

section \<open>Emptying\<close>

text \<open>
  The descent holds one directory stream per level, so its depth is bounded by the number of
  descriptors the process may open: \<open>depth\<close> counts what is left of that limit, and at zero the
  \<^verbatim>\<open>openat\<close> of the next level is the one that fails with \<open>EMFILE\<close>.
\<close>

fun owned_empty_loop :: "(int \<Rightarrow> cstring \<Rightarrow> ('z world_scheme, bool) state) \<Rightarrow> int \<Rightarrow> cstring list
    \<Rightarrow> ('z world_scheme, bool) state" where
  "owned_empty_loop drop_one fd [] = do {
     set_errno EOK;
     item \<leftarrow> sys_readdir [];
     e \<leftarrow> get_errno;
     ret (e \<noteq> EOK)
   }"
| "owned_empty_loop drop_one fd (n # ns) = do {
     set_errno EOK;
     item \<leftarrow> sys_readdir (n # ns);
     case item of
       None \<Rightarrow> do { e \<leftarrow> get_errno; ret (e \<noteq> EOK) }
     | Some name \<Rightarrow> do {
         failed \<leftarrow> drop_one fd name;
         if failed then ret True else owned_empty_loop drop_one fd ns
       }
   }"

definition owned_drop_entry :: "(int \<Rightarrow> ('z world_scheme, int) state) \<Rightarrow> int \<Rightarrow> cstring
    \<Rightarrow> ('z world_scheme, bool) state" where
  "owned_drop_entry empty_dir fd name =
     (if name = ''.'' \<or> name = ''..'' then ret False
      else do {
        about \<leftarrow> sys_fstatat fd name;
        case about of
          None \<Rightarrow> do { e \<leftarrow> get_errno; ret (e \<noteq> ENOENT) }
        | Some s \<Rightarrow>
            if S_ISDIR s then do {
              child \<leftarrow> sys_openat fd name [O_RDONLY, O_DIRECTORY, O_NOFOLLOW, O_CLOEXEC] 0;
              if child < 0 then ret True
              else do {
                emptied \<leftarrow> empty_dir child;
                if emptied \<noteq> 0 then ret True
                else do { r \<leftarrow> sys_unlinkat fd name True; ret (r \<noteq> 0) }
              }
            }
            else do {
              r \<leftarrow> sys_unlinkat fd name False;
              e \<leftarrow> get_errno;
              ret (r \<noteq> 0 \<and> e \<noteq> ENOENT)
            }
      })"

fun landin_owned_empty :: "nat \<Rightarrow> int \<Rightarrow> ('z world_scheme, int) state" where
  "landin_owned_empty depth fd = do {
     listing \<leftarrow> sys_fdopendir fd;
     case listing of
       None \<Rightarrow> do { sys_close fd; ret (-1) }
     | Some names \<Rightarrow> do {
         failed \<leftarrow> owned_empty_loop
           (owned_drop_entry (\<lambda>child. case depth of
               0 \<Rightarrow> do { sys_close child; fail_with EMFILE }
             | Suc d \<Rightarrow> landin_owned_empty d child)) fd names;
         sys_close fd;
         ret (if failed then -1 else 0)
       }
   }"

declare landin_owned_empty.simps [simp del]

section \<open>Putting an entry back without replacing another\<close>

definition landin_owned_restore :: "int \<Rightarrow> cstring \<Rightarrow> int \<Rightarrow> cstring \<Rightarrow> bool
    \<Rightarrow> ('z world_scheme, int) state" where
  "landin_owned_restore from name to target is_directory = do {
     h \<leftarrow> gets w_host;
     moved \<leftarrow> (if h = FreeBSD then do { set_errno ENOSYS; ret (-1) }
               else sys_rename_excl from name to target);
     e \<leftarrow> get_errno;
     if moved = 0 then ret 0
     else if (h = Linux \<and> e \<noteq> ENOSYS \<and> e \<noteq> EINVAL \<and> e \<noteq> ENOTSUP)
          \<or> (h = Darwin \<and> e \<noteq> ENOTSUP \<and> e \<noteq> EINVAL) then ret (-1)
     else if is_directory then fail_with ENOTSUP
     else do {
       linked \<leftarrow> sys_linkat from name to target;
       if linked = 0 then sys_unlinkat from name False else ret (-1)
     }
   }"

section \<open>Describing a pinned directory\<close>

text \<open>
  The host's own answer for a descriptor's path (\<^verbatim>\<open>/proc/self/fd\<close>, \<open>F_GETPATH\<close>) comes from the
  environment; the code trusts it only after reopening it and comparing identities.
\<close>

definition sys_fd_path :: "int \<Rightarrow> ('z world_scheme, cstring option) state" where
  "sys_fd_path fd = call None (\<lambda>t w. case fd_obj w fd of Inl e \<Rightarrow> Inl e
     | Inr _ \<Rightarrow> Inr (Some (t_bytes t), w))"

definition observed_path :: "int \<Rightarrow> stat option \<Rightarrow> ('z world_scheme, cstring option) state" where
  "observed_path directory pinned = do {
     h \<leftarrow> gets w_host;
     observed \<leftarrow> (if h = FreeBSD \<or> (h = Darwin \<and> pinned = None) then ret None
                 else sys_fd_path directory);
     case (pinned, observed) of
       (Some s, Some path) \<Rightarrow>
         if h = Linux \<and> PATH_MAX - 1 \<le> length path then ret None
         else do {
           fd \<leftarrow> sys_open path [O_RDONLY, O_DIRECTORY, O_NOFOLLOW, O_CLOEXEC];
           if fd < 0 then ret None
           else do {
             named \<leftarrow> sys_fstat fd;
             sys_close fd;
             ret (case named of Some n \<Rightarrow> if same_stat n s then Some path else None | None \<Rightarrow> None)
           }
         }
     | _ \<Rightarrow> ret None
   }"

definition slash_if :: "bool \<Rightarrow> cstring" where
  "slash_if b = (if b then ''/'' else [])"

definition describe_observed :: "cstring \<Rightarrow> cstring \<Rightarrow> cstring" where
  "describe_observed path entry = path @ slash_if (entry \<noteq> [] \<and> path \<noteq> ''/'') @ entry"

definition describe_stale :: "cstring \<Rightarrow> cstring \<Rightarrow> stat \<Rightarrow> cstring" where
  "describe_stale last_known entry s = ''last-known spelling '' @ last_known
     @ slash_if (entry \<noteq> [] \<and> last_known \<noteq> ''/'') @ entry
     @ '' (parent device='' @ dec (st_dev s) @ '' inode='' @ dec (st_ino s)
     @ ''; current path unavailable; directory may have moved)''"

definition describe_unknown :: "cstring \<Rightarrow> cstring \<Rightarrow> cstring" where
  "describe_unknown last_known entry = ''last-known spelling '' @ last_known @ ''/'' @ entry
     @ '' (current path and parent identity unavailable)''"

definition landin_owned_describe :: "int \<Rightarrow> cstring \<Rightarrow> cstring
    \<Rightarrow> ('z world_scheme, cstring) state" where
  "landin_owned_describe directory last_known entry = do {
     pinned \<leftarrow> sys_fstat directory;
     observed \<leftarrow> observed_path directory pinned;
     ret (snprintf (PATH_MAX + 256) (case observed of
         Some path \<Rightarrow> describe_observed path entry
       | None \<Rightarrow> (case pinned of
           Some s \<Rightarrow> describe_stale last_known entry s
         | None \<Rightarrow> describe_unknown last_known entry)))
   }"

section \<open>Removal\<close>

text \<open>The messages of \<open>landin_owned_remove\<close>.\<close>

definition msg_replacement_preserved :: "cstring \<Rightarrow> cstring" where
  "msg_replacement_preserved original = ''replacement private-directory entry preserved at ''
     @ original @ ''; inspect it before cleanup''"
definition msg_name_changed :: "cstring \<Rightarrow> cstring" where
  "msg_name_changed original = ''private directory name changed at '' @ original
     @ ''; replacement preserved; inspect the original parent before cleanup''"
definition msg_no_recovery :: "cstring \<Rightarrow> cstring" where
  "msg_no_recovery original = ''cannot create private cleanup recovery for '' @ original
     @ ''; retry cleanup in its original parent''"
definition msg_changed_before_capture :: "cstring \<Rightarrow> cstring" where
  "msg_changed_before_capture original = ''private directory changed before capture at ''
     @ original @ ''; inspect its original parent''"
definition msg_replacement_restored :: "cstring \<Rightarrow> cstring" where
  "msg_replacement_restored original = ''replacement private directory restored at '' @ original
     @ ''; inspect the original directory before retrying cleanup''"
definition msg_entry_retained :: "cstring \<Rightarrow> cstring \<Rightarrow> cstring" where
  "msg_entry_retained recovery original = ''changed private-directory entry retained at ''
     @ recovery @ ''; inspect it and '' @ original @ '' before restoring it without replacement''"
definition msg_owned_retained :: "cstring \<Rightarrow> cstring" where
  "msg_owned_retained recovery = ''owned private directory retained at '' @ recovery
     @ ''; inspect it before retrying cleanup''"
definition msg_owned_removed :: "cstring \<Rightarrow> cstring \<Rightarrow> cstring" where
  "msg_owned_removed original recovery = ''owned private directory removed; replacement or cleanup entry preserved at ''
     @ original @ '' or '' @ recovery @ ''; inspect these names''"

definition owned_fail_empty :: "owned \<Rightarrow> ('z world_scheme, unit) state" where
  "owned_fail_empty retired = do {
     sys_close (o_root retired);
     sys_unlinkat (o_parent retired) (o_name retired) True;
     sys_close (o_parent retired);
     ret ()
   }"

definition owned_fail_retained :: "owned \<Rightarrow> ('z world_scheme, unit) state" where
  "owned_fail_retained retired = do {
     sys_close (o_root retired);
     sys_close (o_parent retired);
     ret ()
   }"

text \<open>
  The code after the entry was captured: a changed entry is put back or kept, the owned root is
  emptied, as deep as the descriptor limit allows, and its entry removed.
\<close>

definition owned_retire :: "owned \<Rightarrow> owned \<Rightarrow> ('z world_scheme, int \<times> owned) state" where
  "owned_retire retired owned = do {
     original \<leftarrow> landin_owned_describe (o_parent owned) (o_parent_path owned) (o_name owned);
     recovery \<leftarrow> landin_owned_describe (o_root retired) (o_path retired) ''entry'';
     actual \<leftarrow> sys_fstatat (o_root retired) ''entry'';
     if (case actual of None \<Rightarrow> True | Some s \<Rightarrow> \<not> landin_owned_same s (o_identity owned))
     then do {
       again \<leftarrow> sys_fstatat (o_root retired) ''entry'';
       restored \<leftarrow> (case again of
           None \<Rightarrow> ret (-1)
         | Some s \<Rightarrow> landin_owned_restore (o_root retired) ''entry'' (o_parent owned)
                       (o_name owned) (S_ISDIR s));
       if restored = 0
       then do {
         owned_fail_empty retired;
         ret (-1, owned\<lparr>o_reason := msg_replacement_restored original\<rparr>)
       }
       else do {
         owned_fail_retained retired;
         ret (-1, owned\<lparr>o_retained := True, o_reason := msg_entry_retained recovery original\<rparr>)
       }
     }
     else do {
       copied \<leftarrow> sys_dup (o_root owned) 3;
       limit \<leftarrow> gets w_nofile;
       emptied \<leftarrow> (if copied < 0 then ret (-1) else landin_owned_empty limit copied);
       removed \<leftarrow> (if emptied \<noteq> 0 then ret (-1) else sys_unlinkat (o_root retired) ''entry'' True);
       if removed \<noteq> 0
       then do {
         owned_fail_retained retired;
         ret (-1, owned\<lparr>o_retained := True, o_reason := msg_owned_retained recovery\<rparr>)
       }
       else do {
         now \<leftarrow> sys_fstatat (o_parent owned) (o_name owned);
         e \<leftarrow> get_errno;
         recovery2 \<leftarrow> landin_owned_describe (o_root retired) (o_path retired) [];
         sys_close (o_root retired);
         error \<leftarrow> sys_unlinkat (o_parent retired) (o_name retired) True;
         sys_close (o_parent retired);
         sys_close (o_root owned);
         let finished = owned\<lparr>o_finished := True, o_root := -1\<rparr>;
         if now \<noteq> None \<or> e \<noteq> ENOENT \<or> error \<noteq> 0
         then ret (-1, finished\<lparr>o_reason := msg_owned_removed original recovery2\<rparr>)
         else ret (1, finished)
       }
     }
   }"

definition landin_owned_remove :: "owned \<Rightarrow> ('z world_scheme, int \<times> owned) state" where
  "landin_owned_remove owned = do {
     original \<leftarrow> landin_owned_describe (o_parent owned) (o_parent_path owned) (o_name owned);
     if o_finished owned then do {
       actual \<leftarrow> sys_fstatat (o_parent owned) (o_name owned);
       e \<leftarrow> get_errno;
       if actual = None \<and> e = ENOENT then ret (0, owned)
       else ret (-1, owned\<lparr>o_reason := msg_replacement_preserved original\<rparr>)
     }
     else if o_retained owned then ret (-1, owned)
     else do {
       actual \<leftarrow> sys_fstatat (o_parent owned) (o_name owned);
       if (case actual of None \<Rightarrow> True | Some s \<Rightarrow> \<not> landin_owned_same s (o_identity owned))
       then ret (-1, owned\<lparr>o_reason := msg_name_changed original\<rparr>)
       else do {
         allocated \<leftarrow> landin_owned_allocate (o_parent owned) (o_parent_path owned) ''.refine-cleanup-'';
         case allocated of
           None \<Rightarrow> ret (-1, owned\<lparr>o_reason := msg_no_recovery original\<rparr>)
         | Some retired \<Rightarrow> do {
             recovery \<leftarrow> landin_owned_describe (o_root retired) (o_path retired) ''entry'';
             barrier ''before-capture'' (o_path owned);
             moved \<leftarrow> sys_renameat (o_parent owned) (o_name owned) (o_root retired) ''entry'';
             if moved \<noteq> 0 then do {
               original2 \<leftarrow> landin_owned_describe (o_parent owned) (o_parent_path owned) (o_name owned);
               owned_fail_empty retired;
               ret (-1, owned\<lparr>o_reason := msg_changed_before_capture original2\<rparr>)
             }
             else do {
               barrier ''after-capture'' (o_path owned);
               owned_retire retired (owned\<lparr>o_reason := []\<rparr>)
             }
           }
       }
     }
   }"

end
