(* ===== verification/Reading.thy ===== *)
theory Reading
  imports OwnedDirectory
begin

text \<open>
  The interface between the host and what is kept through its calls. The locale \<open>reading\<close> states
  what an assertion over the host must be closed under so that every call that changes nothing keeps
  it: another process's turn, a test hook, an error number, and descriptors opened and closed. The rules of these
  calls and of the programs that only read are proved here, once, for the invariants of the later
  theories.
\<close>

section \<open>The loop that reads a whole file\<close>

text \<open>
  The reading loop: an invariant of the bytes read so far and the state, closed under failed and
  successful reads, holds of the result.
\<close>

lemma pread_loop_rule_aux:
  assumes "I used w" and "pread_loop overflow fd used cap w = (r, t)"
    and "fd = fd0" and error: "\<And>u v e. I u v \<Longrightarrow> I u (v\<lparr>w_errno := e\<rparr>)"
    and alloc: "\<And>u v b x. I u v \<Longrightarrow> run_state alloc v = (b, x) \<Longrightarrow> I u x"
    and failed: "\<And>u v n x. I u v \<Longrightarrow> run_state (sys_pread fd0 n (length u)) v = (None, x) \<Longrightarrow> I u x"
    and got: "\<And>u v n g x. I u v \<Longrightarrow> run_state (sys_pread fd0 n (length u)) v = (Some g, x) \<Longrightarrow> I (u @ g) x"
  shows "\<exists>u. I u t \<and> (\<forall>bs c. r = Some (bs, c) \<longrightarrow> u = bs)"
  using assms(1,2,3)
proof (induction overflow fd used cap w rule: pread_loop.induct [case_names step])
  case (step overflow fd used cap w)
  define full where "full \<longleftrightarrow> length used = cap"
  define bigger where "bigger = (if full then 2 * cap else cap)"
  obtain room w1 where grow: "run_state (if full then alloc else ret True) w = (room, w1)" by fastforce
  obtain a w2 where read: "run_state (sys_pread fd (bigger - length used) (length used)) w1 = (a, w2)"
    by fastforce
  have run: "pread_loop overflow fd used cap w =
     (if full \<and> SIZE_MAX div 2 < cap then (None, w\<lparr>w_errno := overflow\<rparr>)
      else if \<not> room then (None, w1)
      else (case a of None \<Rightarrow> if w_errno w2 = EINTR then pread_loop overflow fd used bigger w2 else (None, w2)
            | Some g \<Rightarrow> if g = [] then (Some (used, bigger), w2)
                else pread_loop overflow fd (used @ g) bigger w2))"
    using grow read
    by (subst pread_loop.simps)
      (simp add: Let_def bigger_def full_def split: option.split)
  have w1: "I used w1"
    using grow alloc step(3) by (cases full) auto
  show ?case
  proof (cases "full \<and> SIZE_MAX div 2 < cap \<or> \<not> room")
    case True
    with run step(3,4) w1 error show ?thesis by (auto split: if_splits)
  next
    case go: False
    from run go have run2: "(r, t) = (case a of
          None \<Rightarrow> if w_errno w2 = EINTR then pread_loop overflow fd used bigger w2 else (None, w2)
        | Some g \<Rightarrow> if g = [] then (Some (used, bigger), w2)
            else pread_loop overflow fd (used @ g) bigger w2)"
      using step(4) by auto
    show ?thesis
    proof (cases a)
      case None
      have w2: "I used w2"
        by (rule failed [OF w1, of "bigger - length used"]) (simp add: read [unfolded step(5)] None)
      show ?thesis
      proof (cases "w_errno w2 = EINTR")
        case True
        with run2 None have "pread_loop overflow fd used bigger w2 = (r, t)" by simp
        with step(1) [of room w1 bigger a w2] go grow read None True w2 step(5) show ?thesis
          by (simp add: full_def bigger_def)
      next
        case False
        with run2 None w2 show ?thesis by auto
      qed
    next
      case (Some g)
      have w2: "I (used @ g) w2"
        by (rule got [OF w1, of "bigger - length used"]) (simp add: read [unfolded step(5)] Some)
      show ?thesis
      proof (cases "g = []")
        case True
        with run2 Some w2 show ?thesis by auto
      next
        case False
        with run2 Some have "pread_loop overflow fd (used @ g) bigger w2 = (r, t)" by simp
        with step(2) [of room w1 bigger a w2 g] go grow read Some False w2 step(5) show ?thesis
          by (simp add: full_def bigger_def)
      qed
    qed
  qed
qed

lemmas pread_loop_rule = pread_loop_rule_aux [OF _ _ refl]

section \<open>The contract\<close>

locale reading =
  fixes I :: "'z world_scheme \<Rightarrow> bool" and mine :: "int \<Rightarrow> bool"
  assumes turned: "I w \<Longrightarrow> next_turn w = (t, w1) \<Longrightarrow> I w1"
    and failing: "I w \<Longrightarrow> I (w\<lparr>w_errno := e\<rparr>)"
    and opened: "I w \<Longrightarrow> open_fd k ds w = (n, u) \<Longrightarrow> 0 \<le> n \<and> mine n \<and> I u"
    and paused: "I w \<Longrightarrow> run_state (barrier event path) w = (x, v) \<Longrightarrow> I v"
    and closed: "I w \<Longrightarrow> mine fd \<Longrightarrow> I (w\<lparr>w_fds := al_del fd (w_fds w)\<rparr>)"
begin

lemma on_call:
  assumes "I w" and "\<And>t. I t \<Longrightarrow> Q bad t"
    and "\<And>tn t r u. I t \<Longrightarrow> act tn t = Inr (r, u) \<Longrightarrow> Q r u"
  shows "wp (call bad act) Q w"
proof -
  obtain tn w1 where n: "next_turn w = (tn, w1)" by fastforce
  with assms(1) have "I w1" by (rule turned)
  with n assms(2,3) failing show ?thesis
    by (auto simp: wp_def call_def split: option.splits sum.splits)
qed

lemma pure_call:
  assumes "I w" and "\<And>r t. I t \<Longrightarrow> Q r t"
    and "\<And>tn t r u. act tn t = Inr (r, u) \<Longrightarrow> u = t"
  shows "wp (call bad act) Q w"
  using assms by (blast intro: on_call)

lemma on_alloc:
  "I w \<Longrightarrow> (\<And>r t. I t \<Longrightarrow> Q r t) \<Longrightarrow> wp alloc Q w"
  unfolding alloc_def by (rule pure_call) auto

lemma on_fstat:
  "I w \<Longrightarrow> (\<And>r t. I t \<Longrightarrow> Q r t) \<Longrightarrow> wp (sys_fstat fd) Q w"
  unfolding sys_fstat_def by (rule pure_call) (auto split: sum.splits option.splits)

lemma on_fstatat:
  "I w \<Longrightarrow> (\<And>r t. I t \<Longrightarrow> Q r t) \<Longrightarrow> wp (sys_fstatat fd n) Q w"
  unfolding sys_fstatat_def by (rule pure_call) (auto split: sum.splits option.splits)

lemma on_stat_path:
  "I w \<Longrightarrow> (\<And>r t. I t \<Longrightarrow> Q r t) \<Longrightarrow> wp (stat_path b p) Q w"
  unfolding stat_path_def by (rule pure_call) (auto split: sum.splits option.splits)

lemma on_realpath:
  "I w \<Longrightarrow> (\<And>r t. I t \<Longrightarrow> Q r t) \<Longrightarrow> wp (sys_realpath p) Q w"
  unfolding sys_realpath_def by (rule pure_call) (auto split: sum.splits if_splits)

lemma on_readlink:
  "I w \<Longrightarrow> (\<And>r t. I t \<Longrightarrow> Q r t) \<Longrightarrow> wp (sys_readlink p) Q w"
  unfolding sys_readlink_def
  by (rule pure_call) (auto split: sum.splits option.splits node.splits)

lemma on_getcwd:
  "I w \<Longrightarrow> (\<And>r t. I t \<Longrightarrow> Q r t) \<Longrightarrow> wp sys_getcwd Q w"
  unfolding sys_getcwd_def by (rule pure_call) auto

lemma on_fdopendir:
  "I w \<Longrightarrow> (\<And>r t. I t \<Longrightarrow> Q r t) \<Longrightarrow> wp (sys_fdopendir fd) Q w"
  unfolding sys_fdopendir_def by (rule pure_call) (auto split: sum.splits)

lemma on_readdir:
  "I w \<Longrightarrow> (\<And>r t. I t \<Longrightarrow> Q r t) \<Longrightarrow> wp (sys_readdir ns) Q w"
  unfolding sys_readdir_def by (rule pure_call) (auto split: list.splits)

lemma on_opendir:
  "I w \<Longrightarrow> (\<And>r t. I t \<Longrightarrow> Q r t) \<Longrightarrow> wp (sys_opendir p) Q w"
  unfolding sys_opendir_def by (rule pure_call) (auto split: sum.splits option.splits)

lemma on_pread:
  "I w \<Longrightarrow> (\<And>r t. I t \<Longrightarrow> Q r t) \<Longrightarrow> wp (sys_pread fd n off) Q w"
  unfolding sys_pread_def
  by (rule pure_call) (auto split: sum.splits option.splits node.splits)

lemma on_read_device:
  "I w \<Longrightarrow> (\<And>r t. I t \<Longrightarrow> Q r t) \<Longrightarrow> wp (sys_read_device fd n) Q w"
  unfolding sys_read_device_def by (rule pure_call) (auto simp: Let_def split: sum.splits)

lemma on_fd_only:
  "I w \<Longrightarrow> (\<And>r t. I t \<Longrightarrow> Q r t) \<Longrightarrow> wp (sys_fd_only fd) Q w"
  unfolding sys_fd_only_def by (rule pure_call) (auto split: sum.splits)

lemma on_getlk:
  "I w \<Longrightarrow> (\<And>r t. I t \<Longrightarrow> Q r t) \<Longrightarrow> wp (sys_getlk fd) Q w"
  unfolding sys_getlk_def by (rule pure_call) (auto split: sum.splits option.splits)

lemma on_fgetxattr_caps:
  "I w \<Longrightarrow> (\<And>r t. I t \<Longrightarrow> Q r t) \<Longrightarrow> wp (sys_fgetxattr_caps fd) Q w"
  unfolding sys_fgetxattr_caps_def
  by (rule pure_call) (auto split: sum.splits option.splits if_splits)

lemma on_fstatfs:
  "I w \<Longrightarrow> (\<And>r t. I t \<Longrightarrow> Q r t) \<Longrightarrow> wp (sys_fstatfs fd) Q w"
  unfolding sys_fstatfs_def by (rule pure_call) (auto split: sum.splits)

lemma on_fpathconf_case:
  "I w \<Longrightarrow> (\<And>r t. I t \<Longrightarrow> Q r t) \<Longrightarrow> wp (sys_fpathconf_case fd) Q w"
  unfolding sys_fpathconf_case_def by (rule pure_call) (auto split: sum.splits)

lemma on_getflags_casefold:
  "I w \<Longrightarrow> (\<And>r t. I t \<Longrightarrow> Q r t) \<Longrightarrow> wp (sys_getflags_casefold fd) Q w"
  unfolding sys_getflags_casefold_def by (rule pure_call) (auto split: sum.splits option.splits)

lemma on_statfs:
  "I w \<Longrightarrow> (\<And>r t. I t \<Longrightarrow> Q r t) \<Longrightarrow> wp (sys_statfs p) Q w"
  unfolding sys_statfs_def by (rule pure_call) (auto split: sum.splits)

lemma on_pathconf_case:
  "I w \<Longrightarrow> (\<And>r t. I t \<Longrightarrow> Q r t) \<Longrightarrow> wp (sys_pathconf_case p) Q w"
  unfolding sys_pathconf_case_def by (rule pure_call) (auto split: sum.splits)

lemma on_fd_path:
  "I w \<Longrightarrow> (\<And>r t. I t \<Longrightarrow> Q r t) \<Longrightarrow> wp (sys_fd_path fd) Q w"
  unfolding sys_fd_path_def by (rule pure_call) (auto split: sum.splits)

lemma on_set_errno:
  "I w \<Longrightarrow> (\<And>t. I t \<Longrightarrow> Q () t) \<Longrightarrow> wp (set_errno e) Q w"
  by (simp add: set_errno_def failing)

lemma on_get_errno:
  "I w \<Longrightarrow> (\<And>r. Q r w) \<Longrightarrow> wp get_errno Q w"
  by (simp add: get_errno_def)

lemma on_fail_with:
  "I w \<Longrightarrow> (\<And>t. I t \<Longrightarrow> Q (-1) t) \<Longrightarrow> wp (fail_with e) Q w"
  by (simp add: fail_with_def set_errno_def failing)

lemma on_cancellation_requested:
  "I w \<Longrightarrow> (\<And>r. Q r w) \<Longrightarrow> wp cancellation_requested Q w"
  by (simp add: cancellation_requested_def)

lemma on_barrier: "I w \<Longrightarrow> (\<And>t. I t \<Longrightarrow> Q () t) \<Longrightarrow> wp (barrier event path) Q w"
  by (auto simp: wp_def dest: paused split: prod.splits)

lemma on_pread_loop:
  assumes "I w" and "\<And>r t. I t \<Longrightarrow> Q r t"
  shows "wp (State (pread_loop overflow fd used cap)) Q w"
proof (rule wpI)
  fix r t
  assume "run_state (State (pread_loop overflow fd used cap)) w = (r, t)"
  then have run: "pread_loop overflow fd used cap w = (r, t)" by simp
  have "\<exists>u. I t \<and> (\<forall>bs c. r = Some (bs, c) \<longrightarrow> u = bs)"
    by (rule pread_loop_rule [where I = "\<lambda>_. I", OF assms(1) run])
      (auto intro: failing dest: wpD [OF on_alloc [where Q = "\<lambda>_. I"]]
        wpD [OF on_pread [where Q = "\<lambda>_. I"]])
  then show "Q r t" using assms(2) by blast
qed

lemmas calls = on_alloc on_fstat on_fstatat on_stat_path on_realpath on_readlink on_getcwd on_fdopendir on_readdir on_opendir on_pread on_read_device on_fd_only on_getlk on_fgetxattr_caps on_fstatfs on_fpathconf_case on_getflags_casefold on_statfs on_pathconf_case on_fd_path on_set_errno on_get_errno on_fail_with on_cancellation_requested on_barrier on_pread_loop

text \<open>Descriptors the program opened itself.\<close>

lemma on_open_obj: "I t \<Longrightarrow> open_obj ob fl t = Inr (n, u) \<Longrightarrow> 0 \<le> n \<and> mine n \<and> I u"
  by (auto simp: open_obj_def dest: opened split: option.splits node.splits if_splits)

lemma on_open:
  assumes "I w" and "\<And>t. I t \<Longrightarrow> Q (-1) t" and "\<And>n t. 0 \<le> n \<Longrightarrow> mine n \<Longrightarrow> I t \<Longrightarrow> Q n t"
  shows "wp (sys_open p fl) Q w"
  unfolding sys_open_def using assms(1,2)
proof (rule on_call)
  fix tn t r u
  assume t: "I t" and "(case resolve t (O_NOFOLLOW \<notin> set fl) p of Inl e \<Rightarrow> Inl e
     | Inr st \<Rightarrow> open_obj (top_obj (w_root t) st) fl t) = Inr (r, u)"
  then obtain ob where "open_obj ob fl t = Inr (r, u)" by (auto split: sum.splits)
  from on_open_obj [OF t this] show "Q r u" using assms(3) by blast
qed

lemma on_openat:
  assumes "I w" and "O_CREAT \<notin> set fl" and "\<And>t. I t \<Longrightarrow> Q (-1) t"
    and "\<And>n t. 0 \<le> n \<Longrightarrow> mine n \<Longrightarrow> I t \<Longrightarrow> Q n t"
  shows "wp (sys_openat fd nm fl p) Q w"
  unfolding sys_openat_def using assms(1,3)
proof (rule on_call)
  fix tn t r u
  assume t: "I t" and "(case fd_dir t fd of Inl e \<Rightarrow> Inl e
     | Inr (d, es) \<Rightarrow> (case map_of es nm of
         Some ob \<Rightarrow> if O_CREAT \<in> set fl \<and> O_EXCL \<in> set fl then Inl EEXIST else open_obj ob fl t
       | None \<Rightarrow> if O_CREAT \<notin> set fl \<or> \<not> dir_live (w_fs t) d then Inl ENOENT
           else (let ob = fresh_oid (w_fs t) (fst d);
                     i = new_inode (Reg []) p (w_uid t) (w_gid t);
                     w1 = log (Made d nm ob) (t\<lparr>w_fs := (ob, i) # add_entry d nm ob (w_fs t)\<rparr>)
                 in Inr (open_fd 0 (flag_desc ob fl) w1)))) = Inr (r, u)"
  with assms(2) obtain ob where "open_obj ob fl t = Inr (r, u)"
    by (auto split: sum.splits option.splits)
  from on_open_obj [OF t this] show "Q r u" using assms(4) by blast
qed

lemma on_close:
  assumes "I w" and "mine fd" and "\<And>r t. I t \<Longrightarrow> Q r t"
  shows "wp (sys_close fd) Q w"
proof -
  obtain tn w1 where n: "next_turn w = (tn, w1)" by fastforce
  with assms(1) have "I w1" by (rule turned)
  with n assms(2,3) failing closed show ?thesis
    by (auto simp: wp_def sys_close_def Let_def split: option.splits)
qed

end

end
