(* ===== verification/FileIdentity.thy ===== *)
theory FileIdentity
  imports OwnedDirectory
begin

text \<open>
  Model of the identity half of \<^verbatim>\<open>compiler/ada/src/platform/landin_file_identity.c\<close>: whether two
  paths name one object. The answers are 1 for an alias, 0 for proven distinct, and -1 when
  the host cannot establish identity; callers treat -1 as an overlap.
\<close>

section \<open>Observations\<close>

definition landin_directory_access_denied :: "cstring \<Rightarrow> ('z world_scheme, bool) state" where
  "landin_directory_access_denied path = do {
     directory \<leftarrow> sys_opendir path;
     if directory then ret False
     else do { e \<leftarrow> get_errno; ret (e = EACCES \<or> e = EPERM) }
   }"

text \<open>The parent of a path as the code spells it.\<close>

definition parent_spelling :: "cstring \<Rightarrow> cstring" where
  "parent_spelling p = (case split_last_slash p of None \<Rightarrow> ''.''
     | Some (a, _) \<Rightarrow> if a = [] then ''/'' else a)"

lemma parent_spelling_shorter:
  "p \<noteq> ''.'' \<Longrightarrow> p \<noteq> ''/'' \<Longrightarrow> parent_spelling p \<noteq> ''.'' \<Longrightarrow> parent_spelling p \<noteq> ''/'' \<Longrightarrow>
   length (parent_spelling p) < length p"
  by (auto simp: parent_spelling_def split: option.splits if_splits dest!: split_last_slash_Some)

text \<open>The climb to the nearest existing ancestor; \<open>immediate\<close> says it is still the parent.\<close>

function observe_parent :: "bool \<Rightarrow> cstring \<Rightarrow> ('z world_scheme, int \<times> bool) state" where
  "observe_parent immediate parent = do {
     object \<leftarrow> sys_stat parent;
     case object of
       Some s \<Rightarrow> if \<not> S_ISDIR s then do { set_errno ENOTDIR; ret (-1, False) } else ret (0, immediate)
     | None \<Rightarrow> do {
         e \<leftarrow> get_errno;
         if e \<noteq> ENOENT then ret (-1, False)
         else do {
           leaf \<leftarrow> sys_lstat parent;
           e \<leftarrow> get_errno;
           if leaf \<noteq> None \<or> e \<noteq> ENOENT then ret (-1, False)
           else if parent = ''.'' \<or> parent = ''/'' then ret (-1, False)
           else observe_parent False (parent_spelling parent)
         }
       }
   }"
  by pat_completeness auto
termination
  by (relation "measure (\<lambda>(i, p). if p = ''.'' \<or> p = ''/'' then 0 else Suc (length p))")
    (auto intro: parent_spelling_shorter)

declare observe_parent.simps [simp del]

definition landin_observe_identity :: "cstring
    \<Rightarrow> ('z world_scheme, int \<times> oid option \<times> bool) state" where
  "landin_observe_identity path = do {
     object \<leftarrow> sys_stat path;
     case object of
       Some s \<Rightarrow> ret (1, Some (st_id s), False)
     | None \<Rightarrow> do {
         e \<leftarrow> get_errno;
         if e \<noteq> ENOENT then ret (-1, None, False)
         else do {
           leaf \<leftarrow> sys_lstat path;
           e \<leftarrow> get_errno;
           if leaf \<noteq> None \<or> e \<noteq> ENOENT then ret (-1, None, False)
           else if PATH_MAX \<le> length path then do { set_errno ENAMETOOLONG; ret (-1, None, False) }
           else do {
             (r, resolved) \<leftarrow> observe_parent True (parent_spelling path);
             ret (r, None, resolved)
           }
         }
       }
   }"

definition landin_file_identity :: "cstring \<Rightarrow> ('z world_scheme, int \<times> oid option) state" where
  "landin_file_identity path = do {
     object \<leftarrow> sys_stat path;
     ret (case object of None \<Rightarrow> (0, None) | Some s \<Rightarrow> (1, Some (st_id s)))
   }"

definition landin_same_existing_file :: "cstring \<Rightarrow> cstring \<Rightarrow> ('z world_scheme, int) state" where
  "landin_same_existing_file left right = do {
     a \<leftarrow> sys_stat left;
     case a of None \<Rightarrow> ret (-1)
     | Some sa \<Rightarrow> do {
         b \<leftarrow> sys_stat right;
         case b of None \<Rightarrow> ret (-1)
         | Some sb \<Rightarrow> ret (if same_stat sa sb then 1 else 0)
       }
   }"

definition landin_existing_file_key :: "cstring \<Rightarrow> nat \<Rightarrow> ('z world_scheme, cstring option) state" where
  "landin_existing_file_key path room = do {
     found \<leftarrow> sys_stat path;
     case found of None \<Rightarrow> ret None
     | Some s \<Rightarrow> (let key = hex (st_dev s) @ '':'' @ hex (st_ino s)
                 in ret (if length key < room then Some key else None))
   }"

section \<open>Directory locks and no-replace moves\<close>

definition landin_lock_output_directory :: "cstring \<Rightarrow> ('z world_scheme, int) state" where
  "landin_lock_output_directory path =
     (if path = [] \<or> PATH_MAX \<le> length path then ret (-1)
      else do {
        resolved \<leftarrow> sys_realpath (parent_spelling path);
        case resolved of None \<Rightarrow> ret (-1)
        | Some r \<Rightarrow> do {
            fd \<leftarrow> sys_open r [O_RDONLY, O_DIRECTORY, O_CLOEXEC];
            if fd < 0 then ret (-1)
            else do {
              locked \<leftarrow> sys_flock fd;
              if locked \<noteq> 0 then do { sys_close fd; ret (-1) } else ret fd
            }
          }
      })"

definition landin_unlock_output_directory :: "int \<Rightarrow> ('z world_scheme, unit) state" where
  "landin_unlock_output_directory fd =
     (if 0 \<le> fd then do { sys_close fd; ret () } else ret ())"

text \<open>1 on success, 0 for a missing source, -1 otherwise.\<close>

definition landin_move_file_noreplace :: "cstring \<Rightarrow> cstring \<Rightarrow> ('z world_scheme, int) state" where
  "landin_move_file_noreplace from to = do {
     source \<leftarrow> sys_lstat from;
     case source of
       None \<Rightarrow> do { e \<leftarrow> get_errno; ret (if e = ENOENT then 0 else -1) }
     | Some s \<Rightarrow>
         if S_ISDIR s then ret (-1)
         else do {
           linked \<leftarrow> sys_link from to;
           if linked \<noteq> 0 then ret (-1)
           else do {
             gone \<leftarrow> sys_unlink from;
             if gone \<noteq> 0 then do { sys_unlink to; ret (-1) } else ret 1
           }
         }
   }"

section \<open>Name equivalence\<close>

definition is_ascii :: "char \<Rightarrow> bool" where
  "is_ascii c \<longleftrightarrow> (of_char c :: nat) < 128"

definition ascii_lower :: "char \<Rightarrow> char" where
  "ascii_lower c = (let n = of_char c :: nat in if 65 \<le> n \<and> n \<le> 90 then char_of (n + 32) else c)"

text \<open>The comparing loop and the test after it: whether one folded name runs along the other to
  the end of both.\<close>

fun folded_equal :: "cstring \<Rightarrow> cstring \<Rightarrow> bool" where
  "folded_equal (l # ls) (r # rs) = (if ascii_lower l \<noteq> ascii_lower r then False else folded_equal ls rs)"
| "folded_equal ls rs = (ls = rs)"

definition doubtful_name :: "cstring \<Rightarrow> bool" where
  "doubtful_name n \<longleftrightarrow> n = [] \<or> last n = CHR ''.'' \<or> last n = CHR '' ''
     \<or> CHR ''~'' \<in> set n \<or> CHR '':'' \<in> set n"

definition landin_names_alias :: "cstring \<Rightarrow> cstring \<Rightarrow> int \<Rightarrow> int" where
  "landin_names_alias left right rules =
     (if left = right then 1
      else if rules = 1 then 0
      else if (\<exists>c \<in> set left. \<not> is_ascii c) then -1
      else if (\<exists>c \<in> set right. \<not> is_ascii c) then -1
      else if rules = 2 then 0
      else if rules < 0 \<and> (doubtful_name left \<or> doubtful_name right) then -1
      else if \<not> folded_equal left right then 0
      else if rules < 0 then -1 else 1)"

text \<open>1: byte-sensitive; 2: ASCII-sensitive; 0: case-insensitive; -1: unknown.\<close>

definition apple_name_rules :: "fstype \<Rightarrow> int \<Rightarrow> int" where
  "apple_name_rules fs sensitive =
     (if fs \<noteq> APFS \<and> fs \<noteq> HFS then -1
      else if sensitive < 0 then -1 else if sensitive \<noteq> 0 then 2 else 0)"

definition name_rules_fd :: "int \<Rightarrow> ('z world_scheme, int) state" where
  "name_rules_fd fd = do {
     h \<leftarrow> gets w_host;
     case h of
       Darwin \<Rightarrow> do {
         fs \<leftarrow> sys_fstatfs fd;
         case fs of None \<Rightarrow> ret (-1)
         | Some t \<Rightarrow> do { sensitive \<leftarrow> sys_fpathconf_case fd; ret (apple_name_rules t sensitive) }
       }
     | Linux \<Rightarrow> do {
         fs \<leftarrow> sys_fstatfs fd;
         case fs of None \<Rightarrow> ret (-1)
         | Some t \<Rightarrow>
             if t = EXT4 \<or> t = F2FS then do {
               flags \<leftarrow> sys_getflags_casefold fd;
               ret (case flags of None \<Rightarrow> -1 | Some casefold \<Rightarrow> if casefold then 0 else 1)
             }
             else if t = TMPFS \<or> t = RAMFS \<or> t = BTRFS \<or> t = OVERLAYFS then ret 1
             else ret (-1)
       }
     | FreeBSD \<Rightarrow> ret (-1)
   }"

definition name_rules :: "cstring \<Rightarrow> ('z world_scheme, int) state" where
  "name_rules directory = do {
     h \<leftarrow> gets w_host;
     case h of
       Darwin \<Rightarrow> do {
         fs \<leftarrow> sys_statfs directory;
         case fs of None \<Rightarrow> ret (-1)
         | Some t \<Rightarrow> do { sensitive \<leftarrow> sys_pathconf_case directory; ret (apple_name_rules t sensitive) }
       }
     | Linux \<Rightarrow> do {
         fd \<leftarrow> sys_open directory [O_RDONLY, O_DIRECTORY, O_CLOEXEC];
         if fd < 0 then ret (-1)
         else do { result \<leftarrow> name_rules_fd fd; sys_close fd; ret result }
       }
     | FreeBSD \<Rightarrow> ret (-1)
   }"

definition plain_name :: "cstring option \<Rightarrow> bool" where
  "plain_name n \<longleftrightarrow> (case n of None \<Rightarrow> False
     | Some s \<Rightarrow> s \<noteq> [] \<and> CHR ''/'' \<notin> set s \<and> s \<noteq> ''.'' \<and> s \<noteq> ''..'')"

definition landin_entry_names_alias :: "int \<Rightarrow> cstring option \<Rightarrow> cstring option
    \<Rightarrow> ('z world_scheme, int) state" where
  "landin_entry_names_alias directory left right =
     (if \<not> plain_name left \<or> \<not> plain_name right then ret (-1)
      else do {
        parent \<leftarrow> sys_fstat directory;
        if (case parent of None \<Rightarrow> True | Some s \<Rightarrow> \<not> S_ISDIR s) then ret (-1)
        else do {
          rules \<leftarrow> name_rules_fd directory;
          ret (landin_names_alias (the left) (the right) rules)
        }
      })"

section \<open>Destinations\<close>

record destination_info =
  de_object :: stat
  de_parent :: stat
  de_exists :: bool
  de_directory :: cstring
  de_name :: cstring

text \<open>
  Resolution of a destination that need not exist: its real parent and last name, following at
  most 41 dangling links. \<open>None\<close> is the code's -1: indeterminate, not distinct.
\<close>

definition last_component :: "cstring \<Rightarrow> cstring" where
  "last_component path = (case split_last_slash path of None \<Rightarrow> path | Some (_, b) \<Rightarrow> b)"

function destination :: "cstring \<Rightarrow> nat \<Rightarrow> ('z world_scheme, destination_info option) state" where
  "destination path links =
     (if path = [] \<or> PATH_MAX \<le> length path \<or> 40 < links then ret None
      else do {
        object \<leftarrow> sys_stat path;
        case object of
          Some s \<Rightarrow> ret (Some \<lparr>de_object = s, de_parent = zero_stat, de_exists = True,
                              de_directory = [], de_name = []\<rparr>)
        | None \<Rightarrow> do {
            e \<leftarrow> get_errno;
            if e \<noteq> ENOENT then ret None
            else do {
              barrier ''destination-absent'' path;
              if last_component path = [] then ret None
              else do {
                directory \<leftarrow> sys_realpath (parent_spelling path);
                case directory of None \<Rightarrow> ret None
                | Some d \<Rightarrow> do {
                    parent \<leftarrow> sys_stat d;
                    case parent of None \<Rightarrow> ret None
                    | Some ps \<Rightarrow>
                        if \<not> S_ISDIR ps then ret None
                        else do {
                          leaf \<leftarrow> sys_lstat path;
                          case leaf of
                            None \<Rightarrow> do {
                              e \<leftarrow> get_errno;
                              ret (if e = ENOENT then Some \<lparr>de_object = zero_stat, de_parent = ps,
                                     de_exists = False, de_directory = d,
                                     de_name = last_component path\<rparr> else None)
                            }
                          | Some ls \<Rightarrow>
                              if \<not> S_ISLNK ls then ret None
                              else do {
                                target \<leftarrow> sys_readlink path;
                                case target of None \<Rightarrow> ret None
                                | Some t \<Rightarrow>
                                    if PATH_MAX - 1 \<le> length t then ret None
                                    else if is_absolute t then destination t (Suc links)
                                    else if PATH_MAX \<le> length d + 1 + length t then ret None
                                    else destination (d @ ''/'' @ t) (Suc links)
                              }
                        }
                  }
              }
            }
          }
      })"
  by pat_completeness auto
termination
  by (relation "measure (\<lambda>(p, links). 41 - links)") auto

declare destination.simps [simp del]

definition same_name :: "destination_info \<Rightarrow> destination_info \<Rightarrow> ('z world_scheme, int) state" where
  "same_name a b =
     (if de_name a = de_name b then ret 1
      else do {
        rules \<leftarrow> name_rules (de_directory a);
        ret (landin_names_alias (de_name a) (de_name b) rules)
      })"

definition destinations_overlap :: "destination_info \<Rightarrow> destination_info \<Rightarrow> ('z world_scheme, int) state" where
  "destinations_overlap a b =
     (if de_exists a \<and> de_exists b
      then ret (if same_stat (de_object a) (de_object b) then 1 else 0)
      else if de_exists a \<noteq> de_exists b then ret 0
      else if \<not> same_stat (de_parent a) (de_parent b) then ret 0
      else same_name a b)"

definition landin_same_file :: "cstring \<Rightarrow> cstring \<Rightarrow> ('z world_scheme, int) state" where
  "landin_same_file left right = do {
     a \<leftarrow> destination left 0;
     case a of None \<Rightarrow> ret (-1)
     | Some da \<Rightarrow> do {
         b \<leftarrow> destination right 0;
         case b of None \<Rightarrow> ret (-1)
         | Some db \<Rightarrow> destinations_overlap da db
       }
   }"

fun overlaps_loop :: "destination_info \<Rightarrow> cstring list \<Rightarrow> ('z world_scheme, bool) state" where
  "overlaps_loop a [] = ret False"
| "overlaps_loop a (r # rs) = do {
     b \<leftarrow> destination r 0;
     case b of None \<Rightarrow> ret True
     | Some db \<Rightarrow> do {
         o_result \<leftarrow> destinations_overlap a db;
         if o_result \<noteq> 0 then ret True else overlaps_loop a rs
       }
   }"

definition landin_overlaps_any :: "cstring \<Rightarrow> cstring list \<Rightarrow> ('z world_scheme, bool) state" where
  "landin_overlaps_any left rights =
     (if rights = [] then ret False
      else do {
        a \<leftarrow> destination left 0;
        case a of None \<Rightarrow> ret True
        | Some da \<Rightarrow> overlaps_loop da rights
      })"

end
