(* ===== verification/PrivateRegistry.thy ===== *)
theory PrivateRegistry
  imports FileIdentity
begin

text \<open>
  Model of the private-root registry of
  \<^verbatim>\<open>compiler/ada/src/platform/landin_file_identity.c\<close>: scratch roots made through the
  private-directory interface, found again by the spelling of a path below them and reached
  through their pinned descriptors only. The registry is a list, newest root first. The public
  functions of the file take the registry's mutex around the \<^verbatim>\<open>_locked\<close> functions modelled here.

  Results: -2 says the path is not in a private name space, -1 that it is and the request is
  refused, so that no caller falls back to the public path.
\<close>

record private_world = world +
  r_roots :: "owned list"
  r_reason :: cstring

definition private_marker :: cstring where
  "private_marker = ''.refine-private-''"

lemma private_marker_nonempty: "private_marker \<noteq> []"
  by (simp add: private_marker_def)

text \<open>A component that goes on after the marker is reserved.\<close>

function landin_reserved_private :: "cstring \<Rightarrow> bool" where
  "landin_reserved_private path = (case strstr path private_marker of
     None \<Rightarrow> False
   | Some (_, at) \<Rightarrow> (let rest = drop (length private_marker) at in
       if rest \<noteq> [] \<and> hd rest \<noteq> CHR ''/'' then True else landin_reserved_private rest))"
  by pat_completeness auto
termination
  by (relation "measure length") (auto intro: strstr_shorter simp: private_marker_nonempty)

declare landin_reserved_private.simps [simp del]

definition private_directory_put :: "owned \<Rightarrow> ('z private_world_scheme, unit) state" where
  "private_directory_put ow = modify (\<lambda>w. w\<lparr>r_roots := ow # r_roots w\<rparr>)"

definition landin_private_directory_locked :: "cstring \<Rightarrow> nat
    \<Rightarrow> ('z private_world_scheme, cstring option) state" where
  "landin_private_directory_locked prefix capacity = do {
     room \<leftarrow> alloc;
     modify (\<lambda>w. w\<lparr>r_reason := []\<rparr>);
     if \<not> room then ret None
     else if NAME_MAX + 1 \<le> length prefix + length private_marker
     then do { set_errno ENAMETOOLONG; ret None }
     else do {
       made \<leftarrow> landin_owned_create (prefix @ private_marker);
       case made of
         None \<Rightarrow> ret None
       | Some ow \<Rightarrow>
           if capacity \<le> length (o_path ow) then do {
             (removed, ow2) \<leftarrow> landin_owned_remove ow;
             (if 0 \<le> removed then do { sys_close (o_parent ow2); ret () }
              else do {
                modify (\<lambda>w. w\<lparr>r_reason := o_reason ow2\<rparr>);
                private_directory_put ow2
              });
             set_errno ENAMETOOLONG;
             ret None
           }
           else do {
             private_directory_put ow;
             barrier ''created'' (o_path ow);
             ret (Some (o_path ow))
           }
     }
   }"

section \<open>Finding the root of a path\<close>

text \<open>The text after a spelled prefix, when the prefix ends at a component boundary.\<close>

definition below_path :: "cstring \<Rightarrow> cstring \<Rightarrow> cstring option" where
  "below_path root path =
     (if starts_with root path
      then (case drop (length root) path of
          [] \<Rightarrow> Some []
        | c # rest \<Rightarrow> if c = CHR ''/'' then Some rest else None)
      else None)"

fun private_match_in :: "owned list \<Rightarrow> cstring \<Rightarrow> (owned \<times> cstring) option" where
  "private_match_in [] path = None"
| "private_match_in (r # rs) path = (case below_path (o_path r) path of
     Some relative \<Rightarrow> Some (r, relative) | None \<Rightarrow> private_match_in rs path)"

definition landin_private_match :: "cstring \<Rightarrow> ('z private_world_scheme, (owned \<times> cstring) option) state" where
  "landin_private_match path = gets (\<lambda>w. private_match_in (r_roots w) path)"

text \<open>The walk to the parent of the last component; it keeps one descriptor open.\<close>

definition is_dots :: "cstring \<Rightarrow> bool" where
  "is_dots part \<longleftrightarrow> part = ''.'' \<or> part = ''..''"

fun private_descend :: "int \<Rightarrow> cstring list \<Rightarrow> ('z world_scheme, (int \<times> cstring) option) state" where
  "private_descend fd [] = do { sys_close fd; set_errno EINVAL; ret None }"
| "private_descend fd (part # rest) =
     (if is_dots part then do { sys_close fd; set_errno EINVAL; ret None }
      else if rest = [] then ret (Some (fd, part))
      else do {
        inner \<leftarrow> sys_openat fd part [O_RDONLY, O_DIRECTORY, O_NOFOLLOW, O_CLOEXEC] 0;
        sys_close fd;
        if inner < 0 then ret None else private_descend inner rest
      })"

text \<open>The result: -2, -1 or the parent's descriptor; the parent's spelling; the last name.\<close>

definition landin_private_parent_locked :: "cstring
    \<Rightarrow> ('z private_world_scheme, int \<times> cstring \<times> cstring) state" where
  "landin_private_parent_locked path = do {
     match \<leftarrow> landin_private_match path;
     case match of
       None \<Rightarrow> if landin_reserved_private path
         then do { set_errno ESTALE; ret (-1, [], []) } else ret (-2, [], [])
     | Some (root, relative) \<Rightarrow>
         if o_finished root \<or> o_retained root \<or> relative = []
         then do { set_errno ESTALE; ret (-1, [], []) }
         else do {
           fd \<leftarrow> sys_dup (o_root root) 3;
           copy \<leftarrow> alloc;
           if fd < 0 \<or> \<not> copy
           then do { (if 0 \<le> fd then do { sys_close fd; ret () } else ret ()); ret (-1, [], []) }
           else do {
             found \<leftarrow> private_descend fd (tokens relative);
             case found of
               None \<Rightarrow> ret (-1, [], [])
             | Some (parent, name) \<Rightarrow> do {
                 room1 \<leftarrow> alloc;
                 room2 \<leftarrow> alloc;
                 if \<not> room1 \<or> \<not> room2 then do { sys_close parent; ret (-1, [], []) }
                 else ret (parent, (case split_last_slash path of None \<Rightarrow> path | Some (a, _) \<Rightarrow> a), name)
               }
           }
         }
   }"

section \<open>Operations below a private root\<close>

definition landin_private_open_locked :: "cstring \<Rightarrow> oflag list \<Rightarrow> nat
    \<Rightarrow> ('z private_world_scheme, int) state" where
  "landin_private_open_locked path flags mode = do {
     (parent, _, name) \<leftarrow> landin_private_parent_locked path;
     if parent < 0 then ret parent
     else do {
       result \<leftarrow> sys_openat parent name (flags @ [O_CLOEXEC, O_NOFOLLOW]) mode;
       e \<leftarrow> get_errno;
       sys_close parent;
       set_errno e;
       ret result
     }
   }"

definition landin_private_read_descriptor_locked :: "cstring \<Rightarrow> ('z private_world_scheme, int) state" where
  "landin_private_read_descriptor_locked path =
     landin_private_open_locked path [O_RDONLY, O_NONBLOCK] 0"

definition landin_private_path_current_locked :: "cstring \<Rightarrow> ('z private_world_scheme, bool) state" where
  "landin_private_path_current_locked path = do {
     match \<leftarrow> landin_private_match path;
     case match of
       None \<Rightarrow> ret (\<not> landin_reserved_private path)
     | Some (root, _) \<Rightarrow>
         if o_finished root \<or> o_retained root then ret False
         else do {
           current \<leftarrow> sys_stat (o_path root);
           ret (case current of None \<Rightarrow> False | Some s \<Rightarrow> landin_owned_same s (o_identity root))
         }
   }"

definition landin_private_mkdir_locked :: "cstring \<Rightarrow> ('z private_world_scheme, int) state" where
  "landin_private_mkdir_locked path = do {
     match \<leftarrow> landin_private_match path;
     case match of
       None \<Rightarrow> if landin_reserved_private path then fail_with ESTALE else ret (-2)
     | Some (root, relative) \<Rightarrow>
         if relative = [] \<and> \<not> o_finished root \<and> \<not> o_retained root then ret 0
         else do {
           (parent, _, name) \<leftarrow> landin_private_parent_locked path;
           if parent < 0 then ret (-1)
           else do {
             made \<leftarrow> sys_mkdirat parent name 448;
             e \<leftarrow> get_errno;
             result \<leftarrow> (if made \<noteq> 0 \<and> e = EEXIST then do {
                 fd \<leftarrow> sys_openat parent name [O_RDONLY, O_DIRECTORY, O_NOFOLLOW, O_CLOEXEC] 0;
                 if 0 \<le> fd then do { sys_close fd; ret 0 } else ret made
               } else ret made);
             e2 \<leftarrow> get_errno;
             sys_close parent;
             set_errno e2;
             ret result
           }
         }
   }"

text \<open>Write everything at the start, cut the file there, sync, close.\<close>

definition write_truncate_sync :: "int \<Rightarrow> bytes \<Rightarrow> ('z world_scheme, int) state" where
  "write_truncate_sync fd bs = do {
     st \<leftarrow> sys_fstat fd;
     if (case st of None \<Rightarrow> True | Some s \<Rightarrow> \<not> S_ISREG s)
     then do { sys_close fd; fail_with EINVAL }
     else do {
       wrote \<leftarrow> State (write_fully True fd bs);
       if \<not> wrote then do { sys_close fd; ret (-1) }
       else do {
         cut \<leftarrow> sys_ftruncate fd (length bs);
         result \<leftarrow> (if cut = 0 then sys_fsync fd else ret cut);
         sys_close fd;
         ret result
       }
     }
   }"

definition landin_private_write_locked :: "cstring \<Rightarrow> bytes \<Rightarrow> ('z private_world_scheme, int) state" where
  "landin_private_write_locked path bs = do {
     fd \<leftarrow> landin_private_open_locked path [O_WRONLY, O_CREAT] 384;
     if fd < 0 then ret fd else write_truncate_sync fd bs
   }"

text \<open>A tool argument: the first root spelled in it at a boundary, as a new descriptor; -1 for
  none, -2 for a refusal.\<close>

definition spelled_in :: "cstring \<Rightarrow> cstring \<Rightarrow> (cstring \<times> cstring) option" where
  "spelled_in root argument = (case strstr argument root of
     None \<Rightarrow> None
   | Some (before, at) \<Rightarrow> (let rest = drop (length root) at in
       if rest = [] \<or> hd rest = CHR ''/'' \<or> hd rest = CHR ''='' then Some (before, rest) else None))"

fun spelled_root :: "owned list \<Rightarrow> cstring \<Rightarrow> (owned \<times> cstring \<times> cstring) option" where
  "spelled_root [] argument = None"
| "spelled_root (r # rs) argument = (case spelled_in (o_path r) argument of
     Some (before, rest) \<Rightarrow> Some (r, before, rest) | None \<Rightarrow> spelled_root rs argument)"

definition landin_private_argument_directory_locked :: "cstring \<Rightarrow> ('z private_world_scheme, int) state" where
  "landin_private_argument_directory_locked argument = do {
     found \<leftarrow> gets (\<lambda>w. spelled_root (r_roots w) argument);
     case found of
       Some (root, _, _) \<Rightarrow>
         if o_finished root \<or> o_retained root then do { set_errno ESTALE; ret (-2) }
         else do { fd \<leftarrow> sys_dup (o_root root) 3; ret (if fd < 0 then -2 else fd) }
     | None \<Rightarrow> if landin_reserved_private argument then do { set_errno ESTALE; ret (-2) } else ret (-1)
   }"

definition landin_private_rebase_argument_locked :: "cstring \<Rightarrow> int \<Rightarrow> nat
    \<Rightarrow> ('z private_world_scheme, cstring option) state" where
  "landin_private_rebase_argument_locked argument directory room = do {
     selected \<leftarrow> sys_fstat directory;
     case selected of
       None \<Rightarrow> ret None
     | Some s \<Rightarrow> do {
         found \<leftarrow> gets (\<lambda>w. spelled_root (r_roots w) argument);
         case found of
           Some (root, before, rest) \<Rightarrow>
             if \<not> landin_owned_same s (o_identity root) \<or> o_finished root \<or> o_retained root
             then do { set_errno EXDEV; ret None }
             else if room < length before + 1 + length rest + 1
             then do { set_errno ENAMETOOLONG; ret None }
             else (let result = before @ ''.'' @ rest in
               if landin_reserved_private result then do { set_errno ESTALE; ret None }
               else ret (Some result))
         | None \<Rightarrow>
             if landin_reserved_private argument then do { set_errno ESTALE; ret None }
             else if room \<le> length argument then do { set_errno ENAMETOOLONG; ret None }
             else ret (Some argument)
       }
   }"

section \<open>Removal\<close>

text \<open>The root of exactly this path is removed and unlinked from the list; a refusal keeps it.\<close>

fun replace_root :: "cstring \<Rightarrow> owned \<Rightarrow> owned list \<Rightarrow> owned list" where
  "replace_root path ow [] = []"
| "replace_root path ow (r # rs) = (if o_path r = path then ow # rs else r # replace_root path ow rs)"

fun drop_root :: "cstring \<Rightarrow> owned list \<Rightarrow> owned list" where
  "drop_root path [] = []"
| "drop_root path (r # rs) = (if o_path r = path then rs else r # drop_root path rs)"

definition msg_unregistered :: "cstring \<Rightarrow> cstring" where
  "msg_unregistered path = ''unregistered private-directory entry preserved at '' @ path
     @ ''; inspect it before cleanup''"

definition landin_remove_tree_locked :: "cstring \<Rightarrow> ('z private_world_scheme, int) state" where
  "landin_remove_tree_locked path = do {
     modify (\<lambda>w. w\<lparr>r_reason := []\<rparr>);
     found \<leftarrow> gets (\<lambda>w. find (\<lambda>r. o_path r = path) (r_roots w));
     case found of
       Some ow \<Rightarrow> do {
         (result, ow2) \<leftarrow> landin_owned_remove ow;
         (if result < 0
          then modify (\<lambda>w. w\<lparr>r_reason := o_reason ow2, r_roots := replace_root path ow2 (r_roots w)\<rparr>)
          else do {
            modify (\<lambda>w. w\<lparr>r_roots := drop_root path (r_roots w)\<rparr>);
            sys_close (o_parent ow2);
            ret ()
          });
         ret result
       }
     | None \<Rightarrow>
         if landin_reserved_private path then do {
           st \<leftarrow> sys_lstat path;
           e \<leftarrow> get_errno;
           if st = None \<and> e = ENOENT then ret 0
           else do {
             modify (\<lambda>w. w\<lparr>r_reason := msg_unregistered path\<rparr>);
             fail_with ESTALE
           }
         }
         else do {
           fd \<leftarrow> sys_open path [O_RDONLY, O_DIRECTORY, O_NOFOLLOW, O_CLOEXEC];
           if fd < 0 then do { e \<leftarrow> get_errno; ret (if e = ENOENT then 0 else -1) }
           else do {
             limit \<leftarrow> gets w_nofile;
             emptied \<leftarrow> landin_owned_empty limit fd;
             if emptied \<noteq> 0 then ret (-1)
             else do { r \<leftarrow> sys_rmdir path; ret (if r = 0 then 1 else -1) }
           }
         }
   }"

definition landin_unlink_file :: "cstring \<Rightarrow> ('z private_world_scheme, int) state" where
  "landin_unlink_file path = do {
     (parent, _, name) \<leftarrow> landin_private_parent_locked path;
     if parent \<noteq> -2 then
       (if parent < 0 then ret (-1)
        else do {
          result \<leftarrow> sys_unlinkat parent name False;
          e \<leftarrow> get_errno;
          sys_close parent;
          set_errno e;
          ret (if result = 0 then 1 else if e = ENOENT then 0 else -1)
        })
     else do {
       result \<leftarrow> sys_unlink path;
       e \<leftarrow> get_errno;
       ret (if result = 0 then 1 else if e = ENOENT then 0 else -1)
     }
   }"

end
