(* ===== verification/PublicationStage.thy ===== *)
theory PublicationStage
  imports PrivateRegistry
begin

text \<open>
  Model of the first part of \<^verbatim>\<open>compiler/ada/src/platform/landin_publication.c\<close>: the registry of
  the publication layer, bounded reads, snapshots of file trees and their comparison and
  removal, and the staged name space of the live arenas.

  An arena is a private workspace beside one output parent: its stage directory takes the new
  files of every transaction on that parent, its recovery directory the displaced ones. A
  publication is one output of a transaction. The C registry links heap records; here they are
  lists, newest first, and a pointer is the record's key: a token for a publication, a number
  for an arena or a root anchor.
\<close>

section \<open>The registry\<close>

text \<open>\<open>struct tree_entry\<close>: the children newest first, as the code links them.\<close>

datatype tree_entry =
  Entry (e_name: cstring) (e_identity: stat) (e_fd: int) (e_bytes: bytes)
    (e_children: "tree_entry list")

record anchor =
  an_id :: nat
  an_path :: cstring
  an_fd :: int
  an_identity :: stat
  an_refs :: nat

record arena =
  ar_id :: nat
  ar_parent :: int
  ar_private_fd :: int
  ar_recovery_fd :: int
  ar_root_fd :: int
  ar_producer_fd :: int
  ar_parent_id :: stat
  ar_path :: cstring
  ar_name :: cstring
  ar_recovery_path :: cstring
  ar_refs :: nat
  ar_retained :: bool

record publication =
  p_token :: nat
  p_absent :: bool
  p_deletion :: bool
  p_captured :: bool
  p_installed :: bool
  p_unchanged :: bool
  p_finished :: bool
  p_rollback_pending :: bool
  p_expected_fd :: int
  p_capture_valid :: bool
  p_finish_failed :: bool
  p_journal :: cstring
  p_journal_id :: stat
  p_arena :: nat
  p_anchor :: "nat option"
  p_path :: cstring
  p_name :: cstring
  p_stage :: cstring
  p_recovery :: cstring
  p_rollback :: "cstring option"
  p_expected :: stat
  p_fresh :: stat
  p_bytes :: "bytes option"
  p_expected_tree :: "tree_entry option"
  p_fresh_tree :: "tree_entry option"

record pub_world = private_world +
  g_roots :: "anchor list"
  g_arenas :: "arena list"
  g_publications :: "publication list"
  g_next_token :: nat
  g_next_id :: nat
  g_why :: cstring

definition find_arena :: "nat \<Rightarrow> ('z pub_world_scheme, arena option) state" where
  "find_arena k = gets (\<lambda>w. find (\<lambda>a. ar_id a = k) (g_arenas w))"

definition update_arena :: "nat \<Rightarrow> (arena \<Rightarrow> arena) \<Rightarrow> ('z pub_world_scheme, unit) state" where
  "update_arena k f = modify (\<lambda>w. w\<lparr>g_arenas := map (\<lambda>a. if ar_id a = k then f a else a) (g_arenas w)\<rparr>)"

definition update_publication :: "nat \<Rightarrow> (publication \<Rightarrow> publication)
    \<Rightarrow> ('z pub_world_scheme, unit) state" where
  "update_publication token f = modify (\<lambda>w. w\<lparr>g_publications :=
     map (\<lambda>p. if p_token p = token then f p else p) (g_publications w)\<rparr>)"

definition lookup :: "nat \<Rightarrow> ('z pub_world_scheme, publication option) state" where
  "lookup token = gets (\<lambda>w. find (\<lambda>p. p_token p = token) (g_publications w))"

text \<open>\<open>reason\<close>: the caller's message buffer of \<open>room\<close> bytes.\<close>

definition reason :: "nat \<Rightarrow> cstring \<Rightarrow> ('z pub_world_scheme, unit) state" where
  "reason room msg = (if room = 0 then ret () else modify (\<lambda>w. w\<lparr>g_why := snprintf room msg\<rparr>))"

definition same :: "stat \<Rightarrow> stat \<Rightarrow> bool" where
  "same a b \<longleftrightarrow> st_dev a = st_dev b \<and> st_ino a = st_ino b"

text \<open>\<open>close\<close> where the code ignores its result, and the guarded form \<open>if (fd >= 0) close(fd)\<close>.\<close>

definition close_fd :: "int \<Rightarrow> ('z world_scheme, unit) state" where
  "close_fd fd = do { sys_close fd; ret () }"

definition close_if_open :: "int \<Rightarrow> ('z world_scheme, unit) state" where
  "close_if_open fd = (if 0 \<le> fd then close_fd fd else ret ())"

definition quarantine :: "nat \<Rightarrow> ('z pub_world_scheme, unit) state" where
  "quarantine k = do {
     saved \<leftarrow> get_errno;
     update_arena k (\<lambda>a. a\<lparr>ar_retained := True\<rparr>);
     a \<leftarrow> find_arena k;
     (case a of Some ar \<Rightarrow>
        if 0 \<le> ar_producer_fd ar
        then do { close_fd (ar_producer_fd ar); update_arena k (\<lambda>a. a\<lparr>ar_producer_fd := -1\<rparr>) }
        else ret ()
      | None \<Rightarrow> ret ());
     set_errno saved
   }"

text \<open>Anchors no publication refers to are closed and dropped; \<open>errno\<close> is kept.\<close>

fun close_all :: "int list \<Rightarrow> ('z world_scheme, unit) state" where
  "close_all [] = ret ()"
| "close_all (fd # fds) = do { close_fd fd; close_all fds }"

definition prune_anchors :: "('z pub_world_scheme, unit) state" where
  "prune_anchors = do {
     saved \<leftarrow> get_errno;
     dead \<leftarrow> gets (\<lambda>w. map an_fd (filter (\<lambda>r. an_refs r = 0) (g_roots w)));
     modify (\<lambda>w. w\<lparr>g_roots := filter (\<lambda>r. an_refs r \<noteq> 0) (g_roots w)\<rparr>);
     close_all dead;
     set_errno saved
   }"

definition release_anchor :: "publication \<Rightarrow> ('z pub_world_scheme, unit) state" where
  "release_anchor p = do {
     (case p_anchor p of
        Some k \<Rightarrow> do {
          modify (\<lambda>w. w\<lparr>g_roots := map (\<lambda>r. if an_id r = k then r\<lparr>an_refs := an_refs r - 1\<rparr> else r)
                                  (g_roots w)\<rparr>);
          update_publication (p_token p) (\<lambda>q. q\<lparr>p_anchor := None\<rparr>)
        }
      | None \<Rightarrow> ret ());
     prune_anchors
   }"

section \<open>Bytes and trees\<close>

definition read_bytes :: "int \<Rightarrow> ('z world_scheme, bytes option) state" where
  "read_bytes fd = do {
     room \<leftarrow> alloc;
     if \<not> room then ret None
     else do {
       got \<leftarrow> State (pread_loop EFBIG fd [] 4096);
       ret (map_option fst got)
     }
   }"

text \<open>Freeing a sibling list closes every descriptor the entries hold.\<close>

fun free_tree :: "tree_entry list \<Rightarrow> ('z world_scheme, unit) state" where
  "free_tree [] = ret ()"
| "free_tree (Entry n i fd b children # next_entries) = do {
     free_tree children;
     close_if_open fd;
     free_tree next_entries
   }"

text \<open>
  A snapshot keeps every object's descriptor open. The children of a directory are read through
  a duplicate of its descriptor. As in the descent of the owned directories \<open>depth\<close> stands for
  the process's descriptor limit: where it is exhausted the entry cannot be opened, which the
  code reports as \<open>EAGAIN\<close>.
\<close>

fun snapshot_loop :: "(cstring \<Rightarrow> ('z world_scheme, tree_entry option) state) \<Rightarrow> cstring list
    \<Rightarrow> tree_entry list \<Rightarrow> ('z world_scheme, bool \<times> tree_entry list) state" where
  "snapshot_loop snap [] children = do { sys_readdir []; ret (True, children) }"
| "snapshot_loop snap (n # ns) children = do {
     child \<leftarrow> sys_readdir (n # ns);
     case child of
       None \<Rightarrow> ret (True, children)
     | Some name \<Rightarrow>
         if is_dots name then snapshot_loop snap ns children
         else do {
           item \<leftarrow> snap name;
           case item of
             None \<Rightarrow> ret (False, children)
           | Some entry \<Rightarrow> do { set_errno EOK; snapshot_loop snap ns (entry # children) }
         }
   }"

text \<open>The label \<open>fail\<close>: the descriptor, then what the entry holds so far.\<close>

definition snapshot_fail :: "int \<Rightarrow> tree_entry list \<Rightarrow> ('z world_scheme, tree_entry option) state" where
  "snapshot_fail fd children = do { close_if_open fd; free_tree children; ret None }"

definition snapshot_directory :: "(cstring \<Rightarrow> ('z world_scheme, tree_entry option) state) \<Rightarrow> int
    \<Rightarrow> cstring \<Rightarrow> stat \<Rightarrow> ('z world_scheme, tree_entry option) state" where
  "snapshot_directory snap fd name identity = do {
     listing_fd \<leftarrow> sys_dup fd 0;
     listing \<leftarrow> sys_fdopendir listing_fd;
     case listing of
       None \<Rightarrow> snapshot_fail fd []
     | Some names \<Rightarrow> do {
         set_errno EOK;
         (complete, children) \<leftarrow> snapshot_loop snap names [];
         if \<not> complete then do { close_fd listing_fd; snapshot_fail fd children }
         else do {
           e \<leftarrow> get_errno;
           close_fd listing_fd;
           if e \<noteq> EOK then do { set_errno e; snapshot_fail fd children }
           else ret (Some (Entry name identity fd [] children))
         }
       }
   }"

fun snapshot_entry :: "nat \<Rightarrow> int \<Rightarrow> cstring \<Rightarrow> ('z world_scheme, tree_entry option) state" where
  "snapshot_entry depth parent name = do {
     room \<leftarrow> alloc;
     if \<not> room then ret None
     else do {
       copy \<leftarrow> alloc;
       if \<not> copy then ret None
       else do {
         st \<leftarrow> sys_fstatat parent name;
         case st of
           None \<Rightarrow> ret None
         | Some identity \<Rightarrow>
             if \<not> S_ISDIR identity \<and> \<not> S_ISREG identity then do { set_errno ELOOP; ret None }
             else if depth = 0 then do { set_errno EAGAIN; ret None }
             else do {
               fd \<leftarrow> sys_openat parent name ([O_RDONLY, O_NOFOLLOW, O_CLOEXEC, O_NONBLOCK]
                      @ (if S_ISDIR identity then [O_DIRECTORY] else [])) 0;
               actual \<leftarrow> (if fd < 0 then ret None else sys_fstat fd);
               case actual of
                 None \<Rightarrow> do { set_errno EAGAIN; snapshot_fail fd [] }
               | Some s \<Rightarrow>
                   if \<not> same s identity then do { set_errno EAGAIN; snapshot_fail fd [] }
                   else if S_ISDIR s
                   then snapshot_directory (\<lambda>child. case depth of 0 \<Rightarrow> ret None
                          | Suc d \<Rightarrow> snapshot_entry d fd child) fd name identity
                   else do {
                     bs \<leftarrow> read_bytes fd;
                     case bs of
                       None \<Rightarrow> snapshot_fail fd []
                     | Some b \<Rightarrow> ret (Some (Entry name identity fd b []))
                   }
             }
       }
     }
   }"

declare snapshot_entry.simps [simp del]

definition snapshot :: "int \<Rightarrow> cstring \<Rightarrow> ('z world_scheme, tree_entry option) state" where
  "snapshot parent name = do { limit \<leftarrow> gets w_nofile; snapshot_entry limit parent name }"

text \<open>
  Equality of trees: the first entry of the other side with the same name is the one compared,
  and both sides have the same number of entries.
\<close>

fun equal_tree :: "bool \<Rightarrow> tree_entry \<Rightarrow> tree_entry \<Rightarrow> bool" where
  "equal_tree identities (Entry an ai af ab acs) (Entry bn bi bf bb bcs) =
     (if identities \<and> \<not> same ai bi \<or> S_ISDIR ai \<noteq> S_ISDIR bi then False
      else if S_ISREG ai then ab = bb
      else (\<forall>x \<in> set acs. case find (\<lambda>y. e_name x = e_name y) bcs of
               None \<Rightarrow> False | Some y \<Rightarrow> equal_tree identities x y)
           \<and> length acs = length bcs)"

text \<open>Remove exactly the entries of a snapshot; anything else stops the final removal.\<close>

fun discard_known_tree :: "int \<Rightarrow> cstring \<Rightarrow> tree_entry \<Rightarrow> ('z world_scheme, int) state"
and discard_known_children :: "int \<Rightarrow> tree_entry list \<Rightarrow> ('z world_scheme, bool) state" where
  "discard_known_tree parent name (Entry n identity efd b children) = do {
     actual \<leftarrow> sys_fstatat parent name;
     case actual of
       None \<Rightarrow> fail_with EAGAIN
     | Some s \<Rightarrow>
         if \<not> same s identity then fail_with EAGAIN
         else if S_ISDIR s then do {
           fd \<leftarrow> sys_openat parent name [O_RDONLY, O_DIRECTORY, O_NOFOLLOW, O_CLOEXEC] 0;
           if fd < 0 then ret (-1)
           else do {
             cleared \<leftarrow> discard_known_children fd children;
             close_fd fd;
             if \<not> cleared then ret (-1) else sys_unlinkat parent name True
           }
         }
         else sys_unlinkat parent name False
   }"
| "discard_known_children fd [] = ret True"
| "discard_known_children fd (child # children) = do {
     r \<leftarrow> discard_known_tree fd (e_name child) child;
     if r \<noteq> 0 then ret False else discard_known_children fd children
   }"

definition discard_tree :: "int \<Rightarrow> cstring \<Rightarrow> tree_entry \<Rightarrow> ('z world_scheme, int) state" where
  "discard_tree parent name tree = do {
     current \<leftarrow> snapshot parent name;
     let matches = (case current of None \<Rightarrow> False | Some c \<Rightarrow> equal_tree True tree c) in do {
       free_tree (case current of None \<Rightarrow> [] | Some c \<Rightarrow> [c]);
       if \<not> matches then fail_with EAGAIN else discard_known_tree parent name tree
     }
   }"

section \<open>The staged name space\<close>

text \<open>The first arena whose stage directory a path lies below, with the rest of the path.\<close>

fun stage_arena_in :: "arena list \<Rightarrow> cstring \<Rightarrow> (arena \<times> cstring) option" where
  "stage_arena_in [] path = None"
| "stage_arena_in (a # as) path = (case below_path (ar_path a) path of
     Some relative \<Rightarrow> Some (a, relative) | None \<Rightarrow> stage_arena_in as path)"

definition stage_arena :: "cstring \<Rightarrow> ('z pub_world_scheme, (arena \<times> cstring) option) state" where
  "stage_arena path = gets (\<lambda>w. stage_arena_in (g_arenas w) path)"

text \<open>
  \<open>reserved_stage\<close>: a component (in an argument also a value after \<^verbatim>\<open>=\<close> or \<^verbatim>\<open>,\<close>) that begins with
  the arenas' marker and goes on. \<open>prev\<close> is the character before the text still to be searched.
\<close>

definition stage_marker :: cstring where
  "stage_marker = ''.refine-publication-''"

function reserved_from :: "bool \<Rightarrow> char option \<Rightarrow> cstring \<Rightarrow> bool" where
  "reserved_from argument prev text = (case strstr text stage_marker of
     None \<Rightarrow> False
   | Some (before, at) \<Rightarrow>
       (let p = (if before = [] then prev else Some (last before));
            rest = drop (length stage_marker) at in
        if (p = None \<or> p = Some (CHR ''/'')
              \<or> argument \<and> (p = Some (CHR ''='') \<or> p = Some (CHR '','')))
           \<and> rest \<noteq> [] \<and> hd rest \<noteq> CHR ''/''
        then True else reserved_from argument (Some (hd at)) (tl at)))"
  by pat_completeness auto
termination
proof (relation "measure (\<lambda>(argument, prev, text). length text)", goal_cases)
  case (2 c l t x u v y z)
  then have "t = u @ v" "starts_with stage_marker v"
    using strstr_Some by (metis prod.sel)+
  then show ?case by (cases v) (auto simp: starts_with_def stage_marker_def)
qed simp

declare reserved_from.simps [simp del]

definition reserved_stage :: "cstring \<Rightarrow> bool \<Rightarrow> bool" where
  "reserved_stage path argument = reserved_from argument None path"

text \<open>
  The walk below an arena's stage directory: one descriptor is held, the last component is given
  to \<open>final\<close>; a dot component is refused.
\<close>

fun stage_descend :: "(int \<Rightarrow> cstring \<Rightarrow> ('z world_scheme, int) state) \<Rightarrow> int \<Rightarrow> cstring list
    \<Rightarrow> ('z world_scheme, int) state" where
  "stage_descend final fd [] = do { close_fd fd; ret (-1) }"
| "stage_descend final fd (part # rest) =
     (if is_dots part then do { set_errno EINVAL; close_fd fd; ret (-1) }
      else if rest = [] then do { result \<leftarrow> final fd part; close_fd fd; ret result }
      else do {
        child \<leftarrow> sys_openat fd part [O_RDONLY, O_DIRECTORY, O_NOFOLLOW, O_CLOEXEC] 0;
        close_fd fd;
        if child < 0 then ret (-1) else stage_descend final child rest
      })"

definition stage_walk :: "(int \<Rightarrow> cstring \<Rightarrow> ('z world_scheme, int) state) \<Rightarrow> arena \<Rightarrow> cstring
    \<Rightarrow> ('z world_scheme, int) state" where
  "stage_walk final a relative = do {
     copy \<leftarrow> alloc;
     fd \<leftarrow> sys_dup (ar_private_fd a) 0;
     if \<not> copy \<or> fd < 0 then do { close_if_open fd; ret (-1) }
     else stage_descend final fd (tokens relative)
   }"

text \<open>-2: not a staged path; -1: a staged path, and refused.\<close>

definition stage_open :: "cstring \<Rightarrow> oflag list \<Rightarrow> nat \<Rightarrow> ('z pub_world_scheme, int) state" where
  "stage_open path flags mode = do {
     found \<leftarrow> stage_arena path;
     case found of
       None \<Rightarrow> if reserved_stage path False then fail_with ESTALE else ret (-2)
     | Some (a, relative) \<Rightarrow>
         if ar_refs a = 0 then fail_with ESTALE
         else if relative = [] then fail_with EISDIR
         else stage_walk (\<lambda>fd part. sys_openat fd part (flags @ [O_NOFOLLOW, O_CLOEXEC]) mode) a relative
   }"

definition landin_publication_stage_mkdir_locked :: "cstring \<Rightarrow> ('z pub_world_scheme, int) state" where
  "landin_publication_stage_mkdir_locked path = do {
     found \<leftarrow> stage_arena path;
     case found of
       None \<Rightarrow> if reserved_stage path False then fail_with ESTALE else ret (-2)
     | Some (a, relative) \<Rightarrow>
         if ar_refs a = 0 then fail_with ESTALE
         else if relative = [] then do {
           st \<leftarrow> sys_fstat (ar_private_fd a);
           ret (case st of Some s \<Rightarrow> if S_ISDIR s then 0 else -1 | None \<Rightarrow> -1)
         }
         else stage_walk (\<lambda>fd part. sys_mkdirat fd part 511) a relative
   }"

text \<open>A tool argument: the first live arena spelled in it at a boundary; -1 for none.\<close>

fun spelled_arena :: "arena list \<Rightarrow> cstring \<Rightarrow> arena option" where
  "spelled_arena [] text = None"
| "spelled_arena (a # as) text =
     (if 0 < ar_refs a \<and> spelled_in (ar_path a) text \<noteq> None then Some a else spelled_arena as text)"

definition landin_publication_stage_directory_locked :: "cstring \<Rightarrow> ('z pub_world_scheme, int) state" where
  "landin_publication_stage_directory_locked text = do {
     found \<leftarrow> gets (\<lambda>w. spelled_arena (g_arenas w) text);
     case found of
       Some a \<Rightarrow> do { fd \<leftarrow> sys_dup (ar_private_fd a) 0; ret (if fd < 0 then -2 else fd) }
     | None \<Rightarrow> if reserved_stage text True then do { set_errno ESTALE; ret (-2) } else ret (-1)
   }"

text \<open>
  The copy loop of the rebasing: every occurrence of a live arena's stage path at a boundary
  becomes a dot, when the arena is the selected directory; \<open>used\<close> bytes are out already.
\<close>

definition rebase_match :: "arena list \<Rightarrow> cstring \<Rightarrow> (arena \<times> cstring) option" where
  "rebase_match as arg = (case find (\<lambda>a. 0 < ar_refs a \<and> starts_with (ar_path a) arg
       \<and> (let rest = drop (length (ar_path a)) arg in
          rest = [] \<or> hd rest = CHR ''/'' \<or> hd rest = CHR ''='')) as of
     None \<Rightarrow> None | Some a \<Rightarrow> Some (a, drop (length (ar_path a)) arg))"

text \<open>Every round puts one byte out, so the loop ends at the latest when the buffer is full.\<close>

function rebase_loop :: "stat \<Rightarrow> cstring \<Rightarrow> nat \<Rightarrow> cstring
    \<Rightarrow> ('z pub_world_scheme, cstring option) state" where
  "rebase_loop selected arg room out =
     (if arg = [] then ret (if room \<le> length out then None else Some out)
      else do {
        found \<leftarrow> gets (\<lambda>w. rebase_match (g_arenas w) arg);
        case found of
          Some (a, rest) \<Rightarrow> do {
            actual \<leftarrow> sys_fstat (ar_private_fd a);
            if (case actual of None \<Rightarrow> True | Some s \<Rightarrow> \<not> same s selected) then ret None
            else if room \<le> length out + 1 then ret None
            else rebase_loop selected rest room (out @ ''.'')
          }
        | None \<Rightarrow>
            if room \<le> length out + 1 then ret None
            else rebase_loop selected (tl arg) room (out @ [hd arg])
      })"
  by pat_completeness auto
termination
  by (relation "measure (\<lambda>(selected, arg, room, out). room - length out)") auto

declare rebase_loop.simps [simp del]

definition landin_publication_rebase_argument_locked :: "cstring \<Rightarrow> int \<Rightarrow> nat
    \<Rightarrow> ('z pub_world_scheme, cstring option) state" where
  "landin_publication_rebase_argument_locked arg directory room = do {
     selected \<leftarrow> sys_fstat directory;
     case selected of
       None \<Rightarrow> ret None
     | Some s \<Rightarrow> do {
         out \<leftarrow> rebase_loop s arg room [];
         case out of
           None \<Rightarrow> ret None
         | Some o_text \<Rightarrow>
             if reserved_stage o_text True then do { set_errno ESTALE; ret None }
             else ret (Some o_text)
       }
   }"

definition landin_publication_stage_write_locked :: "cstring \<Rightarrow> bytes \<Rightarrow> ('z pub_world_scheme, int) state" where
  "landin_publication_stage_write_locked path bs = do {
     first \<leftarrow> stage_open path [O_WRONLY, O_CREAT, O_EXCL] 384;
     e \<leftarrow> get_errno;
     fd \<leftarrow> (if first < 0 \<and> first \<noteq> -2 \<and> e = EEXIST then stage_open path [O_WRONLY] 0
            else ret first);
     if fd < 0 then ret fd else write_truncate_sync fd bs
   }"

text \<open>0 with the bytes, device and inode; 1 for an absent file; -1 for a failure.\<close>

definition landin_read_snapshot_locked :: "cstring
    \<Rightarrow> ('z pub_world_scheme, int \<times> (bytes \<times> oid) option) state" where
  "landin_read_snapshot_locked path = do {
     staged \<leftarrow> stage_open path [O_RDONLY, O_NONBLOCK] 0;
     second \<leftarrow> (if staged = -2 then landin_private_open_locked path [O_RDONLY, O_NONBLOCK] 0
                else ret staged);
     fd \<leftarrow> (if second = -2 then sys_open path [O_RDONLY, O_CLOEXEC, O_NONBLOCK] else ret second);
     if fd < 0 then do { e \<leftarrow> get_errno; ret (if e = ENOENT then 1 else -1, None) }
     else do {
       st \<leftarrow> sys_fstat fd;
       result \<leftarrow> (case st of
           None \<Rightarrow> ret (-1, None)
         | Some s \<Rightarrow>
             if \<not> S_ISREG s then ret (-1, None)
             else do {
               bs \<leftarrow> read_bytes fd;
               ret (case bs of None \<Rightarrow> (-1, None) | Some b \<Rightarrow> (0, Some (b, st_id s)))
             });
       close_fd fd;
       ret result
     }
   }"

end
