(* ===== verification/PublicationArena.thy ===== *)
theory PublicationArena
  imports PublicationStage
begin

text \<open>
  Model of the middle part of \<^verbatim>\<open>compiler/ada/src/platform/landin_publication.c\<close>: the selection
  of an output's pinned parent, moves that replace nothing, arenas and their retirement, the
  discovery of workspaces other processes left or hold, and the journal of a publication.
\<close>

section \<open>The pinned parent\<close>

function strip_inner_dots :: "cstring \<Rightarrow> cstring" where
  "strip_inner_dots path = (case strstr path ''/./'' of
     None \<Rightarrow> path
   | Some (before, dot) \<Rightarrow> strip_inner_dots (before @ drop 2 dot))"
  by pat_completeness auto
termination
proof (relation "measure length", goal_cases)
  case (2 path x u v)
  then have "path = u @ v" "starts_with ''/./'' v"
    using strstr_Some by (metis prod.sel)+
  then show ?case by (auto simp: str_simps)
qed simp

declare strip_inner_dots.simps [simp del]

definition strip_dots :: "cstring \<Rightarrow> cstring" where
  "strip_dots path = (let p = strip_inner_dots path; n = length p in
     if 2 \<le> n \<and> drop (n - 2) p = ''/.'' then take (if n - 2 = 0 then 1 else n - 2) p else p)"

text \<open>The trailing slashes of a root are dropped, the first one kept.\<close>

definition strip_slashes :: "cstring \<Rightarrow> cstring" where
  "strip_slashes p = (let q = rev (dropWhile (\<lambda>c. c = CHR ''/'') (rev p)) in
     if q = [] then take 1 p else q)"

text \<open>
  The walk through pinned components that follows no link: a dot is passed over, a double dot
  is refused, and with \<open>create\<close> an absent component is made.
\<close>

fun walk_anchored :: "bool \<Rightarrow> int \<Rightarrow> cstring list \<Rightarrow> ('z world_scheme, int) state" where
  "walk_anchored create fd [] = ret fd"
| "walk_anchored create fd (part # rest) =
     (if part = ''.'' then walk_anchored create fd rest
      else if part = ''..'' then do { close_fd fd; set_errno EINVAL; ret (-1) }
      else do {
        first \<leftarrow> sys_openat fd part [O_RDONLY, O_DIRECTORY, O_CLOEXEC, O_NOFOLLOW] 0;
        e \<leftarrow> get_errno;
        if create \<and> first < 0 \<and> e = ENOENT then do {
          made \<leftarrow> sys_mkdirat fd part 493;
          e2 \<leftarrow> get_errno;
          if made \<noteq> 0 \<and> e2 \<noteq> EEXIST then do { close_fd fd; ret (-1) }
          else do {
            child \<leftarrow> sys_openat fd part [O_RDONLY, O_DIRECTORY, O_CLOEXEC, O_NOFOLLOW] 0;
            close_fd fd;
            if child < 0 then ret (-1) else walk_anchored create child rest
          }
        }
        else do {
          close_fd fd;
          if first < 0 then ret (-1) else walk_anchored create first rest
        }
      })"

text \<open>Where an absolute walk starts: the file system's root, on Darwin also its system aliases.\<close>

definition system_anchor :: "host \<Rightarrow> cstring \<Rightarrow> cstring option" where
  "system_anchor h path = (if h \<noteq> Darwin then None
     else if starts_with ''/tmp/'' path \<or> path = ''/tmp'' then Some ''/tmp''
     else if starts_with ''/var/'' path \<or> path = ''/var'' then Some ''/var''
     else None)"

definition open_system_anchor :: "cstring \<Rightarrow> ('z world_scheme, (int \<times> cstring) option) state" where
  "open_system_anchor path = do {
     slash \<leftarrow> sys_open ''/'' [O_RDONLY, O_DIRECTORY, O_CLOEXEC];
     copy \<leftarrow> alloc;
     h \<leftarrow> gets w_host;
     (fd, walk_copy, rest) \<leftarrow> (case system_anchor h path of
         None \<Rightarrow> ret (slash, copy, path)
       | Some alias_dir \<Rightarrow> do {
           close_fd slash;
           fd \<leftarrow> sys_open alias_dir [O_RDONLY, O_DIRECTORY, O_CLOEXEC];
           copy2 \<leftarrow> alloc;
           ret (fd, copy2, drop 4 path)
         });
     if \<not> walk_copy \<or> fd < 0 then do {
       error \<leftarrow> get_errno;
       close_if_open fd;
       set_errno error;
       ret None
     }
     else ret (Some (fd, rest))
   }"

text \<open>
  A root chosen before is found by its path and must still be the same directory; a new one is
  pinned by a descriptor of its own. Either way the number of its record is returned.
\<close>

definition choose_anchor :: "int \<Rightarrow> cstring \<Rightarrow> ('z pub_world_scheme, nat option) state" where
  "choose_anchor fd root_abs = do {
     st \<leftarrow> sys_fstat fd;
     case st of
       None \<Rightarrow> do { close_fd fd; ret None }
     | Some selected \<Rightarrow> do {
         known \<leftarrow> gets (\<lambda>w. find (\<lambda>r. an_path r = root_abs) (g_roots w));
         case known of
           Some r \<Rightarrow>
             if \<not> same selected (an_identity r)
             then do { close_fd fd; set_errno ESTALE; ret None }
             else ret (Some (an_id r))
         | None \<Rightarrow> do {
             room \<leftarrow> alloc;
             copy \<leftarrow> (if room then alloc else ret False);
             if \<not> copy then do { close_fd fd; ret None }
             else do {
               pinned \<leftarrow> sys_dup fd 0;
               if pinned < 0 then do { close_fd fd; ret None }
               else do {
                 k \<leftarrow> gets g_next_id;
                 modify (\<lambda>w. w\<lparr>g_next_id := Suc k, g_roots := \<lparr>an_id = k, an_path = root_abs,
                   an_fd = pinned, an_identity = selected, an_refs = 0\<rparr> # g_roots w\<rparr>);
                 ret (Some k)
               }
             }
           }
       }
   }"

definition open_root :: "cstring \<Rightarrow> ('z world_scheme, int) state" where
  "open_root root_abs = do {
     fd \<leftarrow> sys_open root_abs [O_RDONLY, O_DIRECTORY, O_CLOEXEC, O_NOFOLLOW];
     e \<leftarrow> get_errno;
     if fd < 0 \<and> e = ENOENT then do {
       start \<leftarrow> open_system_anchor root_abs;
       case start of
         None \<Rightarrow> ret (-1)
       | Some (start_fd, rest) \<Rightarrow> walk_anchored True start_fd (tokens rest)
     }
     else ret fd
   }"

definition absolute_path :: "cstring \<Rightarrow> cstring \<Rightarrow> cstring" where
  "absolute_path cwd path = (if is_absolute path then path else cwd @ ''/'' @ path)"

text \<open>The parent below an explicit root, an absent generated tree's, and an ordinary output's.\<close>

definition parent_below_root :: "cstring \<Rightarrow> cstring \<Rightarrow> ('z pub_world_scheme, int \<times> nat option) state" where
  "parent_below_root absolute root_abs =
     (let len = length root_abs in
      if take len absolute \<noteq> root_abs
         \<or> 1 < len \<and> len < length absolute \<and> absolute ! len \<noteq> CHR ''/''
      then do { set_errno EINVAL; ret (-1, None) }
      else do {
        fd \<leftarrow> open_root root_abs;
        if fd < 0 then ret (-1, None)
        else do {
          chosen \<leftarrow> choose_anchor fd root_abs;
          case chosen of
            None \<Rightarrow> ret (-1, None)
          | Some k \<Rightarrow> do {
              copy \<leftarrow> alloc;
              if \<not> copy then do { close_fd fd; ret (-1, None) }
              else do {
                parent \<leftarrow> walk_anchored True fd (tokens (drop len absolute));
                ret (parent, Some k)
              }
            }
        }
      })"

definition parent_of_absent :: "cstring \<Rightarrow> ('z world_scheme, int) state" where
  "parent_of_absent absolute = do {
     start \<leftarrow> open_system_anchor absolute;
     case start of
       None \<Rightarrow> ret (-1)
     | Some (start_fd, rest) \<Rightarrow> walk_anchored False start_fd (tokens rest)
   }"

text \<open>The label \<open>done\<close>: a reference to the chosen root is taken when a parent was found.\<close>

definition parent_done :: "int \<Rightarrow> nat option \<Rightarrow> ('z pub_world_scheme, nat option) state" where
  "parent_done fd chosen = (let held = (if 0 \<le> fd then chosen else None) in do {
     (case held of None \<Rightarrow> ret ()
      | Some k \<Rightarrow> modify (\<lambda>w. w\<lparr>g_roots :=
          map (\<lambda>r. if an_id r = k then r\<lparr>an_refs := an_refs r + 1\<rparr> else r) (g_roots w)\<rparr>));
     prune_anchors;
     ret held
   })"

definition select_parent :: "cstring \<Rightarrow> cstring \<Rightarrow> bool
    \<Rightarrow> ('z pub_world_scheme, int \<times> cstring \<times> cstring \<times> nat option) state" where
  "select_parent path root require_absent = do {
     cwd \<leftarrow> sys_getcwd;
     case cwd of
       None \<Rightarrow> ret (-1, [], [], None)
     | Some here \<Rightarrow> do {
         room1 \<leftarrow> alloc;
         room2 \<leftarrow> alloc;
         (fd, chosen, parent_path, name) \<leftarrow>
           (if \<not> room1 \<or> \<not> room2 then ret (-1, None, [], [])
            else (case split_last_slash (absolute_path here path) of
                None \<Rightarrow> do { set_errno EINVAL; ret (-1, None, [], []) }
              | Some (before, name) \<Rightarrow>
                  if name = [] \<or> is_dots name then do { set_errno EINVAL; ret (-1, None, [], []) }
                  else do {
                    copy \<leftarrow> alloc;
                    if \<not> copy then ret (-1, None, [], [])
                    else (let absolute = strip_dots (if before = [] then ''/'' else before) in do {
                      (fd, chosen) \<leftarrow>
                        (if root \<noteq> []
                         then parent_below_root absolute
                                (strip_slashes (strip_dots (absolute_path here root)))
                         else if require_absent
                         then do { fd \<leftarrow> parent_of_absent absolute; ret (fd, None) }
                         else do {
                           fd \<leftarrow> sys_open absolute [O_RDONLY, O_DIRECTORY, O_CLOEXEC, O_NOFOLLOW];
                           ret (fd, None)
                         });
                      (if fd < 0 then ret (-1, chosen, [], [])
                       else do {
                         kept \<leftarrow> alloc;
                         if \<not> kept then do { close_fd fd; ret (-1, chosen, [], []) }
                         else ret (fd, chosen, absolute, name)
                       })
                    })
                  }));
         held \<leftarrow> parent_done fd chosen;
         ret (fd, parent_path, name, held)
       }
   }"

definition parent_for :: "cstring \<Rightarrow> cstring \<Rightarrow> bool
    \<Rightarrow> ('z pub_world_scheme, int \<times> cstring \<times> cstring \<times> nat option) state" where
  "parent_for path root require_absent =
     (if reserved_stage path False \<or> reserved_stage root False
      then do { set_errno ESTALE; ret (-1, [], [], None) }
      else do {
        (fd, parent_path, name) \<leftarrow> landin_private_parent_locked path;
        if fd \<noteq> -2 then ret (fd, parent_path, name, None)
        else if path = [] then do { set_errno EINVAL; ret (-1, [], [], None) }
        else select_parent path root require_absent
      })"

section \<open>A move that replaces nothing\<close>

text \<open>
  The host's exclusive rename; where it is missing a regular file is linked and unlinked, and a
  directory is refused. A failing unlink leaves the second link behind.
\<close>

definition no_replace :: "int \<Rightarrow> cstring \<Rightarrow> int \<Rightarrow> cstring \<Rightarrow> bool
    \<Rightarrow> ('z world_scheme, int) state" where
  "no_replace fromfd from tofd to directory = do {
     h \<leftarrow> gets w_host;
     moved \<leftarrow> (if h = FreeBSD then ret (-1) else sys_rename_excl fromfd from tofd to);
     e \<leftarrow> get_errno;
     if moved = 0 then ret 0
     else if h = Linux \<and> e \<noteq> ENOSYS \<and> e \<noteq> EINVAL \<and> e \<noteq> ENOTSUP then ret (-1)
     else if h = Darwin \<and> e \<noteq> ENOTSUP \<and> e \<noteq> EINVAL then ret (-1)
     else if directory then fail_with ENOTSUP
     else do {
       linked \<leftarrow> sys_linkat fromfd from tofd to;
       if linked \<noteq> 0 then ret (-1)
       else do { sys_unlinkat fromfd from False; ret 0 }
     }
   }"

section \<open>Arenas\<close>

text \<open>The random leaf: one unbuffered read of twelve bytes, a short one is a failure.\<close>

definition arena_leaf :: "('z world_scheme, cstring option) state" where
  "arena_leaf = do {
     random_fd \<leftarrow> sys_open ''/dev/urandom'' [O_RDONLY, O_CLOEXEC];
     if random_fd < 0 then ret None
     else do {
       got \<leftarrow> sys_read_device random_fd 12;
       close_fd random_fd;
       case got of
         None \<Rightarrow> ret None
       | Some entropy \<Rightarrow> ret (if length entropy \<noteq> 12 then None
           else Some (''.refine-publication-'' @ concat (map hex_byte entropy)))
     }
   }"

text \<open>The stage and recovery directories of a new arena's root, opened.\<close>

definition arena_rooms :: "int \<Rightarrow> ('z world_scheme, (int \<times> int) option) state" where
  "arena_rooms root_fd = do {
     made \<leftarrow> sys_mkdirat root_fd ''stage'' 448;
     both \<leftarrow> (if made \<noteq> 0 then ret made else sys_mkdirat root_fd ''recovery'' 448);
     if both \<noteq> 0 then do { close_fd root_fd; ret None }
     else do {
       private_fd \<leftarrow> sys_openat root_fd ''stage'' [O_RDONLY, O_DIRECTORY, O_NOFOLLOW, O_CLOEXEC] 0;
       recovery_fd \<leftarrow> sys_openat root_fd ''recovery'' [O_RDONLY, O_DIRECTORY, O_NOFOLLOW, O_CLOEXEC] 0;
       if private_fd < 0 \<or> recovery_fd < 0 then do {
         close_if_open private_fd;
         close_if_open recovery_fd;
         close_fd root_fd;
         ret None
       }
       else do {
         room \<leftarrow> alloc;
         if \<not> room then do {
           close_fd private_fd; close_fd recovery_fd; close_fd root_fd; ret None
         }
         else ret (Some (private_fd, recovery_fd))
       }
     }
   }"

definition arena_new :: "int \<Rightarrow> stat \<Rightarrow> cstring \<Rightarrow> ('z pub_world_scheme, nat option) state" where
  "arena_new parent st path = do {
     room \<leftarrow> alloc;
     room2 \<leftarrow> (if room then alloc else ret False);
     leaf \<leftarrow> (if room2 then arena_leaf else ret None);
     case leaf of
       None \<Rightarrow> ret None
     | Some name \<Rightarrow> do {
         made \<leftarrow> sys_mkdirat parent name 448;
         if made \<noteq> 0 then ret None
         else do {
           copy \<leftarrow> alloc;
           root_fd \<leftarrow> (if copy
             then sys_openat parent name [O_RDONLY, O_DIRECTORY, O_NOFOLLOW, O_CLOEXEC] 0
             else fail_with EFAULT);
           if root_fd < 0 then ret None
           else do {
             rooms \<leftarrow> arena_rooms root_fd;
             case rooms of
               None \<Rightarrow> ret None
             | Some (private_fd, recovery_fd) \<Rightarrow> do {
                 k \<leftarrow> gets g_next_id;
                 modify (\<lambda>w. w\<lparr>g_next_id := Suc k, g_arenas := \<lparr>ar_id = k, ar_parent = parent,
                   ar_private_fd = private_fd, ar_recovery_fd = recovery_fd, ar_root_fd = root_fd,
                   ar_producer_fd = -1, ar_parent_id = st, ar_path = path @ ''/'' @ name @ ''/stage'',
                   ar_name = name, ar_recovery_path = path @ ''/'' @ name @ ''/recovery'',
                   ar_refs = 1, ar_retained = False\<rparr> # g_arenas w\<rparr>);
                 ret (Some k)
               }
           }
         }
       }
   }"

text \<open>A live arena of the same parent is shared, and the parent's second descriptor closed.\<close>

definition arena_for :: "int \<Rightarrow> cstring \<Rightarrow> ('z pub_world_scheme, nat option) state" where
  "arena_for parent path = do {
     status \<leftarrow> sys_fstat parent;
     case status of
       None \<Rightarrow> ret None
     | Some st \<Rightarrow> do {
         shared \<leftarrow> gets (\<lambda>w. find (\<lambda>a. ar_refs a \<noteq> 0 \<and> \<not> ar_retained a
                                      \<and> same st (ar_parent_id a)) (g_arenas w));
         case shared of
           Some a \<Rightarrow> do {
             close_fd parent;
             update_arena (ar_id a) (\<lambda>b. b\<lparr>ar_refs := ar_refs b + 1\<rparr>);
             ret (Some (ar_id a))
           }
         | None \<Rightarrow> arena_new parent st path
       }
   }"

definition own_arena_name :: "int \<Rightarrow> cstring \<Rightarrow> ('z pub_world_scheme, bool) state" where
  "own_arena_name parent name = do {
     status \<leftarrow> sys_fstat parent;
     case status of
       None \<Rightarrow> ret False
     | Some st \<Rightarrow> gets (\<lambda>w. \<exists>a \<in> set (g_arenas w). ar_refs a \<noteq> 0 \<and> \<not> ar_retained a
         \<and> same st (ar_parent_id a) \<and> name = ar_name a)
   }"

section \<open>Describing a place for recovery\<close>

definition msg_identity :: "stat option \<Rightarrow> cstring" where
  "msg_identity pinned = snprintf 128 (case pinned of
     Some s \<Rightarrow> ''directory device='' @ dec (st_dev s) @ '' inode='' @ dec (st_ino s)
   | None \<Rightarrow> ''directory identity unavailable'')"

definition msg_location :: "cstring option \<Rightarrow> cstring \<Rightarrow> cstring \<Rightarrow> stat option \<Rightarrow> cstring" where
  "msg_location observed last_known entry pinned = (case observed of
     Some path \<Rightarrow> path @ slash_if (entry \<noteq> [] \<and> (length path \<noteq> 1 \<or> hd path \<noteq> CHR ''/''))
       @ entry @ '' ('' @ msg_identity pinned @ '')''
   | None \<Rightarrow> ''current directory path unavailable; last-known spelling '' @ last_known
       @ slash_if (entry \<noteq> [] \<and> last_known \<noteq> ''/'') @ entry
       @ ''; directory may have moved; '' @ msg_identity pinned)"

text \<open>The host's answer for the descriptor, kept only when that spelling still names it.\<close>

definition landin_publication_describe_entry :: "int \<Rightarrow> cstring \<Rightarrow> cstring \<Rightarrow> nat
    \<Rightarrow> ('z world_scheme, bool \<times> cstring) state" where
  "landin_publication_describe_entry directory last_known entry room = do {
     pinned \<leftarrow> sys_fstat directory;
     h \<leftarrow> gets w_host;
     answer \<leftarrow> (if h = Linux \<or> h = Darwin \<and> pinned \<noteq> None then sys_fd_path directory else ret None);
     observed \<leftarrow> (case (pinned, answer) of
         (Some s, Some path) \<Rightarrow>
           if h = Linux \<and> PATH_MAX - 1 \<le> length path then ret None
           else do {
             fd \<leftarrow> sys_open path [O_RDONLY, O_DIRECTORY, O_NOFOLLOW, O_CLOEXEC];
             named \<leftarrow> (if fd < 0 then ret None else sys_fstat fd);
             close_if_open fd;
             ret (case named of Some n \<Rightarrow> if same n s then Some path else None | None \<Rightarrow> None)
           }
       | _ \<Rightarrow> ret None);
     ret (observed \<noteq> None, snprintf room (msg_location observed last_known entry pinned))
   }"

definition describe_recovery :: "arena \<Rightarrow> nat \<Rightarrow> ('z world_scheme, cstring) state" where
  "describe_recovery a room = do {
     (resolved, location) \<leftarrow> landin_publication_describe_entry (ar_recovery_fd a)
        (ar_recovery_path a) [] (PATH_MAX + 256);
     ret (snprintf room ((if resolved then ''observed current path '' else []) @ location
       @ '' (output parent device='' @ dec (st_dev (ar_parent_id a))
       @ '' inode='' @ dec (st_ino (ar_parent_id a)) @ '')''))
   }"

section \<open>Discovery of other workspaces\<close>

definition add_name :: "cstring list \<Rightarrow> cstring \<Rightarrow> ('z world_scheme, cstring list option) state" where
  "add_name names name = do {
     item \<leftarrow> alloc;
     copy \<leftarrow> (if item then alloc else ret False);
     ret (if copy then Some (name # names) else None)
   }"

definition numbered :: "cstring \<Rightarrow> cstring \<Rightarrow> bool" where
  "numbered name prefix \<longleftrightarrow> starts_with prefix name
     \<and> (let number = drop (length prefix) name in
        number \<noteq> [] \<and> length number \<le> 10 \<and> list_all is_digit number)"

text \<open>With \<open>live_producer\<close> unexplained entries are allowed, without it they are not.\<close>

fun entries_known_loop :: "cstring list \<Rightarrow> bool \<Rightarrow> cstring list \<Rightarrow> ('z world_scheme, bool) state" where
  "entries_known_loop names live_producer [] = do {
     set_errno EOK;
     item \<leftarrow> sys_readdir [];
     e \<leftarrow> get_errno;
     ret (e = EOK)
   }"
| "entries_known_loop names live_producer (n # ns) = do {
     set_errno EOK;
     item \<leftarrow> sys_readdir (n # ns);
     case item of
       None \<Rightarrow> do { e \<leftarrow> get_errno; ret (e = EOK) }
     | Some name \<Rightarrow>
         if is_dots name \<or> name \<in> set names \<or> live_producer
         then entries_known_loop names live_producer ns
         else ret False
   }"

definition entries_known :: "int \<Rightarrow> cstring \<Rightarrow> cstring list \<Rightarrow> bool \<Rightarrow> ('z world_scheme, bool) state" where
  "entries_known root directory names live_producer = do {
     fd \<leftarrow> sys_openat root directory [O_RDONLY, O_DIRECTORY, O_NOFOLLOW, O_CLOEXEC] 0;
     if fd < 0 then do { e \<leftarrow> get_errno; ret (e = ENOENT) }
     else do {
       listing \<leftarrow> sys_fdopendir fd;
       case listing of
         None \<Rightarrow> do { close_fd fd; ret False }
       | Some entries \<Rightarrow> do {
           known \<leftarrow> entries_known_loop names live_producer entries;
           close_fd fd;
           ret known
         }
     }
   }"

text \<open>Darwin only: a removed directory is taken for empty when it yields no entry at all and its
  name is still absent.\<close>

definition disconnected_workspace_empty :: "int \<Rightarrow> int \<Rightarrow> cstring \<Rightarrow> ('z world_scheme, bool) state" where
  "disconnected_workspace_empty root parent name = do {
     fd \<leftarrow> sys_dup root 0;
     if fd < 0 then ret False
     else do {
       contents \<leftarrow> sys_fdopendir fd;
       case contents of
         None \<Rightarrow> do { close_fd fd; ret False }
       | Some entries \<Rightarrow> do {
           set_errno EOK;
           item \<leftarrow> sys_readdir entries;
           e \<leftarrow> get_errno;
           closed \<leftarrow> sys_close fd;
           if item \<noteq> None \<or> e \<noteq> EOK \<or> closed \<noteq> 0 then ret False
           else do {
             barrier ''discovery-empty'' name;
             replacement \<leftarrow> sys_fstatat parent name;
             e2 \<leftarrow> get_errno;
             ret (replacement = None \<and> e2 = ENOENT)
           }
         }
     }
   }"

end
