(* ===== verification/PublicationJournal.thy ===== *)
theory PublicationJournal
  imports PublicationArena
begin

text \<open>
  Model of the journal records of \<^verbatim>\<open>compiler/ada/src/platform/landin_publication.c\<close>: how a
  record names its target, how the workspaces of other processes are inspected through their
  records before an output of the same parent is prepared, how a publication writes its own
  record, and how the records and the arena are retired.
\<close>

section \<open>The record format\<close>

definition newline :: char where "newline = char_of (10 :: nat)"

definition journal_magic :: cstring where "journal_magic = ''LANDIN-PUBLICATION-1'' @ [newline]"
definition journal_end :: cstring where "journal_end = ''END-LANDIN-PUBLICATION-1'' @ [newline]"

text \<open>\<^verbatim>\<open>strtoul\<close> in base ten: white space, a sign, digits; the value and the text after them.\<close>

definition is_space :: "char \<Rightarrow> bool" where
  "is_space c \<longleftrightarrow> (let n = of_char c :: nat in n = 32 \<or> 9 \<le> n \<and> n \<le> 13)"

definition strtoul :: "cstring \<Rightarrow> nat \<times> cstring" where
  "strtoul s = (let s1 = dropWhile is_space s;
       neg = (s1 \<noteq> [] \<and> hd s1 = CHR ''-'');
       s2 = (if s1 \<noteq> [] \<and> (hd s1 = CHR ''-'' \<or> hd s1 = CHR ''+'') then tl s1 else s1);
       v = value_of 10 (takeWhile is_digit s2) in
     if takeWhile is_digit s2 = [] then (0, s)
     else (if 2 ^ 64 \<le> v then 2 ^ 64 - 1 else if neg then (2 ^ 64 - v) mod 2 ^ 64 else v,
           dropWhile is_digit s2))"

text \<open>The target a complete record names, or nothing when the record is refused.\<close>

definition record_target :: "bytes \<Rightarrow> cstring option" where
  "record_target bs =
     (if length bs < length journal_magic + length journal_end
         \<or> take (length journal_magic) bs \<noteq> journal_magic
         \<or> drop (length bs - length journal_end) bs \<noteq> journal_end
      then None
      else (case strtoul (drop (length journal_magic) bs) of (name_length, after) \<Rightarrow>
        if after = [] \<or> hd after \<noteq> newline
           \<or> length (tl after) < name_length \<or> name_length = 0
           \<or> CHR 0x00 \<in> set (take name_length (tl after))
           \<or> CHR ''/'' \<in> set (take name_length (tl after))
        then None else Some (take name_length (tl after))))"

definition journal_name :: "nat \<Rightarrow> cstring" where
  "journal_name token = snprintf 64 (''destination-'' @ dec token)"

definition building_name :: "nat \<Rightarrow> cstring" where
  "building_name token = snprintf 80 (''.destination-building-'' @ dec token)"

definition journal_text :: "arena \<Rightarrow> publication \<Rightarrow> cstring" where
  "journal_text a p = ''LANDIN-PUBLICATION-1'' @ [newline]
     @ dec (length (p_name p)) @ [newline] @ p_name p @ [newline]
     @ ''logical='' @ p_path p @ [newline] @ ''staged='' @ p_stage p @ [newline]
     @ ''previous='' @ ar_recovery_path a @ ''/'' @ p_recovery p @ [newline]
     @ ''captured-new='' @ ar_recovery_path a @ ''/''
     @ (case p_rollback p of Some r \<Rightarrow> r | None \<Rightarrow> []) @ [newline]
     @ ''expected='' @ (if p_absent p then ''absent'' else ''existing'')
     @ '' device='' @ dec (st_dev (p_expected p)) @ '' inode='' @ dec (st_ino (p_expected p))
     @ [newline] @ ''END-LANDIN-PUBLICATION-1'' @ [newline]"

section \<open>Inspecting a foreign workspace\<close>

text \<open>What one workspace's records explain: the names its stage and its recovery may hold, and
  whether one of its records is held under lease by a live producer.\<close>

record findings =
  fi_refused :: bool
  fi_live :: bool
  fi_stage :: "cstring list"
  fi_recovery :: "cstring list"

definition no_findings :: findings where
  "no_findings = \<lparr>fi_refused = False, fi_live = False, fi_stage = [], fi_recovery = []\<rparr>"

text \<open>A valid record for \<open>record_name\<close>: its names join the lists, its target is compared.\<close>

definition known_record :: "int \<Rightarrow> cstring \<Rightarrow> cstring \<Rightarrow> cstring \<Rightarrow> findings
    \<Rightarrow> ('z world_scheme, findings) state" where
  "known_record parent target name record_name fi = do {
     stage \<leftarrow> add_name (fi_stage fi) record_name;
     previous \<leftarrow> add_name (fi_recovery fi) (''.previous-'' @ take 10 (drop 12 name));
     let names1 = (case previous of None \<Rightarrow> fi_recovery fi | Some ns \<Rightarrow> ns) in do {
       rollback \<leftarrow> add_name names1 (''.rollback-'' @ take 10 (drop 12 name));
       let refused = (stage = None \<or> previous = None \<or> rollback = None \<or> record_name = target);
           fi2 = fi\<lparr>fi_stage := (case stage of None \<Rightarrow> fi_stage fi | Some ns \<Rightarrow> ns),
                   fi_recovery := (case rollback of None \<Rightarrow> names1 | Some ns \<Rightarrow> ns)\<rparr> in
       if refused then ret (fi2\<lparr>fi_refused := True\<rparr>)
       else do {
         alias_verdict \<leftarrow> landin_entry_names_alias parent (Some target) (Some record_name);
         if alias_verdict \<noteq> 0 then ret (fi2\<lparr>fi_refused := True\<rparr>)
         else do { barrier ''discovery-distinct'' record_name; ret fi2 }
       }
     }
   }"

definition inspect_record :: "int \<Rightarrow> cstring \<Rightarrow> int \<Rightarrow> cstring \<Rightarrow> findings
    \<Rightarrow> ('z world_scheme, findings) state" where
  "inspect_record parent target root name fi =
     (if is_dots name \<or> name = ''stage'' \<or> name = ''recovery'' then ret fi
      else if numbered name ''.destination-building-'' then do {
        temporary \<leftarrow> sys_fstatat root name;
        ret (case temporary of Some s \<Rightarrow> if S_ISREG s then fi else fi\<lparr>fi_refused := True\<rparr>
             | None \<Rightarrow> fi\<lparr>fi_refused := True\<rparr>)
      }
      else if \<not> numbered name ''destination-'' then ret (fi\<lparr>fi_refused := True\<rparr>)
      else do {
        fd \<leftarrow> sys_openat root name [O_RDONLY, O_NOFOLLOW, O_CLOEXEC, O_NONBLOCK] 0;
        record_id \<leftarrow> (if fd < 0 then ret None else sys_fstat fd);
        content \<leftarrow> (case record_id of
            Some s \<Rightarrow> if S_ISREG s then read_bytes fd else ret None
          | None \<Rightarrow> ret None);
        fi2 \<leftarrow> (case content of
            None \<Rightarrow> ret (fi\<lparr>fi_refused := True\<rparr>)
          | Some bs \<Rightarrow> (case record_target bs of
              None \<Rightarrow> ret (fi\<lparr>fi_refused := True\<rparr>)
            | Some record_name \<Rightarrow> known_record parent target name record_name fi));
        fi3 \<leftarrow> (if \<not> fi_refused fi2 \<and> 0 \<le> fd then do {
            lease \<leftarrow> sys_getlk fd;
            ret (if lease = Some True then fi2\<lparr>fi_live := True\<rparr> else fi2)
          } else ret fi2);
        close_if_open fd;
        ret fi3
      })"

fun inspect_records :: "int \<Rightarrow> cstring \<Rightarrow> int \<Rightarrow> cstring list \<Rightarrow> findings
    \<Rightarrow> ('z world_scheme, findings) state" where
  "inspect_records parent target root [] fi = do {
     set_errno EOK;
     item \<leftarrow> sys_readdir [];
     e \<leftarrow> get_errno;
     ret (if e \<noteq> EOK then fi\<lparr>fi_refused := True\<rparr> else fi)
   }"
| "inspect_records parent target root (n # ns) fi = do {
     set_errno EOK;
     item \<leftarrow> sys_readdir (n # ns);
     case item of
       None \<Rightarrow> do { e \<leftarrow> get_errno; ret (if e \<noteq> EOK then fi\<lparr>fi_refused := True\<rparr> else fi) }
     | Some name \<Rightarrow> do {
         fi2 \<leftarrow> inspect_record parent target root name fi;
         if fi_refused fi2 then ret fi2 else inspect_records parent target root ns fi2
       }
   }"

text \<open>
  The opened root of a workspace: vanished and empty (\<open>Inl\<close>), or its record stream, if it is
  still the directory of that name.
\<close>

definition workspace_records :: "int \<Rightarrow> int \<Rightarrow> cstring
    \<Rightarrow> ('z world_scheme, unit + (int \<times> cstring list) option) state" where
  "workspace_records parent root name = do {
     pinned \<leftarrow> sys_fstat root;
     case pinned of
       None \<Rightarrow> ret (Inr None)
     | Some ps \<Rightarrow>
         if \<not> S_ISDIR ps then ret (Inr None)
         else do {
           named \<leftarrow> sys_fstatat parent name;
           e \<leftarrow> get_errno;
           h \<leftarrow> gets w_host;
           let disconnected = (named = None \<and> e = ENOENT) in do {
             ignorable \<leftarrow> (if \<not> disconnected then ret False
               else if h = Darwin then disconnected_workspace_empty root parent name
               else ret (st_nlink ps = 0));
             if ignorable then ret (Inl ())
             else if (case named of None \<Rightarrow> False
                | Some ns \<Rightarrow> 0 < st_nlink ps \<and> S_ISDIR ns \<and> same ps ns)
             then do {
               record_fd \<leftarrow> sys_dup root 0;
               if record_fd < 0 then ret (Inr None)
               else do {
                 listing \<leftarrow> sys_fdopendir record_fd;
                 case listing of
                   None \<Rightarrow> do { close_fd record_fd; ret (Inr None) }
                 | Some names \<Rightarrow> ret (Inr (Some (record_fd, names)))
               }
             }
             else ret (Inr None)
           }
         }
   }"

definition msg_foreign :: "cstring \<Rightarrow> cstring \<Rightarrow> cstring \<Rightarrow> cstring" where
  "msg_foreign target parent_path name = ''retained or active publication for '' @ target
     @ '' in '' @ parent_path @ ''/'' @ name
     @ ''; inspect its destination records and recover the previous or new output before retrying''"

definition inspect_workspace :: "int \<Rightarrow> cstring \<Rightarrow> int \<Rightarrow> (int \<times> cstring list) option
    \<Rightarrow> ('z world_scheme, bool) state" where
  "inspect_workspace parent target root records = (case records of
     None \<Rightarrow> ret True
   | Some (record_fd, names) \<Rightarrow> do {
       fi \<leftarrow> inspect_records parent target root names no_findings;
       staged \<leftarrow> (if fi_refused fi then ret False
                 else entries_known root ''stage'' (fi_stage fi) (fi_live fi));
       explained \<leftarrow> (if staged then entries_known root ''recovery'' (fi_recovery fi) False
                    else ret False);
       close_fd record_fd;
       ret (\<not> explained)
     })"

text \<open>One entry of the parent: true when it refuses the new output.\<close>

definition inspect_entry :: "int \<Rightarrow> cstring \<Rightarrow> cstring \<Rightarrow> nat \<Rightarrow> cstring
    \<Rightarrow> ('z pub_world_scheme, bool) state" where
  "inspect_entry parent parent_path target room name =
     (if \<not> starts_with stage_marker name then ret False
      else do {
        own \<leftarrow> own_arena_name parent name;
        if own then ret False
        else do {
          root \<leftarrow> sys_openat parent name [O_RDONLY, O_DIRECTORY, O_NOFOLLOW, O_CLOEXEC] 0;
          e \<leftarrow> get_errno;
          if root < 0 \<and> e = ENOENT then ret False
          else do {
            (if 0 \<le> root then barrier ''discovery-opened'' target else ret ());
            locked \<leftarrow> (if root < 0 then ret (-1) else sys_flock root);
            found \<leftarrow> (if locked = 0 then workspace_records parent root name else ret (Inr None));
            case found of
              Inl _ \<Rightarrow> do { sys_flock root; close_fd root; ret False }
            | Inr records \<Rightarrow> do {
                refused \<leftarrow> inspect_workspace parent target root records;
                (if 0 \<le> root then do { sys_flock root; close_fd root } else ret ());
                (if refused then reason room (msg_foreign target parent_path name) else ret ());
                ret refused
              }
          }
        }
      })"

text \<open>The scan of the parent: whether it refuses, and whether it was an entry that did.\<close>

fun inspect_parent :: "int \<Rightarrow> cstring \<Rightarrow> cstring \<Rightarrow> nat \<Rightarrow> cstring list
    \<Rightarrow> ('z pub_world_scheme, bool \<times> bool) state" where
  "inspect_parent parent parent_path target room [] = do {
     set_errno EOK;
     item \<leftarrow> sys_readdir [];
     e \<leftarrow> get_errno;
     ret (e \<noteq> EOK, False)
   }"
| "inspect_parent parent parent_path target room (n # ns) = do {
     set_errno EOK;
     item \<leftarrow> sys_readdir (n # ns);
     case item of
       None \<Rightarrow> do { e \<leftarrow> get_errno; ret (e \<noteq> EOK, False) }
     | Some name \<Rightarrow> do {
         refused \<leftarrow> inspect_entry parent parent_path target room name;
         if refused then ret (True, True)
         else inspect_parent parent parent_path target room ns
       }
   }"

text \<open>The active publications of the same parent that the target may be the same entry as.\<close>

definition arena_of :: "arena list \<Rightarrow> publication \<Rightarrow> arena option" where
  "arena_of as p = find (\<lambda>a. ar_id a = p_arena p) as"

fun reserved_by :: "int \<Rightarrow> cstring \<Rightarrow> stat \<Rightarrow> publication list
    \<Rightarrow> ('z pub_world_scheme, publication option) state" where
  "reserved_by parent target parent_id [] = ret None"
| "reserved_by parent target parent_id (p # ps) = do {
     a \<leftarrow> gets (\<lambda>w. arena_of (g_arenas w) p);
     if (case a of None \<Rightarrow> False | Some ar \<Rightarrow> ar_refs ar \<noteq> 0 \<and> same parent_id (ar_parent_id ar))
     then do {
       alias_verdict \<leftarrow> landin_entry_names_alias parent (Some target) (Some (p_name p));
       if alias_verdict \<noteq> 0 then ret (Some p) else reserved_by parent target parent_id ps
     }
     else reserved_by parent target parent_id ps
   }"

definition msg_retained :: "cstring \<Rightarrow> cstring" where
  "msg_retained location = ''retained publication recovery directory '' @ location
     @ ''; inspect it before preparing more outputs in this parent''"
definition msg_reserved :: "cstring \<Rightarrow> cstring \<Rightarrow> cstring" where
  "msg_reserved target path = ''output '' @ target
     @ '' is reserved by or cannot be proved separate from active publication '' @ path
     @ ''; check paths and retry after that transaction completes''"
definition msg_uninspectable :: "cstring \<Rightarrow> cstring" where
  "msg_uninspectable parent_path = ''cannot inspect retained publication entries in '' @ parent_path
     @ ''; retry after checking the output directory''"

definition retained_workspace :: "int \<Rightarrow> cstring \<Rightarrow> cstring \<Rightarrow> nat
    \<Rightarrow> ('z pub_world_scheme, int) state" where
  "retained_workspace parent parent_path target room = do {
     status \<leftarrow> sys_fstat parent;
     case status of
       None \<Rightarrow> ret (-1)
     | Some parent_id \<Rightarrow> do {
         kept \<leftarrow> gets (\<lambda>w. find (\<lambda>a. ar_retained a \<and> same parent_id (ar_parent_id a)) (g_arenas w));
         case kept of
           Some a \<Rightarrow> do {
             location \<leftarrow> describe_recovery a (PATH_MAX + 256);
             reason room (msg_retained location);
             fail_with EBUSY
           }
         | None \<Rightarrow> do {
             ps \<leftarrow> gets g_publications;
             owner \<leftarrow> reserved_by parent target parent_id ps;
             case owner of
               Some p \<Rightarrow> do { reason room (msg_reserved target (p_path p)); fail_with EBUSY }
             | None \<Rightarrow> do {
                 directory \<leftarrow> sys_dup parent 0;
                 listing \<leftarrow> sys_fdopendir directory;
                 case listing of
                   None \<Rightarrow> ret (-1)
                 | Some names \<Rightarrow> do {
                     (refused, entry) \<leftarrow> inspect_parent parent parent_path target room names;
                     (if refused \<and> \<not> entry then reason room (msg_uninspectable parent_path)
                      else ret ());
                     close_fd directory;
                     ret (if refused then -1 else 0)
                   }
               }
           }
       }
   }"

section \<open>Writing the journal\<close>

text \<open>Sealing: under the root's lock the finished record takes its name, and the root is synced.\<close>

definition seal_journal :: "int \<Rightarrow> cstring \<Rightarrow> cstring \<Rightarrow> ('z world_scheme, int option) state" where
  "seal_journal root building journal = do {
     locked \<leftarrow> sys_flock root;
     if locked \<noteq> 0 then ret None
     else do {
       moved \<leftarrow> no_replace root building root journal False;
       result \<leftarrow> (if moved \<noteq> 0 then ret moved
         else do {
           synced \<leftarrow> sys_fsync root;
           e \<leftarrow> get_errno;
           ret (if synced \<noteq> 0 \<and> e \<noteq> EINVAL then -1 else 0)
         });
       e \<leftarrow> get_errno;
       sys_flock root;
       set_errno e;
       ret (Some result)
     }
   }"

text \<open>
  The record is written under a building name, synced, leased when it is the arena's first, and
  only then named; the publication comes back with the record's name and identity.
\<close>

definition write_journal :: "publication \<Rightarrow> ('z pub_world_scheme, int \<times> publication) state" where
  "write_journal p0 = do {
     found \<leftarrow> find_arena (p_arena p0);
     case found of
       None \<Rightarrow> ret (-1, p0)
     | Some a \<Rightarrow> (let p1 = p0\<lparr>p_journal := journal_name (p_token p0)\<rparr>;
                     building = building_name (p_token p0) in do {
         fd \<leftarrow> sys_openat (ar_root_fd a) building
                [O_WRONLY, O_CREAT, O_EXCL, O_NOFOLLOW, O_CLOEXEC] 384;
         if fd < 0 then ret (-1, p1)
         else do {
           barrier ''journal-building'' (p_path p1);
           wrote \<leftarrow> State (write_fully False fd (journal_text a p1));
           st \<leftarrow> (if wrote then sys_fstat fd else ret None);
           let p2 = (case st of None \<Rightarrow> p1 | Some s \<Rightarrow> p1\<lparr>p_journal_id := s\<rparr>);
               first = (ar_producer_fd a < 0) in do {
             synced \<leftarrow> (if st = None then ret (-1) else sys_fsync fd);
             leased \<leftarrow> (if synced = 0 \<and> first then sys_setlk fd else ret synced);
             sealed \<leftarrow> (if leased = 0 then seal_journal (ar_root_fd a) building (p_journal p2)
                       else ret (Some leased));
             case sealed of
               None \<Rightarrow> do { close_fd fd; ret (-1, p2) }
             | Some result \<Rightarrow> do {
                 (if result = 0 \<and> first
                  then update_arena (p_arena p2) (\<lambda>b. b\<lparr>ar_producer_fd := fd\<rparr>)
                  else do { e \<leftarrow> get_errno; close_fd fd; set_errno e });
                 (if result = 0 then barrier ''journal-ready'' (p_path p2) else ret ());
                 ret (if result < 0 then -1 else 0, p2)
               }
           }
         }
       })
   }"

section \<open>Retirement\<close>

fun journals_intact :: "int \<Rightarrow> publication list \<Rightarrow> ('z world_scheme, bool) state" where
  "journals_intact root_fd [] = ret True"
| "journals_intact root_fd (p # ps) =
     (if \<not> p_finished p then ret False
      else do {
        st \<leftarrow> sys_fstatat root_fd (p_journal p);
        if (case st of None \<Rightarrow> True | Some s \<Rightarrow> \<not> same s (p_journal_id p)) then ret False
        else journals_intact root_fd ps
      })"

fun unlink_journals :: "int \<Rightarrow> publication list \<Rightarrow> ('z world_scheme, int) state" where
  "unlink_journals root_fd [] = ret 0"
| "unlink_journals root_fd (p # ps) = do {
     r \<leftarrow> sys_unlinkat root_fd (p_journal p) False;
     if r \<noteq> 0 then ret (-1) else unlink_journals root_fd ps
   }"

definition finish_journals :: "arena \<Rightarrow> ('z pub_world_scheme, int) state" where
  "finish_journals a = do {
     ps \<leftarrow> gets (\<lambda>w. filter (\<lambda>p. p_arena p = ar_id a) (g_publications w));
     intact \<leftarrow> journals_intact (ar_root_fd a) ps;
     if \<not> intact then fail_with EAGAIN else unlink_journals (ar_root_fd a) ps
   }"

definition tree_list :: "tree_entry option \<Rightarrow> tree_entry list" where
  "tree_list t = (case t of None \<Rightarrow> [] | Some e \<Rightarrow> [e])"

fun free_publications :: "publication list \<Rightarrow> ('z world_scheme, unit) state" where
  "free_publications [] = ret ()"
| "free_publications (p # ps) = do {
     close_if_open (p_expected_fd p);
     free_tree (tree_list (p_expected_tree p));
     free_tree (tree_list (p_fresh_tree p));
     free_publications ps
   }"

definition free_finished_arena :: "arena \<Rightarrow> ('z pub_world_scheme, unit) state" where
  "free_finished_arena a = do {
     ps \<leftarrow> gets (\<lambda>w. filter (\<lambda>p. p_arena p = ar_id a) (g_publications w));
     modify (\<lambda>w. w\<lparr>g_publications := filter (\<lambda>p. p_arena p \<noteq> ar_id a) (g_publications w)\<rparr>);
     free_publications ps;
     modify (\<lambda>w. w\<lparr>g_arenas := filter (\<lambda>b. ar_id b \<noteq> ar_id a) (g_arenas w)\<rparr>);
     close_fd (ar_private_fd a);
     close_fd (ar_recovery_fd a);
     close_fd (ar_root_fd a);
     close_fd (ar_parent a);
     close_if_open (ar_producer_fd a)
   }"

end
