(* ===== verification/PublicationStep.thy ===== *)
theory PublicationStep
  imports PublicationJournal
begin

text \<open>
  Model of \<^verbatim>\<open>landin_publication_open_locked\<close> and \<^verbatim>\<open>landin_publication_step_locked\<close> of
  \<^verbatim>\<open>compiler/ada/src/platform/landin_publication.c\<close>: a publication is opened on one output, and
  the transaction above drives it through the actions Validate (0), Capture (1), Install (2),
  Restore (3) and Finish (4). The public functions take the registry's mutex around these.

  The record of a publication is read from the registry at the start of a step; every
  assignment of the code to one of its fields writes the registry again.
\<close>

section \<open>Opening\<close>

definition msg_absence :: "cstring \<Rightarrow> cstring" where
  "msg_absence path = ''cannot prepare '' @ path
     @ '': destination exists but absence was required; choose another output or restart with its existing contents preserved''"
definition msg_workspace_kept :: "cstring \<Rightarrow> cstring \<Rightarrow> cstring \<Rightarrow> cstring" where
  "msg_workspace_kept path failure location = ''cannot prepare '' @ path @ '': '' @ failure
     @ ''; retained publication workspace '' @ location
     @ ''; inspect its stage, recovery and destination records before retrying''"
definition msg_unprepared :: "cstring \<Rightarrow> cstring \<Rightarrow> cstring" where
  "msg_unprepared path failure = ''cannot prepare '' @ path @ '': '' @ failure
     @ ''; choose an ordinary output root''"

definition publication_zero :: publication where
  "publication_zero = \<lparr>p_token = 0, p_absent = False, p_deletion = False, p_captured = False,
     p_installed = False, p_unchanged = False, p_finished = False, p_rollback_pending = False,
     p_expected_fd = -1, p_capture_valid = False, p_finish_failed = False, p_journal = [],
     p_journal_id = zero_stat, p_arena = 0, p_anchor = None, p_path = [], p_name = [],
     p_stage = [], p_recovery = [], p_rollback = None, p_expected = zero_stat,
     p_fresh = zero_stat, p_bytes = None, p_expected_tree = None, p_fresh_tree = None\<rparr>"

text \<open>The label \<open>fail\<close>. With an arena its whole workspace is kept and named.\<close>

definition open_fail :: "publication \<Rightarrow> nat option \<Rightarrow> int \<Rightarrow> int \<Rightarrow> bool \<Rightarrow> cstring \<Rightarrow> nat
    \<Rightarrow> ('z pub_world_scheme, int \<times> nat \<times> cstring) state" where
  "open_fail p in_arena fd parent conflict path room = do {
     failure \<leftarrow> get_errno;
     strerror \<leftarrow> gets w_strerror;
     (if conflict then reason room (msg_absence path)
      else (case in_arena of
          None \<Rightarrow> reason room (msg_unprepared path (strerror failure))
        | Some k \<Rightarrow> do {
            quarantine k;
            found \<leftarrow> find_arena k;
            case found of
              None \<Rightarrow> ret ()
            | Some a \<Rightarrow> do {
                (resolved, location) \<leftarrow> landin_publication_describe_entry (ar_root_fd a)
                  (snprintf (PATH_MAX + 80) (take (length (ar_path a) - 6) (ar_path a))) []
                  (PATH_MAX + 256);
                reason room (msg_workspace_kept path (strerror failure) location)
              }
          }));
     set_errno failure;
     close_if_open fd;
     close_if_open parent;
     release_anchor p;
     close_if_open (p_expected_fd p);
     free_tree (tree_list (p_expected_tree p));
     free_tree (tree_list (p_fresh_tree p));
     ret (-1, 0, [])
   }"

text \<open>
  What stands at the destination: nothing, a directory whose tree is kept, or a regular file
  whose bytes and descriptor are kept. The result says whether it was understood, whether
  demanded absence was violated, and which descriptor is still to be closed.
\<close>

definition observe_expected :: "publication \<Rightarrow> int \<Rightarrow> bool
    \<Rightarrow> ('z world_scheme, bool \<times> bool \<times> int \<times> publication) state" where
  "observe_expected p parent require_absent = do {
     status \<leftarrow> sys_fstatat parent (p_name p);
     case status of
       None \<Rightarrow> do {
         e \<leftarrow> get_errno;
         ret (if e = ENOENT then (True, False, -1, p\<lparr>p_absent := True\<rparr>) else (False, False, -1, p))
       }
     | Some s \<Rightarrow> (let p1 = p\<lparr>p_expected := s\<rparr> in
         if require_absent then do { set_errno EEXIST; ret (False, True, -1, p1) }
         else if S_ISDIR s then do {
           tree \<leftarrow> snapshot parent (p_name p);
           ret (tree \<noteq> None, False, -1, p1\<lparr>p_expected_tree := tree\<rparr>)
         }
         else if \<not> S_ISREG s then do { set_errno ELOOP; ret (False, False, -1, p1) }
         else do {
           fd \<leftarrow> sys_openat parent (p_name p) [O_RDONLY, O_NOFOLLOW, O_CLOEXEC] 0;
           actual \<leftarrow> (if fd < 0 then ret None else sys_fstat fd);
           if (case actual of None \<Rightarrow> True | Some t \<Rightarrow> \<not> same t s)
           then do { set_errno EAGAIN; ret (False, False, fd, p1) }
           else do {
             bs \<leftarrow> read_bytes fd;
             case bs of
               None \<Rightarrow> ret (False, False, fd, p1)
             | Some b \<Rightarrow> ret (True, False, -1, p1\<lparr>p_bytes := Some b, p_expected_fd := fd\<rparr>)
           }
         })
   }"

text \<open>The names of a publication in its arena, and its registration.\<close>

definition enter_arena :: "publication \<Rightarrow> nat \<Rightarrow> bool \<Rightarrow> cstring \<Rightarrow> nat \<Rightarrow> nat
    \<Rightarrow> ('z pub_world_scheme, int \<times> nat \<times> cstring) state" where
  "enter_arena p k deletion path stage_room room = do {
     barrier ''arena-ready'' (p_path p);
     token \<leftarrow> gets g_next_token;
     modify (\<lambda>w. w\<lparr>g_next_token := Suc token\<rparr>);
     room1 \<leftarrow> alloc;
     room2 \<leftarrow> alloc;
     room3 \<leftarrow> alloc;
     found \<leftarrow> find_arena k;
     (let stage = (case found of None \<Rightarrow> [] | Some a \<Rightarrow> ar_path a @ ''/'' @ p_name p);
          p1 = p\<lparr>p_token := token, p_deletion := deletion, p_arena := k\<rparr>;
          p2 = p1\<lparr>p_stage := stage,
                  p_recovery := snprintf 40 (''.previous-'' @ dec token),
                  p_rollback := Some (snprintf 40 (''.rollback-'' @ dec token))\<rparr> in
      if \<not> room1 \<or> \<not> room2 \<or> \<not> room3 then open_fail p1 (Some k) (-1) (-1) False path room
      else if stage_room \<le> length stage
      then do { set_errno ENAMETOOLONG; open_fail p2 (Some k) (-1) (-1) False path room }
      else do {
        (written, p3) \<leftarrow> write_journal p2;
        if written \<noteq> 0 then open_fail p3 (Some k) (-1) (-1) False path room
        else do {
          modify (\<lambda>w. w\<lparr>g_publications := p3 # g_publications w\<rparr>);
          reason room [];
          ret (0, token, stage)
        }
      })
   }"

text \<open>
  The flags are DELETE_ONLY (1) and REQUIRE_ABSENT (2). The result comes with the token and the
  stage path, zero and empty on a failure.
\<close>

definition landin_publication_open_locked :: "cstring \<Rightarrow> nat \<Rightarrow> cstring \<Rightarrow> nat \<Rightarrow> nat
    \<Rightarrow> ('z pub_world_scheme, int \<times> nat \<times> cstring) state" where
  "landin_publication_open_locked path flags root stage_room room =
     (let require_absent = (flags div 2 mod 2 = 1); deletion = (flags mod 2 = 1);
          fail = (\<lambda>p fd parent conflict. open_fail p None fd parent conflict path room) in do {
       made \<leftarrow> alloc;
       if \<not> made then do {
         failure \<leftarrow> get_errno;
         strerror \<leftarrow> gets w_strerror;
         reason room (msg_unprepared path (strerror failure));
         set_errno failure;
         ret (-1, 0, [])
       }
       else if 4 \<le> flags then do { set_errno EINVAL; fail publication_zero (-1) (-1) False }
       else do {
         cancelled \<leftarrow> cancellation_requested;
         if cancelled then do { set_errno EINTR; fail publication_zero (-1) (-1) False }
         else do {
           copy \<leftarrow> alloc;
           (parent, parent_path, name, held) \<leftarrow> parent_for path root require_absent;
           (let p = publication_zero\<lparr>p_path := (if copy then path else ''(null)''),
                                     p_name := name, p_anchor := held\<rparr> in
            if parent < 0 then fail p (-1) (-1) False
            else do {
              kept \<leftarrow> retained_workspace parent parent_path name room;
              if kept \<noteq> 0 then do { release_anchor p; close_fd parent; ret (-1, 0, []) }
              else do {
                barrier ''before-snapshot'' (p_path p);
                (understood, conflict, fd, p1) \<leftarrow> observe_expected p parent require_absent;
                if \<not> understood then fail p1 fd parent conflict
                else do {
                  shared \<leftarrow> arena_for parent parent_path;
                  case shared of
                    None \<Rightarrow> fail p1 (-1) parent False
                  | Some k \<Rightarrow> enter_arena p1 k deletion path stage_room room
                }
              }
            })
         }
       }
     })"

section \<open>Comparison and protection\<close>

definition matches_bytes :: "int \<Rightarrow> cstring \<Rightarrow> bytes option \<Rightarrow> ('z world_scheme, bool) state" where
  "matches_bytes fd name expected = do {
     file \<leftarrow> sys_openat fd name [O_RDONLY, O_NOFOLLOW, O_CLOEXEC, O_NONBLOCK] 0;
     if file < 0 then ret False
     else do {
       actual \<leftarrow> read_bytes file;
       close_fd file;
       ret (actual \<noteq> None \<and> actual = expected)
     }
   }"

fun protected_path :: "stat \<Rightarrow> cstring list \<Rightarrow> ('z world_scheme, bool) state" where
  "protected_path st [] = ret False"
| "protected_path st (path # paths) = do {
     input \<leftarrow> sys_stat path;
     if (case input of None \<Rightarrow> False | Some i \<Rightarrow> same st i) then ret True
     else protected_path st paths
   }"

definition protected_object :: "stat \<Rightarrow> cstring list \<Rightarrow> oid list \<Rightarrow> ('z world_scheme, bool) state" where
  "protected_object st paths ids =
     (if (st_dev st, st_ino st) \<in> set ids then ret True else protected_path st paths)"

fun protected_tree :: "tree_entry list \<Rightarrow> cstring list \<Rightarrow> oid list \<Rightarrow> ('z world_scheme, bool) state" where
  "protected_tree [] paths ids = ret False"
| "protected_tree (Entry n identity fd b children # siblings) paths ids = do {
     here \<leftarrow> protected_object identity paths ids;
     if here then ret True
     else do {
       below \<leftarrow> protected_tree children paths ids;
       if below then ret True else protected_tree siblings paths ids
     }
   }"

section \<open>The steps\<close>

definition msg_stale_directory :: "cstring \<Rightarrow> cstring" where
  "msg_stale_directory path = path @ '' is a directory, not a stale generated file; choose another output''"
definition kind_text :: "bool \<Rightarrow> cstring" where
  "kind_text dir = (if dir then ''a directory'' else ''a regular file'')"
definition msg_kind_conflict :: "cstring \<Rightarrow> bool \<Rightarrow> bool \<Rightarrow> cstring" where
  "msg_kind_conflict path expected fresh = path @ '' is '' @ kind_text expected
     @ '', but the generated artifact is '' @ kind_text fresh @ ''; choose another output''"
definition msg_protected :: "cstring \<Rightarrow> cstring" where
  "msg_protected path = path @ '' aliases a protected input name; choose another output''"
definition msg_changed :: "cstring \<Rightarrow> cstring \<Rightarrow> cstring \<Rightarrow> cstring" where
  "msg_changed path location recovery = path
     @ '' changed or aliases an input; rerun or choose another output; recovery directory ''
     @ location @ ''; previous entry '' @ recovery"
definition msg_retained_cleanup :: "cstring \<Rightarrow> cstring" where
  "msg_retained_cleanup location = ''retained publication recovery directory '' @ location
     @ ''; inspect it before retrying cleanup''"
definition msg_retained_error :: "cstring \<Rightarrow> cstring \<Rightarrow> cstring" where
  "msg_retained_error location failure = ''retained publication directory '' @ location @ '': '' @ failure"
definition msg_failed :: "publication \<Rightarrow> cstring \<Rightarrow> cstring \<Rightarrow> cstring" where
  "msg_failed p failure location = ''publication of '' @ p_path p @ '' failed: '' @ failure
     @ ''; recovery directory '' @ location @ ''; previous entry '' @ p_recovery p
     @ ''; captured new or concurrent entry '' @ (case p_rollback p of None \<Rightarrow> [] | Some r \<Rightarrow> r)"

text \<open>The label \<open>fail\<close> of a step: a failed Restore or Finish quarantines the arena.\<close>

definition step_fail :: "publication \<Rightarrow> arena \<Rightarrow> int \<Rightarrow> nat \<Rightarrow> ('z pub_world_scheme, int) state" where
  "step_fail p a action room = do {
     error \<leftarrow> get_errno;
     strerror \<leftarrow> gets w_strerror;
     (if action = 3 \<or> action = 4 then quarantine (ar_id a) else ret ());
     now \<leftarrow> lookup (p_token p);
     (if action = 4 \<and> (case now of None \<Rightarrow> False | Some q \<Rightarrow> p_finished q)
      then update_publication (p_token p) (\<lambda>q. q\<lparr>p_finish_failed := True\<rparr>) else ret ());
     location \<leftarrow> describe_recovery a (PATH_MAX + 256);
     reason room (msg_failed p (strerror error) location);
     ret (-1)
   }"

definition validate_regular :: "publication \<Rightarrow> arena \<Rightarrow> nat \<Rightarrow> ('z pub_world_scheme, int) state" where
  "validate_regular p a room = do {
     fd \<leftarrow> sys_openat (ar_private_fd a) (p_name p) [O_RDWR, O_NOFOLLOW, O_CLOEXEC] 0;
     if fd < 0 then step_fail p a 0 room
     else do {
       synced \<leftarrow> sys_fsync fd;
       close_fd fd;
       if synced \<noteq> 0 then step_fail p a 0 room
       else do {
         unchanged \<leftarrow> (if p_absent p then ret False
           else matches_bytes (ar_private_fd a) (p_name p) (p_bytes p));
         update_publication (p_token p) (\<lambda>q. q\<lparr>p_unchanged := unchanged\<rparr>);
         barrier ''validated'' (p_path p);
         ret 0
       }
     }
   }"

definition validate_directory :: "publication \<Rightarrow> arena \<Rightarrow> nat \<Rightarrow> ('z pub_world_scheme, int) state" where
  "validate_directory p a room = do {
     tree \<leftarrow> snapshot (ar_private_fd a) (p_name p);
     update_publication (p_token p) (\<lambda>q. q\<lparr>p_fresh_tree := tree\<rparr>);
     case tree of
       None \<Rightarrow> step_fail p a 0 room
     | Some fresh \<Rightarrow> do {
         update_publication (p_token p) (\<lambda>q. q\<lparr>p_unchanged :=
           (case p_expected_tree p of None \<Rightarrow> False | Some e \<Rightarrow> equal_tree False e fresh)\<rparr>);
         barrier ''validated'' (p_path p);
         ret 0
       }
   }"

definition step_validate :: "publication \<Rightarrow> arena \<Rightarrow> nat \<Rightarrow> ('z pub_world_scheme, int) state" where
  "step_validate p a room =
     (if p_deletion p then
        (if \<not> p_absent p \<and> \<not> S_ISREG (p_expected p)
         then do { reason room (msg_stale_directory (p_path p)); ret (-1) }
         else ret 0)
      else do {
        status \<leftarrow> sys_fstatat (ar_private_fd a) (p_name p);
        case status of
          None \<Rightarrow> step_fail p a 0 room
        | Some fresh \<Rightarrow> do {
            update_publication (p_token p) (\<lambda>q. q\<lparr>p_fresh := fresh\<rparr>);
            if \<not> S_ISREG fresh \<and> \<not> S_ISDIR fresh then step_fail p a 0 room
            else if \<not> p_absent p \<and> S_ISDIR (p_expected p) \<noteq> S_ISDIR fresh then do {
              tree \<leftarrow> (if S_ISDIR fresh then snapshot (ar_private_fd a) (p_name p) else ret None);
              (if S_ISDIR fresh
               then update_publication (p_token p) (\<lambda>q. q\<lparr>p_fresh_tree := tree\<rparr>) else ret ());
              if S_ISDIR fresh \<and> tree = None then step_fail p a 0 room
              else do {
                reason room (msg_kind_conflict (p_path p) (S_ISDIR (p_expected p)) (S_ISDIR fresh));
                ret (-1)
              }
            }
            else if S_ISREG fresh then validate_regular p a room
            else validate_directory p a room
          }
      })"

text \<open>Capture: the public entry is moved into the recovery slot, then judged there.\<close>

definition judge_captured :: "publication \<Rightarrow> arena \<Rightarrow> cstring list \<Rightarrow> oid list
    \<Rightarrow> ('z world_scheme, bool) state" where
  "judge_captured p a paths ids = do {
     status \<leftarrow> sys_fstatat (ar_recovery_fd a) (p_recovery p);
     case status of
       None \<Rightarrow> ret False
     | Some st \<Rightarrow>
         if p_absent p \<or> \<not> same st (p_expected p) then ret False
         else do {
           guarded \<leftarrow> protected_object st paths ids;
           if guarded then ret False
           else do {
             equal \<leftarrow> (if S_ISREG st
               then matches_bytes (ar_recovery_fd a) (p_recovery p) (p_bytes p) else ret True);
             ret (equal \<and> (S_ISREG st \<or> S_ISDIR st))
           }
         }
   }"

definition judge_captured_tree :: "publication \<Rightarrow> arena \<Rightarrow> cstring list \<Rightarrow> oid list
    \<Rightarrow> ('z world_scheme, bool) state" where
  "judge_captured_tree p a paths ids = (case p_expected_tree p of
     None \<Rightarrow> ret True
   | Some expected \<Rightarrow> do {
       captured \<leftarrow> snapshot (ar_recovery_fd a) (p_recovery p);
       matches \<leftarrow> (case captured of
           None \<Rightarrow> ret False
         | Some c \<Rightarrow>
             if equal_tree True expected c
             then do { guarded \<leftarrow> protected_tree [c] paths ids; ret (\<not> guarded) }
             else ret False);
       free_tree (tree_list captured);
       ret matches
     })"

definition step_capture :: "publication \<Rightarrow> arena \<Rightarrow> cstring list \<Rightarrow> oid list \<Rightarrow> nat
    \<Rightarrow> ('z pub_world_scheme, int) state" where
  "step_capture p a paths ids room =
     (if p_captured p \<or> p_installed p \<or> p_rollback_pending p
      then do { set_errno EALREADY; step_fail p a 1 room }
      else do {
        overlap \<leftarrow> (if paths = [] then ret False else landin_overlaps_any (p_path p) paths);
        if overlap then do { reason room (msg_protected (p_path p)); ret (-1) }
        else do {
          barrier ''before-capture'' (p_path p);
          moved \<leftarrow> sys_renameat (ar_parent a) (p_name p) (ar_recovery_fd a) (p_recovery p);
          e \<leftarrow> get_errno;
          if moved \<noteq> 0 then (if e = ENOENT \<and> p_absent p then ret 0 else step_fail p a 1 room)
          else do {
            update_publication (p_token p) (\<lambda>q. q\<lparr>p_captured := True\<rparr>);
            barrier ''captured'' (p_path p);
            accepted \<leftarrow> judge_captured p a paths ids;
            if \<not> accepted then do {
              location \<leftarrow> describe_recovery a (PATH_MAX + 256);
              reason room (msg_changed (p_path p) location (p_recovery p));
              ret (-1)
            }
            else do {
              matches \<leftarrow> judge_captured_tree p a paths ids;
              if \<not> matches then do { set_errno EAGAIN; step_fail p a 1 room }
              else do {
                update_publication (p_token p) (\<lambda>q. q\<lparr>p_capture_valid := True\<rparr>);
                ret 0
              }
            }
          }
        }
      })"

text \<open>Install: an unchanged output gets its previous entry back, a new one replaces nothing.\<close>

definition step_install :: "publication \<Rightarrow> arena \<Rightarrow> nat \<Rightarrow> ('z pub_world_scheme, int) state" where
  "step_install p a room =
     (if p_deletion p then ret 0
      else do {
        barrier ''before-install'' (p_path p);
        if p_unchanged p then do {
          moved \<leftarrow> no_replace (ar_recovery_fd a) (p_recovery p) (ar_parent a) (p_name p)
                     (S_ISDIR (p_expected p));
          if moved \<noteq> 0 then step_fail p a 2 room
          else do { update_publication (p_token p) (\<lambda>q. q\<lparr>p_captured := False\<rparr>); ret 0 }
        }
        else do {
          status \<leftarrow> sys_fstatat (ar_private_fd a) (p_name p);
          if (case status of None \<Rightarrow> True | Some st \<Rightarrow> \<not> same st (p_fresh p))
          then do { set_errno EAGAIN; step_fail p a 2 room }
          else do {
            moved \<leftarrow> no_replace (ar_private_fd a) (p_name p) (ar_parent a) (p_name p)
                       (S_ISDIR (p_fresh p));
            if moved \<noteq> 0 then step_fail p a 2 room
            else do {
              update_publication (p_token p) (\<lambda>q. q\<lparr>p_installed := True\<rparr>);
              barrier ''installed'' (p_path p);
              synced \<leftarrow> sys_fsync (ar_parent a);
              e \<leftarrow> get_errno;
              if synced \<noteq> 0 \<and> e \<noteq> EINVAL then step_fail p a 2 room else ret 0
            }
          }
        }
      })"

text \<open>Restore: the installed entry is taken back, if it is still this publication's, and the
  previous entry is moved to its name.\<close>

definition rollback_name :: "publication \<Rightarrow> cstring" where
  "rollback_name p = (case p_rollback p of None \<Rightarrow> [] | Some r \<Rightarrow> r)"

definition remove_validated :: "int \<Rightarrow> cstring \<Rightarrow> stat \<Rightarrow> tree_entry option
    \<Rightarrow> ('z world_scheme, bool) state" where
  "remove_validated fd name st tree =
     (if S_ISDIR st then (case tree of
          None \<Rightarrow> ret False
        | Some t \<Rightarrow> do { r \<leftarrow> discard_tree fd name t; ret (r = 0) })
      else do { r \<leftarrow> sys_unlinkat fd name False; ret (r = 0) })"

definition restore_installed :: "publication \<Rightarrow> arena \<Rightarrow> ('z pub_world_scheme, bool) state" where
  "restore_installed p a = do {
     barrier ''before-rollback-capture'' (p_path p);
     moved \<leftarrow> sys_renameat (ar_parent a) (p_name p) (ar_recovery_fd a) (rollback_name p);
     e \<leftarrow> get_errno;
     if moved \<noteq> 0 then ret (e = ENOENT)
     else do {
       update_publication (p_token p) (\<lambda>q. q\<lparr>p_rollback_pending := True\<rparr>);
       barrier ''rollback-captured'' (p_path p);
       status \<leftarrow> sys_fstatat (ar_recovery_fd a) (rollback_name p);
       case status of
         None \<Rightarrow> ret False
       | Some st \<Rightarrow>
           if \<not> same st (p_fresh p) then do {
             back \<leftarrow> no_replace (ar_recovery_fd a) (rollback_name p) (ar_parent a) (p_name p) (S_ISDIR st);
             if back \<noteq> 0 then ret False
             else do {
               update_publication (p_token p) (\<lambda>q. q\<lparr>p_rollback_pending := False\<rparr>);
               set_errno EAGAIN;
               ret False
             }
           }
           else do {
             gone \<leftarrow> remove_validated (ar_recovery_fd a) (rollback_name p) st (p_fresh_tree p);
             if \<not> gone then ret False
             else do {
               update_publication (p_token p) (\<lambda>q. q\<lparr>p_rollback_pending := False\<rparr>);
               ret True
             }
           }
     }
   }"

definition restore_captured :: "publication \<Rightarrow> arena \<Rightarrow> ('z pub_world_scheme, bool) state" where
  "restore_captured p a = do {
     status \<leftarrow> sys_fstatat (ar_recovery_fd a) (p_recovery p);
     case status of
       None \<Rightarrow> ret False
     | Some st \<Rightarrow> do {
         moved \<leftarrow> no_replace (ar_recovery_fd a) (p_recovery p) (ar_parent a) (p_name p) (S_ISDIR st);
         if moved \<noteq> 0 then ret False
         else do { update_publication (p_token p) (\<lambda>q. q\<lparr>p_captured := False\<rparr>); ret True }
       }
   }"

definition step_restore :: "publication \<Rightarrow> arena \<Rightarrow> nat \<Rightarrow> ('z pub_world_scheme, int) state" where
  "step_restore p a room =
     (if p_rollback_pending p then do { set_errno EALREADY; step_fail p a 3 room }
      else do {
        taken \<leftarrow> (if p_installed p then do {
            ok \<leftarrow> restore_installed p a;
            (if ok then update_publication (p_token p) (\<lambda>q. q\<lparr>p_installed := False\<rparr>) else ret ());
            ret ok
          } else ret True);
        if \<not> taken then step_fail p a 3 room
        else do {
          restored \<leftarrow> (if p_captured p then restore_captured p a else ret True);
          if \<not> restored then step_fail p a 3 room else ret 0
        }
      })"

text \<open>Finish: the validated previous entry and the validated staged entry are removed, nothing
  else; the last publication of an arena retires it.\<close>

definition finish_captured :: "publication \<Rightarrow> arena \<Rightarrow> ('z pub_world_scheme, bool) state" where
  "finish_captured p a = do {
     status \<leftarrow> sys_fstatat (ar_recovery_fd a) (p_recovery p);
     case status of
       None \<Rightarrow> ret False
     | Some st \<Rightarrow>
         if p_absent p \<or> \<not> p_capture_valid p \<or> \<not> same st (p_expected p) then ret False
         else if \<not> S_ISDIR st \<and> \<not> S_ISREG st then ret False
         else do {
           gone \<leftarrow> remove_validated (ar_recovery_fd a) (p_recovery p) st (p_expected_tree p);
           (if gone then update_publication (p_token p) (\<lambda>q. q\<lparr>p_captured := False\<rparr>) else ret ());
           ret gone
         }
   }"

definition finish_staged :: "publication \<Rightarrow> arena \<Rightarrow> ('z world_scheme, bool) state" where
  "finish_staged p a = do {
     status \<leftarrow> sys_fstatat (ar_private_fd a) (p_name p);
     e \<leftarrow> get_errno;
     case status of
       None \<Rightarrow> ret (e = ENOENT)
     | Some st \<Rightarrow>
         if \<not> S_ISDIR st \<and> \<not> S_ISREG st then ret False
         else remove_validated (ar_private_fd a) (p_name p) st (p_fresh_tree p)
   }"

definition retire_arena :: "arena \<Rightarrow> ('z pub_world_scheme, bool) state" where
  "retire_arena a = do {
     stage \<leftarrow> sys_unlinkat (ar_root_fd a) ''stage'' True;
     recovery \<leftarrow> (if stage \<noteq> 0 then ret (-1) else sys_unlinkat (ar_root_fd a) ''recovery'' True);
     journals \<leftarrow> (if recovery \<noteq> 0 then ret (-1) else finish_journals a);
     removed \<leftarrow> (if journals \<noteq> 0 then ret (-1) else sys_unlinkat (ar_parent a) (ar_name a) True);
     ret (removed = 0)
   }"

definition finish_last :: "publication \<Rightarrow> arena \<Rightarrow> nat \<Rightarrow> ('z pub_world_scheme, int) state" where
  "finish_last p a room = do {
     locked \<leftarrow> sys_flock (ar_root_fd a);
     if locked \<noteq> 0 then step_fail p a 4 room
     else do {
       retired \<leftarrow> retire_arena a;
       if \<not> retired then do {
         error \<leftarrow> get_errno;
         strerror \<leftarrow> gets w_strerror;
         quarantine (ar_id a);
         update_publication (p_token p) (\<lambda>q. q\<lparr>p_finish_failed := True\<rparr>);
         sys_flock (ar_root_fd a);
         location \<leftarrow> describe_recovery a (PATH_MAX + 256);
         reason room (msg_retained_error location (strerror error));
         ret (-1)
       }
       else do {
         sys_flock (ar_root_fd a);
         now \<leftarrow> find_arena (ar_id a);
         free_finished_arena (case now of None \<Rightarrow> a | Some b \<Rightarrow> b);
         ret 0
       }
     }
   }"

definition release_buffers :: "publication \<Rightarrow> ('z pub_world_scheme, unit) state" where
  "release_buffers p = do {
     close_if_open (p_expected_fd p);
     free_tree (tree_list (p_expected_tree p));
     free_tree (tree_list (p_fresh_tree p));
     update_publication (p_token p) (\<lambda>q. q\<lparr>p_expected_fd := (if 0 \<le> p_expected_fd q then -1 else p_expected_fd q),
       p_bytes := None, p_expected_tree := None, p_fresh_tree := None\<rparr>)
   }"

definition finish_settled :: "publication \<Rightarrow> arena \<Rightarrow> nat \<Rightarrow> ('z pub_world_scheme, int) state" where
  "finish_settled p a room = do {
     update_publication (p_token p) (\<lambda>q. q\<lparr>p_finished := True\<rparr>);
     release_anchor p;
     update_arena (ar_id a) (\<lambda>b. b\<lparr>ar_refs := ar_refs b - 1\<rparr>);
     now \<leftarrow> find_arena (ar_id a);
     if (case now of None \<Rightarrow> True | Some b \<Rightarrow> ar_refs b = 0) then finish_last p a room
     else do { release_buffers p; ret 0 }
   }"

definition step_finish :: "publication \<Rightarrow> arena \<Rightarrow> nat \<Rightarrow> ('z pub_world_scheme, int) state" where
  "step_finish p a room = do {
     cleared \<leftarrow> (if p_captured p then finish_captured p a else ret True);
     if \<not> cleared then step_fail p a 4 room
     else do {
       swept \<leftarrow> finish_staged p a;
       if \<not> swept then step_fail p a 4 room else finish_settled p a room
     }
   }"

text \<open>
  One step. An unknown token and a finished publication are accepted, a publication whose
  retirement failed is refused. A publication always has its arena in the registry; the branch
  without one is not reached.
\<close>

definition landin_publication_step_locked :: "nat \<Rightarrow> int \<Rightarrow> cstring list \<Rightarrow> oid list \<Rightarrow> nat
    \<Rightarrow> ('z pub_world_scheme, int) state" where
  "landin_publication_step_locked token action paths ids room = do {
     found \<leftarrow> lookup token;
     reason room [];
     case found of
       None \<Rightarrow> ret 0
     | Some p \<Rightarrow> do {
         within \<leftarrow> find_arena (p_arena p);
         case within of
           None \<Rightarrow> ret (-1)
         | Some a \<Rightarrow>
             if p_finished p \<and> p_finish_failed p then do {
               location \<leftarrow> describe_recovery a (PATH_MAX + 256);
               reason room (msg_retained_cleanup location);
               fail_with EBUSY
             }
             else if p_finished p then ret 0
             else do {
               cancelled \<leftarrow> cancellation_requested;
               if action \<le> 2 \<and> cancelled then do { set_errno EINTR; step_fail p a action room }
               else if action = 0 then step_validate p a room
               else if action = 1 then step_capture p a paths ids room
               else if action = 2 then step_install p a room
               else if action = 3 then step_restore p a room
               else if action = 4 then step_finish p a room
               else do { set_errno EINVAL; step_fail p a action room }
             }
       }
   }"

end
