(* ===== verification/FormatReplace.thy ===== *)
theory FormatReplace
  imports PublicationArena
begin

unbundle bit_operations_syntax

text \<open>
  Model of \<^verbatim>\<open>compiler/ada/src/platform/landin_format_replace.c\<close>: a formatted source is written
  into the file it was read from. A lease pins the file and its directory at the original read;
  the replacement checks what writing would take away, keeps a synced copy of the original bytes
  beside the file, writes in place, and puts the original bytes back when that fails. Every
  refusal says why in the caller's buffer.

  The leases are a registry of their own: these functions never use the private roots or the
  publications. File modes are the bits of octal 7777.
\<close>

record update_lease =
  l_token :: nat
  l_fd :: int
  l_parent :: int
  l_write_error :: "errno option"
  l_target :: cstring
  l_name :: cstring
  l_original :: bytes
  l_before :: stat

record fmt_world = world +
  f_leases :: "update_lease list"
  f_next_lease :: nat
  f_counter :: nat
  f_reason :: cstring

definition say :: "nat \<Rightarrow> cstring \<Rightarrow> ('z fmt_world_scheme, unit) state" where
  "say room msg = (if room = 0 then ret () else modify (\<lambda>w. w\<lparr>f_reason := snprintf room msg\<rparr>))"

section \<open>Writing, syncing and reading through one descriptor\<close>

lemma sys_pwrite_cases:
  assumes "run_state (sys_pwrite fd data off) w = (n, w')"
  shows "length (w_turns w') \<le> length (w_turns w)"
    and "n < 0 \<Longrightarrow> w_errno w' = EINTR \<Longrightarrow> length (w_turns w') < length (w_turns w)"
proof -
  show "length (w_turns w') \<le> length (w_turns w)"
    using assms unfolding sys_pwrite_def
    by (rule call_turns_le [rotated])
      (auto simp: Let_def log_def split: option.splits if_splits)
  have "n = -1 \<or> 0 \<le> n"
    using assms unfolding sys_pwrite_def call_def
    by (auto simp: Let_def split: prod.splits option.splits sum.splits if_splits)
  moreover have "length (w_turns w') < length (w_turns w)" if n: "n = -1" and e: "w_errno w' = EINTR"
    by (rule call_interrupted [OF _ _ assms [unfolded sys_pwrite_def n] e])
      (auto simp: Let_def split: option.splits if_splits)
  ultimately show "n < 0 \<Longrightarrow> w_errno w' = EINTR \<Longrightarrow> length (w_turns w') < length (w_turns w)"
    by auto
qed

text \<open>Positioned writes until everything is out; a write of nothing is \<open>EIO\<close>.\<close>

function write_all_from :: "int \<Rightarrow> bytes \<Rightarrow> nat \<Rightarrow> 'z world_scheme \<Rightarrow> int \<times> 'z world_scheme" where
  "write_all_from fd data at w =
     (if data = [] then (0, w)
      else (case run_state (sys_pwrite fd data at) w of (written, w1) \<Rightarrow>
        if written < 0 \<and> w_errno w1 = EINTR then write_all_from fd data at w1
        else if written < 0 then (-1, w1)
        else if written = 0 then (-1, w1\<lparr>w_errno := EIO\<rparr>)
        else write_all_from fd (drop (nat written) data) (at + nat written) w1))"
  by pat_completeness auto
termination
  by (relation "measures [\<lambda>(fd, data, at, w). length (w_turns w), \<lambda>(fd, data, at, w). length data]")
    (auto dest: sys_pwrite_cases(2) [OF sym] sys_pwrite_cases(1) [OF sym] intro: le_neq_implies_less)

declare write_all_from.simps [simp del]

definition write_all :: "int \<Rightarrow> bytes \<Rightarrow> ('z world_scheme, int) state" where
  "write_all fd data = State (write_all_from fd data 0)"

text \<open>Darwin asks the drive first, and falls back to \<open>fsync\<close>.\<close>

definition sync_file :: "int \<Rightarrow> ('z world_scheme, int) state" where
  "sync_file fd = do {
     h \<leftarrow> gets w_host;
     full \<leftarrow> (if h = Darwin then sys_fd_only fd else ret (-1));
     if full = 0 then ret 0 else sys_fsync fd
   }"

definition read_all :: "int \<Rightarrow> ('z world_scheme, bytes option) state" where
  "read_all fd = do {
     room \<leftarrow> alloc;
     if \<not> room then ret None
     else do {
       got \<leftarrow> State (pread_loop EFBIG fd [] 4096);
       ret (map_option fst got)
     }
   }"

definition sys_getgroups :: "('z world_scheme, nat list option) state" where
  "sys_getgroups = call None (\<lambda>_ w. Inr (Some (w_groups w), w))"

definition in_group :: "nat \<Rightarrow> ('z world_scheme, bool) state" where
  "in_group wanted = do {
     gid \<leftarrow> gets w_gid;
     if gid = wanted then ret True
     else do {
       count \<leftarrow> sys_getgroups;
       case count of
         None \<Rightarrow> ret False
       | Some [] \<Rightarrow> ret False
       | Some _ \<Rightarrow> do {
           room \<leftarrow> alloc;
           if \<not> room then ret False
           else do {
             groups \<leftarrow> sys_getgroups;
             ret (case groups of None \<Rightarrow> False | Some gs \<Rightarrow> wanted \<in> set gs)
           }
         }
     }
   }"

section \<open>Leases\<close>

definition find_lease :: "nat \<Rightarrow> ('z fmt_world_scheme, update_lease option) state" where
  "find_lease token = gets (\<lambda>w. find (\<lambda>l. l_token l = token) (f_leases w))"

definition msg_unreadable :: "cstring \<Rightarrow> cstring" where
  "msg_unreadable failure = ''cannot read it for updating: '' @ failure @ ''; use fmt --stdout''"

definition update_fail :: "int \<Rightarrow> int \<Rightarrow> nat
    \<Rightarrow> ('z fmt_world_scheme, int \<times> (bytes \<times> nat) option) state" where
  "update_fail fd parent room = do {
     error \<leftarrow> get_errno;
     strerror \<leftarrow> gets w_strerror;
     say room (msg_unreadable (strerror error));
     close_if_open fd;
     close_if_open parent;
     ret (if error = ENOENT then 1 else -1, None)
   }"

text \<open>The file for reading and writing; where writing is refused, for reading, with the refusal.\<close>

definition open_for_update :: "int \<Rightarrow> cstring \<Rightarrow> ('z world_scheme, int \<times> errno option) state" where
  "open_for_update parent name = do {
     fd \<leftarrow> sys_openat parent name [O_RDWR, O_NOFOLLOW, O_CLOEXEC, O_NONBLOCK] 0;
     e \<leftarrow> get_errno;
     if fd < 0 \<and> (e = EACCES \<or> e = EPERM \<or> e = EROFS) then do {
       fd2 \<leftarrow> sys_openat parent name [O_RDONLY, O_NOFOLLOW, O_CLOEXEC, O_NONBLOCK] 0;
       ret (fd2, Some e)
     }
     else ret (fd, None)
   }"

definition pin_target :: "cstring \<Rightarrow> cstring \<Rightarrow> cstring \<Rightarrow> int \<Rightarrow> nat
    \<Rightarrow> ('z fmt_world_scheme, int \<times> (bytes \<times> nat) option) state" where
  "pin_target target directory name parent room = do {
     (fd, write_error) \<leftarrow> open_for_update parent name;
     status \<leftarrow> (if fd < 0 then ret None else sys_fstat fd);
     case status of
       None \<Rightarrow> update_fail fd parent room
     | Some before \<Rightarrow>
         if \<not> S_ISREG before then do { set_errno EINVAL; update_fail fd parent room }
         else do {
           content \<leftarrow> read_all fd;
           case content of
             None \<Rightarrow> update_fail fd parent room
           | Some original \<Rightarrow> do {
               copy \<leftarrow> alloc;
               if \<not> copy then update_fail fd parent room
               else do {
                 token \<leftarrow> gets f_next_lease;
                 modify (\<lambda>w. w\<lparr>f_next_lease := Suc token, f_leases := \<lparr>l_token = token, l_fd = fd,
                   l_parent = parent, l_write_error = write_error, l_target = target,
                   l_name = name, l_original = original, l_before = before\<rparr> # f_leases w\<rparr>);
                 barrier ''update-read'' target;
                 ret (0, Some (original, token))
               }
             }
         }
   }"

definition landin_open_update_locked :: "cstring \<Rightarrow> nat
    \<Rightarrow> ('z fmt_world_scheme, int \<times> (bytes \<times> nat) option) state" where
  "landin_open_update_locked path room = do {
     made \<leftarrow> alloc;
     say room [];
     if \<not> made then update_fail (-1) (-1) room
     else do {
       barrier ''update-before-read'' path;
       resolved \<leftarrow> sys_realpath path;
       case resolved of
         None \<Rightarrow> update_fail (-1) (-1) room
       | Some target \<Rightarrow> do {
           copy \<leftarrow> alloc;
           if \<not> copy then update_fail (-1) (-1) room
           else (case split_last_slash target of
               None \<Rightarrow> update_fail (-1) (-1) room
             | Some (before, name) \<Rightarrow> do {
                 named \<leftarrow> alloc;
                 if \<not> named then update_fail (-1) (-1) room
                 else (let directory = (if before = [] then ''/'' else before) in do {
                   parent \<leftarrow> sys_open directory [O_RDONLY, O_DIRECTORY, O_NOFOLLOW, O_CLOEXEC];
                   if parent < 0 then update_fail (-1) (-1) room
                   else pin_target target directory name parent room
                 })
               })
         }
     }
   }"

definition landin_update_identity_locked :: "nat \<Rightarrow> ('z fmt_world_scheme, oid option) state" where
  "landin_update_identity_locked token = do {
     lease \<leftarrow> find_lease token;
     ret (map_option (\<lambda>l. st_id (l_before l)) lease)
   }"

fun drop_lease :: "nat \<Rightarrow> update_lease list \<Rightarrow> update_lease list" where
  "drop_lease token [] = []"
| "drop_lease token (l # ls) = (if l_token l = token then ls else l # drop_lease token ls)"

definition landin_close_update_locked :: "nat \<Rightarrow> ('z fmt_world_scheme, unit) state" where
  "landin_close_update_locked token = do {
     lease \<leftarrow> find_lease token;
     case lease of
       None \<Rightarrow> ret ()
     | Some l \<Rightarrow> do {
         modify (\<lambda>w. w\<lparr>f_leases := drop_lease token (f_leases w)\<rparr>);
         close_fd (l_fd l);
         close_fd (l_parent l)
       }
   }"

definition msg_undescribed :: "cstring \<Rightarrow> cstring" where
  "msg_undescribed entry = ''current directory path unavailable; recovery entry '' @ entry
     @ ''; original directory could not be described''"

definition describe_copy :: "update_lease \<Rightarrow> cstring \<Rightarrow> nat \<Rightarrow> ('z world_scheme, cstring) state" where
  "describe_copy lease entry room = do {
     copy \<leftarrow> alloc;
     if \<not> copy then ret (snprintf room (msg_undescribed entry))
     else do {
       (resolved, msg) \<leftarrow> landin_publication_describe_entry (l_parent lease)
          (case split_last_slash (l_target lease) of
             None \<Rightarrow> ''/'' | Some (a, _) \<Rightarrow> if a = [] then ''/'' else a) entry room;
       ret msg
     }
   }"

section \<open>Replacing\<close>

definition S_ISUID :: nat where "S_ISUID = 2048"
definition S_ISGID :: nat where "S_ISGID = 1024"

text \<open>\<open>mode & 0222\<close>: some class may write.\<close>

definition any_write :: "stat \<Rightarrow> bool" where
  "any_write s \<longleftrightarrow> st_perm s AND 146 \<noteq> 0"

definition mode_bits :: "stat \<Rightarrow> nat" where
  "mode_bits s = st_perm s AND 4095"

text \<open>The texts of the refusals.\<close>

definition txt_closed :: cstring where "txt_closed = ''update lease is closed''"
definition txt_interrupted :: cstring where
  "txt_interrupted = ''formatting interrupted before writing''"
definition txt_not_ordinary :: cstring where "txt_not_ordinary = ''it is not an ordinary file''"
definition txt_read_only :: cstring where "txt_read_only = ''it is read-only''"
definition txt_object_changed :: cstring where
  "txt_object_changed = ''the original read object changed; rerun or use fmt --stdout''"
definition txt_clears_bits :: cstring where
  "txt_clears_bits = ''writing clears its set-user-ID and set-group-ID bits, and only its owner can set them again''"
definition txt_clears_group :: cstring where
  "txt_clears_group = ''writing clears its set-group-ID bit, which only a member of its group can set again''"
definition txt_capabilities :: cstring where
  "txt_capabilities = ''it carries file capabilities, which writing removes and only a privileged process can give back''"
definition txt_bytes_changed :: cstring where
  "txt_bytes_changed = ''its bytes changed after the original read; rerun or use fmt --stdout''"
definition txt_no_memory :: cstring where "txt_no_memory = ''no memory for recovery name''"
definition txt_no_copy :: "cstring \<Rightarrow> cstring" where
  "txt_no_copy failure = ''cannot keep a copy of it in its directory: '' @ failure"
definition txt_replaced :: cstring where
  "txt_replaced = ''it was replaced while it was being formatted''"
definition txt_undone :: "cstring \<Rightarrow> cstring" where
  "txt_undone failure = ''writing it failed: '' @ failure @ ''; its bytes are as they were''"
definition txt_kept :: "cstring \<Rightarrow> cstring \<Rightarrow> cstring" where
  "txt_kept failure location = ''writing it failed: '' @ failure
     @ ''; its original bytes are kept in '' @ location"
definition txt_name_changed :: "cstring \<Rightarrow> cstring" where
  "txt_name_changed location = ''the public name changed during formatting; the original read object was formatted; original bytes retained in '' @ location"
definition txt_copy_left :: "cstring \<Rightarrow> cstring \<Rightarrow> cstring" where
  "txt_copy_left location failure = ''it is formatted, but its copy '' @ location
     @ '' could not be removed: '' @ failure"
definition txt_mode :: "nat \<Rightarrow> cstring" where
  "txt_mode mode = ''it is formatted, but its mode '' @ replicate (4 - length (digits 8 mode)) (CHR ''0'')
     @ digits 8 mode @ '' could not be restored''"

text \<open>
  The label \<open>done\<close>: the copy's descriptor and the file's are closed; \<open>copy\<close> is the name of the
  copy, unless there is none or it is to stay, and it is removed.
\<close>

definition replace_done :: "update_lease \<Rightarrow> int \<Rightarrow> int \<Rightarrow> cstring option \<Rightarrow> int \<Rightarrow> nat
    \<Rightarrow> ('z fmt_world_scheme, int) state" where
  "replace_done lease kept fd copy result room = do {
     close_if_open kept;
     close_if_open fd;
     case copy of
       None \<Rightarrow> ret result
     | Some name \<Rightarrow> do {
         gone \<leftarrow> sys_unlinkat (l_parent lease) name False;
         error \<leftarrow> get_errno;
         if gone \<noteq> 0 \<and> result = 0 then do {
           strerror \<leftarrow> gets w_strerror;
           location \<leftarrow> describe_copy lease name (PATH_MAX + 256);
           say room (txt_copy_left location (strerror error));
           ret (-1)
         }
         else ret result
       }
   }"

text \<open>The refusal of a descriptor that could not be duplicated.\<close>

definition say_unopened :: "update_lease \<Rightarrow> nat \<Rightarrow> ('z fmt_world_scheme, unit) state" where
  "say_unopened lease room = do {
     error \<leftarrow> get_errno;
     strerror \<leftarrow> gets w_strerror;
     first \<leftarrow> sys_stat (l_target lease);
     if (case first of Some s \<Rightarrow> \<not> S_ISREG s | None \<Rightarrow> False) then say room txt_not_ordinary
     else do {
       second \<leftarrow> sys_stat (l_target lease);
       if (case second of Some s \<Rightarrow> \<not> any_write s | None \<Rightarrow> False) then say room txt_read_only
       else say room (''cannot open it to write: '' @ strerror error)
     }
   }"

text \<open>What writing would take away, and what it must not touch: the text of a refusal.\<close>

definition refuse_write :: "update_lease \<Rightarrow> int \<Rightarrow> stat \<Rightarrow> ('z world_scheme, cstring option) state" where
  "refuse_write lease fd before = do {
     strerror \<leftarrow> gets w_strerror;
     uid \<leftarrow> gets w_uid;
     if \<not> same before (l_before lease) then ret (Some txt_object_changed)
     else if \<not> S_ISREG before then ret (Some txt_not_ordinary)
     else if \<not> any_write before then ret (Some txt_read_only)
     else (case l_write_error lease of
         Some e \<Rightarrow> ret (Some (''cannot open it to write: '' @ strerror e @ ''; use fmt --stdout''))
       | None \<Rightarrow>
           if st_perm before AND (S_ISUID OR S_ISGID) \<noteq> 0 \<and> st_uid before \<noteq> uid
           then ret (Some txt_clears_bits)
           else do {
             member \<leftarrow> (if st_perm before AND S_ISGID \<noteq> 0 then in_group (st_gid before) else ret True);
             if \<not> member then ret (Some txt_clears_group)
             else do {
               h \<leftarrow> gets w_host;
               if h \<noteq> Linux then ret None
               else do {
                 caps \<leftarrow> sys_fgetxattr_caps fd;
                 e \<leftarrow> get_errno;
                 ret (if 0 \<le> caps then Some txt_capabilities
                   else if e \<noteq> ENODATA \<and> e \<noteq> ENOTSUP
                   then Some (''cannot learn whether it carries file capabilities: '' @ strerror e)
                   else None)
               }
             }
           })
   }"

text \<open>At most a hundred names for the copy; the counter is unsigned.\<close>

fun copy_attempt :: "nat \<Rightarrow> int \<Rightarrow> cstring \<Rightarrow> ('z fmt_world_scheme, int \<times> cstring) state" where
  "copy_attempt 0 parent name = ret (-1, name)"
| "copy_attempt (Suc k) parent name = do {
     pid \<leftarrow> gets w_pid;
     modify (\<lambda>w. w\<lparr>f_counter := (f_counter w + 1) mod 2 ^ 32\<rparr>);
     n \<leftarrow> gets f_counter;
     let copy_name = snprintf 96 (''.fmt-original-'' @ dec pid @ ''-'' @ dec n) in do {
       kept \<leftarrow> sys_openat parent copy_name [O_WRONLY, O_CREAT, O_EXCL, O_NOFOLLOW, O_CLOEXEC] 384;
       e \<leftarrow> get_errno;
       if 0 \<le> kept \<or> e \<noteq> EEXIST then ret (kept, copy_name) else copy_attempt k parent copy_name
     }
   }"

text \<open>The copy: the original bytes, synced, closed, and its directory synced.\<close>

definition keep_copy :: "update_lease \<Rightarrow> int \<Rightarrow> bytes
    \<Rightarrow> ('z fmt_world_scheme, cstring option \<times> int) state" where
  "keep_copy lease kept original = do {
     strerror \<leftarrow> gets w_strerror;
     wrote \<leftarrow> write_all kept original;
     synced \<leftarrow> (if wrote \<noteq> 0 then ret (-1) else sync_file kept);
     e \<leftarrow> get_errno;
     if synced \<noteq> 0 then ret (Some (txt_no_copy (strerror e)), kept)
     else do {
       closed \<leftarrow> sys_close kept;
       e2 \<leftarrow> get_errno;
       if closed \<noteq> 0 then ret (Some (txt_no_copy (strerror e2)), -1)
       else do {
         dir \<leftarrow> sys_fsync (l_parent lease);
         e3 \<leftarrow> get_errno;
         if dir \<noteq> 0 \<and> e3 \<noteq> EINVAL
         then ret (Some (''cannot sync its directory: '' @ strerror e3), -1)
         else ret (None, -1)
       }
     }
   }"

text \<open>Writing in place: the whole content from the start, cut there, synced.\<close>

definition rewrite :: "int \<Rightarrow> bytes \<Rightarrow> ('z world_scheme, bool) state" where
  "rewrite fd data = do {
     wrote \<leftarrow> write_all fd data;
     cut \<leftarrow> (if wrote \<noteq> 0 then ret (-1) else sys_ftruncate fd (length data));
     synced \<leftarrow> (if cut \<noteq> 0 then ret (-1) else sync_file fd);
     ret (synced = 0)
   }"

definition still_named :: "cstring \<Rightarrow> stat \<Rightarrow> ('z world_scheme, bool) state" where
  "still_named target before = do {
     now \<leftarrow> sys_stat target;
     ret (case now of None \<Rightarrow> False | Some s \<Rightarrow> same s before)
   }"

text \<open>After the write: the mode, read back, and the public name.\<close>

definition restore_mode :: "int \<Rightarrow> stat \<Rightarrow> ('z world_scheme, cstring option) state" where
  "restore_mode fd before = do {
     strerror \<leftarrow> gets w_strerror;
     status \<leftarrow> sys_fstat fd;
     e \<leftarrow> get_errno;
     case status of
       None \<Rightarrow> ret (Some (''it is formatted, but its mode cannot be read: '' @ strerror e))
     | Some now \<Rightarrow> do {
         restored \<leftarrow> (if mode_bits now = mode_bits before then ret True
           else do {
             changed \<leftarrow> sys_fchmod fd (mode_bits before);
             again \<leftarrow> (if changed \<noteq> 0 then ret None else sys_fstat fd);
             ret (case again of None \<Rightarrow> False | Some s \<Rightarrow> mode_bits s = mode_bits before)
           });
         if \<not> restored then ret (Some (txt_mode (mode_bits before)))
         else do {
           synced \<leftarrow> (if st_perm before AND (S_ISUID OR S_ISGID) \<noteq> 0 then sync_file fd else ret 0);
           e2 \<leftarrow> get_errno;
           ret (if synced \<noteq> 0
             then Some (''it is formatted, but its restored mode cannot be synced: '' @ strerror e2)
             else None)
         }
       }
   }"

text \<open>From the kept copy on: the write, its undoing, the mode and the name.\<close>

definition write_in_place :: "update_lease \<Rightarrow> int \<Rightarrow> stat \<Rightarrow> bytes \<Rightarrow> bytes \<Rightarrow> cstring \<Rightarrow> nat
    \<Rightarrow> ('z fmt_world_scheme, int) state" where
  "write_in_place lease fd before original data copy_name room = do {
     strerror \<leftarrow> gets w_strerror;
     wrote \<leftarrow> rewrite fd data;
     error \<leftarrow> get_errno;
     if \<not> wrote then do {
       undone \<leftarrow> rewrite fd original;
       if undone then do {
         say room (txt_undone (strerror error));
         replace_done lease (-1) fd (Some copy_name) (-1) room
       }
       else do {
         location \<leftarrow> describe_copy lease copy_name (PATH_MAX + 256);
         say room (txt_kept (strerror error) location);
         replace_done lease (-1) fd None (-1) room
       }
     }
     else do {
       refused \<leftarrow> restore_mode fd before;
       case refused of
         Some msg \<Rightarrow> do { say room msg; replace_done lease (-1) fd (Some copy_name) (-1) room }
       | None \<Rightarrow> do {
           barrier ''update-written'' (l_target lease);
           named \<leftarrow> still_named (l_target lease) before;
           if \<not> named then do {
             location \<leftarrow> describe_copy lease copy_name (PATH_MAX + 256);
             say room (txt_name_changed location);
             replace_done lease (-1) fd None (-1) room
           }
           else replace_done lease (-1) fd (Some copy_name) 0 room
         }
     }
   }"

text \<open>The copy's name and the write, once the leased file is known to be unchanged.\<close>

definition replace_with_copy :: "update_lease \<Rightarrow> int \<Rightarrow> stat \<Rightarrow> bytes \<Rightarrow> bytes \<Rightarrow> nat
    \<Rightarrow> ('z fmt_world_scheme, int) state" where
  "replace_with_copy lease fd before original data room = do {
     strerror \<leftarrow> gets w_strerror;
     memory \<leftarrow> alloc;
     if \<not> memory then do { say room txt_no_memory; replace_done lease (-1) fd None (-1) room }
     else do {
       (kept, copy_name) \<leftarrow> copy_attempt 100 (l_parent lease) [];
       e \<leftarrow> get_errno;
       if kept < 0 then do {
         say room (txt_no_copy (strerror e));
         replace_done lease (-1) fd None (-1) room
       }
       else do {
         (refused, kept2) \<leftarrow> keep_copy lease kept original;
         case refused of
           Some msg \<Rightarrow> do { say room msg; replace_done lease kept2 fd (Some copy_name) (-1) room }
         | None \<Rightarrow> do {
             named \<leftarrow> still_named (l_target lease) before;
             if \<not> named then do {
               say room txt_replaced;
               replace_done lease (-1) fd (Some copy_name) (-1) room
             }
             else do {
               barrier ''update-before-write'' (l_target lease);
               cancelled \<leftarrow> cancellation_requested;
               if cancelled then do {
                 say room txt_interrupted;
                 replace_done lease (-1) fd (Some copy_name) (-1) room
               }
               else write_in_place lease fd before original data copy_name room
             }
           }
       }
     }
   }"

definition landin_replace_update_locked :: "nat \<Rightarrow> bytes \<Rightarrow> nat
    \<Rightarrow> ('z fmt_world_scheme, int) state" where
  "landin_replace_update_locked token data room = do {
     found \<leftarrow> find_lease token;
     say room [];
     case found of
       None \<Rightarrow> do { say room txt_closed; ret (-1) }
     | Some lease \<Rightarrow> do {
         cancelled \<leftarrow> cancellation_requested;
         if cancelled then do { say room txt_interrupted; ret (-1) }
         else do {
           strerror \<leftarrow> gets w_strerror;
           copy \<leftarrow> alloc;
           if \<not> copy then ret (-1)
           else do {
             fd \<leftarrow> sys_dup (l_fd lease) 0;
             if fd < 0 then do { say_unopened lease room; ret (-1) }
             else do {
               status \<leftarrow> sys_fstat fd;
               e \<leftarrow> get_errno;
               case status of
                 None \<Rightarrow> do {
                   say room (''cannot read its status: '' @ strerror e);
                   replace_done lease (-1) fd None (-1) room
                 }
               | Some before \<Rightarrow> do {
                   refused \<leftarrow> refuse_write lease fd before;
                   case refused of
                     Some msg \<Rightarrow> do { say room msg; replace_done lease (-1) fd None (-1) room }
                   | None \<Rightarrow> do {
                       content \<leftarrow> read_all fd;
                       e2 \<leftarrow> get_errno;
                       case content of
                         None \<Rightarrow> do {
                           say room (''cannot read it: '' @ strerror e2);
                           replace_done lease (-1) fd None (-1) room
                         }
                       | Some original \<Rightarrow>
                           if original \<noteq> l_original lease then do {
                             say room txt_bytes_changed;
                             replace_done lease (-1) fd None (-1) room
                           }
                           else replace_with_copy lease fd before original data room
                     }
                 }
             }
           }
         }
       }
   }"

text \<open>The compatibility form: a lease for the length of one replacement.\<close>

definition landin_replace_existing_file_locked :: "cstring \<Rightarrow> bytes \<Rightarrow> nat
    \<Rightarrow> ('z fmt_world_scheme, int) state" where
  "landin_replace_existing_file_locked path data room = do {
     (opened, lease) \<leftarrow> landin_open_update_locked path room;
     case lease of
       None \<Rightarrow> ret (-1)
     | Some (bs, token) \<Rightarrow>
         if opened \<noteq> 0 then ret (-1)
         else do {
           result \<leftarrow> landin_replace_update_locked token data room;
           landin_close_update_locked token;
           ret result
         }
   }"

end
