(* ===== verification/ToolProcess.thy ===== *)
theory ToolProcess
  imports OwnedDirectory
begin

text \<open>
  Model of \<^verbatim>\<open>compiler/ada/src/platform/landin_tool_process.c\<close>: anonymous capture files, starting a
  tool with moved standard descriptors, waiting for it, stopping it and forwarding a cancellation,
  the handlers of the invocation's cancellation, and running a built program in the foreground.

  The processes are part of the state: the direct children that are not yet reaped, the
  dispositions and the mask of this process's signals, and a history of the signals sent and of
  the programs started. As for the file system a schedule of turns stands for the environment:
  before a process call children may change their state, a signal may arrive at this process, and
  the call may fail. When the schedule is used up a child that is waited for has ended. The
  default action of a signal, which ends the process, is not modelled.

  Signal numbers are those of Linux; the code uses the names only.
\<close>

section \<open>Processes and signals\<close>

definition SIGHUP :: nat where "SIGHUP = 1"
definition SIGINT :: nat where "SIGINT = 2"
definition SIGQUIT :: nat where "SIGQUIT = 3"
definition SIGKILL :: nat where "SIGKILL = 9"
definition SIGTERM :: nat where "SIGTERM = 15"
definition SIGCHLD :: nat where "SIGCHLD = 17"

datatype disposition = SIG_DFL | SIG_IGN | Cancel_notify | Program_forward | Foreign nat

datatype child_state = Live | Exited nat | Signaled nat

text \<open>Where a started program's descriptors come from: the file actions of \<^verbatim>\<open>posix_spawn\<close>.\<close>

datatype file_action = Fchdir int | Dup2 int int | Closefd int

text \<open>
  A program as it starts: arguments, environment, descriptors, a directory of its own, whether it leads a
  group of its own, and its signals' dispositions and mask.
\<close>

record started =
  s_args :: "cstring list"
  s_env :: "cstring list"
  s_fds :: "(int \<times> desc) list"
  s_directory :: "oid option"
  s_group :: bool
  s_disp :: "nat \<Rightarrow> disposition"
  s_mask :: "nat list"

text \<open>The attributes of \<^verbatim>\<open>posix_spawn\<close>: a new group, the signals set to their default, the mask.\<close>

record spawn_attr =
  a_group :: bool
  a_defaults :: "nat list"
  a_mask :: "nat list option"

record pturn =
  u_children :: "(int \<times> child_state) list \<Rightarrow> (int \<times> child_state) list"
  u_fault :: "errno option"
  u_signal :: nat
  u_pid :: int

definition idle_pturn :: pturn where
  "idle_pturn = \<lparr>u_children = (\<lambda>c. c), u_fault = None, u_signal = 0, u_pid = 1\<rparr>"

record capture =
  k_fd :: int
  k_owned :: owned

record proc_world = world +
  q_children :: "(int \<times> child_state) list"
  q_turns :: "pturn list"
  q_disp :: "nat \<Rightarrow> disposition"
  q_nocldwait :: bool
  q_mask :: "nat list"
  q_pending :: "nat list"
  q_kills :: "(int \<times> nat) list"
  q_started :: "(int \<times> started) list"
  k_captures :: "capture list"
  k_cancel_active :: bool
  k_cancel_saved :: "disposition list"
  k_program_child :: int
  k_program_pending :: nat

section \<open>The handlers\<close>

text \<open>The first signal wins until the flag is cleared.\<close>

definition landin_cancel_notify :: "nat \<Rightarrow> 'z proc_world_scheme \<Rightarrow> 'z proc_world_scheme" where
  "landin_cancel_notify number w = (if w_cancel w = 0 then w\<lparr>w_cancel := number\<rparr> else w)"

text \<open>A signal is passed on to the running program, or noted until it is known.\<close>

definition landin_program_forward :: "nat \<Rightarrow> 'z proc_world_scheme \<Rightarrow> 'z proc_world_scheme" where
  "landin_program_forward number w =
     (if 0 < k_program_child w
      then w\<lparr>q_kills := (k_program_child w, number) # q_kills w\<rparr>
      else w\<lparr>k_program_pending := number\<rparr>)"

definition deliver :: "nat \<Rightarrow> 'z proc_world_scheme \<Rightarrow> 'z proc_world_scheme" where
  "deliver number w =
     (if number = 0 then w
      else if number \<in> set (q_mask w) then w\<lparr>q_pending := number # q_pending w\<rparr>
      else (case q_disp w number of
          Cancel_notify \<Rightarrow> landin_cancel_notify number w
        | Program_forward \<Rightarrow> landin_program_forward number w
        | _ \<Rightarrow> w))"

section \<open>Process calls\<close>

definition next_pturn :: "'z proc_world_scheme \<Rightarrow> pturn \<times> 'z proc_world_scheme" where
  "next_pturn w = (case q_turns w of [] \<Rightarrow> (idle_pturn, w)
     | t # ts \<Rightarrow> (t, deliver (u_signal t)
         (w\<lparr>q_turns := ts, q_children := u_children t (q_children w)\<rparr>)))"

definition pcall :: "'r \<Rightarrow> (pturn \<Rightarrow> 'z proc_world_scheme \<Rightarrow> errno + ('r \<times> 'z proc_world_scheme))
    \<Rightarrow> ('z proc_world_scheme, 'r) state" where
  "pcall bad act = State (\<lambda>w. case next_pturn w of (t, w1) \<Rightarrow>
     (case u_fault t of
        Some e \<Rightarrow> (bad, w1\<lparr>w_errno := e\<rparr>)
      | None \<Rightarrow> (case act t w1 of Inl e \<Rightarrow> (bad, w1\<lparr>w_errno := e\<rparr>) | Inr rw \<Rightarrow> rw)))"

lemma deliver_turns [simp]: "q_turns (deliver n w) = q_turns w"
  by (simp add: deliver_def landin_cancel_notify_def landin_program_forward_def
      split: disposition.split)

lemma pcall_interrupted:
  assumes act: "\<And>t w e. act t w = Inl e \<Longrightarrow> e \<noteq> EINTR"
    and good: "\<And>t w r w'. act t w = Inr (r, w') \<Longrightarrow> r \<noteq> bad"
    and run: "run_state (pcall bad act) w = (bad, w')" "w_errno w' = EINTR"
  shows "length (q_turns w') < length (q_turns w)"
proof (cases "q_turns w")
  case Nil
  with run show ?thesis
    by (auto simp: pcall_def next_pturn_def idle_pturn_def split: sum.splits dest: act good)
next
  case (Cons t ts)
  with run show ?thesis
    by (auto simp: pcall_def next_pturn_def split: sum.splits option.splits dest: good)
qed

text \<open>\<^verbatim>\<open>sigaction\<close> without and with a new action.\<close>

definition sys_sigquery :: "nat \<Rightarrow> ('z proc_world_scheme, disposition option) state" where
  "sys_sigquery number = pcall None (\<lambda>_ w. Inr (Some (q_disp w number), w))"

definition sys_sigaction :: "nat \<Rightarrow> disposition \<Rightarrow> ('z proc_world_scheme, int) state" where
  "sys_sigaction number d = pcall (-1) (\<lambda>_ w. Inr (0, w\<lparr>q_disp := (q_disp w)(number := d)\<rparr>))"

text \<open>Where the code does not look at the result: \<^verbatim>\<open>sigaction\<close> does not fail for the signals used.\<close>

definition sig_exchange :: "nat \<Rightarrow> disposition \<Rightarrow> ('z proc_world_scheme, disposition) state" where
  "sig_exchange number d = State (\<lambda>w. case next_pturn w of (t, w1) \<Rightarrow>
     (q_disp w1 number, w1\<lparr>q_disp := (q_disp w1)(number := d)\<rparr>))"

definition sig_set :: "nat \<Rightarrow> disposition \<Rightarrow> ('z proc_world_scheme, unit) state" where
  "sig_set number d = do { sig_exchange number d; ret () }"

definition sig_look :: "nat \<Rightarrow> ('z proc_world_scheme, disposition) state" where
  "sig_look number = State (\<lambda>w. case next_pturn w of (t, w1) \<Rightarrow> (q_disp w1 number, w1))"

text \<open>\<^verbatim>\<open>kill\<close> of a process or, negated, of a group: the group of a child is the child's number.
  The history holds the attempts.\<close>

definition kill_child :: "int \<Rightarrow> nat \<Rightarrow> (int \<times> child_state) list \<Rightarrow> (int \<times> child_state) list" where
  "kill_child pid number = al_adjust pid
     (\<lambda>s. if s = Live \<and> number = SIGKILL then Signaled SIGKILL else s)"

definition sys_kill :: "int \<Rightarrow> nat \<Rightarrow> ('z proc_world_scheme, int) state" where
  "sys_kill target number = State (\<lambda>w. run_state (pcall (-1) (\<lambda>_ w.
      if map_of (q_children w) \<bar>target\<bar> = None then Inl ESRCH
      else Inr (0, w\<lparr>q_children := kill_child \<bar>target\<bar> number (q_children w)\<rparr>)))
     (w\<lparr>q_kills := (target, number) # q_kills w\<rparr>))"

text \<open>\<^verbatim>\<open>waitpid\<close>: nothing yet (0), the child reaped with its state, or a failure. A wait that
  may block is over when the child has ended.\<close>

definition sys_waitpid :: "int \<Rightarrow> bool
    \<Rightarrow> ('z proc_world_scheme, (int \<times> child_state) option) state" where
  "sys_waitpid pid nohang = pcall None (\<lambda>_ w. case map_of (q_children w) pid of
     None \<Rightarrow> Inl ECHILD
   | Some s \<Rightarrow> if s = Live \<and> nohang then Inr (Some (0, Live), w)
       else Inr (Some (pid, if s = Live then Exited 0 else s),
                 w\<lparr>q_children := al_del pid (q_children w)\<rparr>))"

text \<open>\<^verbatim>\<open>waitid\<close> with \<open>WEXITED | WNOHANG | WNOWAIT\<close>: the \<open>si_pid\<close> it reports.\<close>

definition sys_waitid :: "int \<Rightarrow> ('z proc_world_scheme, int option) state" where
  "sys_waitid pid = pcall None (\<lambda>_ w. case map_of (q_children w) pid of
     None \<Rightarrow> Inl ECHILD
   | Some s \<Rightarrow> Inr (Some (if s = Live then 0 else pid), w))"

text \<open>The setup calls of \<^verbatim>\<open>posix_spawn\<close>, which return an error number.\<close>

definition sys_setup :: "('z proc_world_scheme, errno option) state" where
  "sys_setup = State (\<lambda>w. case next_pturn w of (t, w1) \<Rightarrow> (u_fault t, w1))"

text \<open>The child's descriptors after the file actions.\<close>

fun run_actions :: "file_action list \<Rightarrow> (int \<times> desc) list \<times> oid option
    \<Rightarrow> errno + (int \<times> desc) list \<times> oid option" where
  "run_actions [] st = Inr st"
| "run_actions (Fchdir fd # as) (fds, cwd) = (case map_of fds fd of
     None \<Rightarrow> Inl EBADF | Some ds \<Rightarrow> run_actions as (fds, Some (d_obj ds)))"
| "run_actions (Dup2 a b # as) (fds, cwd) = (case map_of fds a of
     None \<Rightarrow> Inl EBADF | Some ds \<Rightarrow> run_actions as (al_put b (ds\<lparr>d_cloexec := False\<rparr>) fds, cwd))"
| "run_actions (Closefd a # as) (fds, cwd) = run_actions as (al_del a fds, cwd)"

text \<open>What starting a program closes.\<close>

definition exec_fds :: "(int \<times> desc) list \<Rightarrow> (int \<times> desc) list" where
  "exec_fds fds = filter (\<lambda>p. case map_of fds (fst p) of None \<Rightarrow> True | Some ds \<Rightarrow> \<not> d_cloexec ds) fds"

text \<open>A new program has no handlers: what is not ignored has its default disposition.\<close>

definition exec_disposition :: "nat list \<Rightarrow> (nat \<Rightarrow> disposition) \<Rightarrow> nat \<Rightarrow> disposition" where
  "exec_disposition defaults D n = (if n \<in> set defaults \<or> D n \<noteq> SIG_IGN then SIG_DFL else SIG_IGN)"

definition sys_posix_spawn :: "file_action list \<Rightarrow> spawn_attr \<Rightarrow> cstring list \<Rightarrow> cstring list
    \<Rightarrow> ('z proc_world_scheme, errno + int) state" where
  "sys_posix_spawn as attr args env = State (\<lambda>w. case next_pturn w of (t, w1) \<Rightarrow>
     (case u_fault t of
        Some e \<Rightarrow> (Inl e, w1)
      | None \<Rightarrow> (case run_actions as (w_fds w1, None) of
          Inl e \<Rightarrow> (Inl e, w1)
        | Inr (fds, cwd) \<Rightarrow> (Inr (u_pid t),
            w1\<lparr>q_children := (u_pid t, Live) # q_children w1,
               q_started := (u_pid t, \<lparr>s_args = args, s_env = env, s_fds = exec_fds fds, s_directory = cwd,
                  s_group = a_group attr, s_disp = exec_disposition (a_defaults attr) (q_disp w1),
                  s_mask = (case a_mask attr of None \<Rightarrow> q_mask w1 | Some m \<Rightarrow> m)\<rparr>) # q_started w1\<rparr>))))"

section \<open>Whether children can be waited for\<close>

datatype start_error = Child_ignored | Child_no_wait | Host_error errno

definition landin_child_wait_policy :: "('z proc_world_scheme, start_error option) state" where
  "landin_child_wait_policy = do {
     action \<leftarrow> sys_sigquery SIGCHLD;
     e \<leftarrow> get_errno;
     nowait \<leftarrow> gets q_nocldwait;
     ret (case action of
        None \<Rightarrow> Some (Host_error e)
      | Some d \<Rightarrow> if d = SIG_IGN then Some Child_ignored
                 else if nowait then Some Child_no_wait else None)
   }"

definition landin_process_start_error :: "start_error \<Rightarrow> cstring option" where
  "landin_process_start_error error = (case error of
     Child_ignored \<Rightarrow> Some ''SIGCHLD is ignored; start refine with SIGCHLD set to its default disposition so child exit status remains waitable''
   | Child_no_wait \<Rightarrow> Some ''SIGCHLD has SA_NOCLDWAIT set; clear SA_NOCLDWAIT before starting refine so child exit status remains waitable''
   | Host_error _ \<Rightarrow> None)"

section \<open>Cancellation\<close>

definition cancel_numbers :: "nat list" where
  "cancel_numbers = [SIGINT, SIGTERM, SIGHUP]"

text \<open>Restoring, without looking at the results.\<close>

fun restore_signals :: "(nat \<times> disposition) list \<Rightarrow> ('z proc_world_scheme, unit) state" where
  "restore_signals [] = ret ()"
| "restore_signals ((number, d) # rest) = do { sig_set number d; restore_signals rest }"

text \<open>The installing loop; \<open>done_list\<close> holds the signals passed, newest first, which a failure
  restores in that order.\<close>

fun cancel_install :: "nat list \<Rightarrow> (nat \<times> disposition) list
    \<Rightarrow> ('z proc_world_scheme, errno + disposition list) state" where
  "cancel_install [] done_list = ret (Inr (map snd (rev done_list)))"
| "cancel_install (number # rest) done_list = do {
     old \<leftarrow> sys_sigquery number;
     case old of
       None \<Rightarrow> do { error \<leftarrow> get_errno; restore_signals done_list; ret (Inl error) }
     | Some d \<Rightarrow> do {
         installed \<leftarrow> (if d \<noteq> SIG_IGN then sys_sigaction number Cancel_notify else ret 0);
         if installed \<noteq> 0
         then do { error \<leftarrow> get_errno; restore_signals done_list; ret (Inl error) }
         else cancel_install rest ((number, d) # done_list)
       }
   }"

definition landin_cancellation_begin :: "('z proc_world_scheme, errno option) state" where
  "landin_cancellation_begin = do {
     active \<leftarrow> gets k_cancel_active;
     if active then ret None
     else do {
       modify (\<lambda>w. w\<lparr>w_cancel := 0\<rparr>);
       installed \<leftarrow> cancel_install cancel_numbers [];
       case installed of
         Inl error \<Rightarrow> ret (Some error)
       | Inr saved \<Rightarrow> do {
           modify (\<lambda>w. w\<lparr>k_cancel_saved := saved, k_cancel_active := True\<rparr>);
           ret None
         }
     }
   }"

definition landin_cancellation_end :: "('z proc_world_scheme, unit) state" where
  "landin_cancellation_end = do {
     active \<leftarrow> gets k_cancel_active;
     if \<not> active then ret ()
     else do {
       saved \<leftarrow> gets k_cancel_saved;
       restore_signals (zip cancel_numbers saved);
       modify (\<lambda>w. w\<lparr>k_cancel_active := False, w_cancel := 0\<rparr>)
     }
   }"

definition landin_cancellation_requested :: "('z proc_world_scheme, nat) state" where
  "landin_cancellation_requested = gets w_cancel"

section \<open>Captures\<close>

text \<open>A capture is an anonymous file: made in a fresh private directory and unlinked at once.\<close>

definition shut :: "int \<Rightarrow> ('z world_scheme, unit) state" where
  "shut fd = do { sys_close fd; ret () }"

definition shut_if_open :: "int \<Rightarrow> ('z world_scheme, unit) state" where
  "shut_if_open fd = (if 0 \<le> fd then shut fd else ret ())"

definition capture_failed :: "int \<Rightarrow> owned \<Rightarrow> ('z world_scheme, (int \<times> cstring) option) state" where
  "capture_failed fd ow = do {
     error \<leftarrow> get_errno;
     shut_if_open fd;
     (removed, ow2) \<leftarrow> landin_owned_remove ow;
     shut_if_open (o_root ow2);
     shut (o_parent ow2);
     set_errno error;
     ret None
   }"

definition landin_tool_capture_locked :: "nat
    \<Rightarrow> ('z proc_world_scheme, (int \<times> cstring) option) state" where
  "landin_tool_capture_locked capacity = do {
     room \<leftarrow> alloc;
     if \<not> room then ret None
     else do {
       created \<leftarrow> landin_owned_create ''landin-tool-'';
       case created of
         None \<Rightarrow> ret None
       | Some ow \<Rightarrow> do {
           fd \<leftarrow> sys_openat (o_root ow) ''capture''
                  [O_RDWR, O_CREAT, O_EXCL, O_NOFOLLOW, O_CLOEXEC] 384;
           unlinked \<leftarrow> (if fd < 0 then ret (-1) else sys_unlinkat (o_root ow) ''capture'' False);
           if fd < 0 \<or> unlinked \<noteq> 0 then capture_failed fd ow
           else if capacity \<le> length (o_path ow)
           then do { set_errno ENAMETOOLONG; capture_failed fd ow }
           else do {
             modify (\<lambda>w. w\<lparr>k_captures := \<lparr>k_fd = fd, k_owned = ow\<rparr> # k_captures w\<rparr>);
             barrier ''created'' (o_path ow);
             ret (Some (fd, o_path ow))
           }
         }
     }
   }"

definition landin_tool_capture_read_locked :: "int \<Rightarrow> ('z world_scheme, bytes option) state" where
  "landin_tool_capture_read_locked fd = do {
     room \<leftarrow> alloc;
     if \<not> room then ret None
     else do {
       got \<leftarrow> State (pread_loop EOVERFLOW fd [] 65536);
       ret (map_option fst got)
     }
   }"

fun drop_capture :: "int \<Rightarrow> capture list \<Rightarrow> capture list" where
  "drop_capture fd [] = []"
| "drop_capture fd (k # ks) = (if k_fd k = fd then ks else k # drop_capture fd ks)"

text \<open>The result with the reason, if one was given.\<close>

definition landin_tool_capture_close_locked :: "int \<Rightarrow> nat
    \<Rightarrow> ('z proc_world_scheme, int \<times> cstring) state" where
  "landin_tool_capture_close_locked fd capacity = do {
     entry \<leftarrow> gets (\<lambda>w. find (\<lambda>k. k_fd k = fd) (k_captures w));
     case entry of
       None \<Rightarrow> do { set_errno EBADF; ret (-1, []) }
     | Some capture \<Rightarrow> do {
         modify (\<lambda>w. w\<lparr>k_captures := drop_capture fd (k_captures w)\<rparr>);
         (result, ow) \<leftarrow> landin_owned_remove (k_owned capture);
         closed \<leftarrow> sys_close fd;
         shut_if_open (o_root ow);
         shut (o_parent ow);
         ret (if 0 \<le> result \<and> closed = 0 then 0 else -1,
              if capacity = 0 then []
              else if result < 0 then snprintf capacity (o_reason ow)
              else if closed \<noteq> 0 then snprintf capacity ''cannot close anonymous tool capture''
              else [])
       }
   }"

section \<open>Starting a tool\<close>

text \<open>A source among the standard descriptors is moved above them, once for each number.\<close>

definition landin_tool_source :: "int \<Rightarrow> int list \<Rightarrow> ('z world_scheme, int \<times> int list) state" where
  "landin_tool_source source moved =
     (if source < 0 \<or> 2 < source then ret (source, moved)
      else if moved ! nat source < 0 then do {
        copy \<leftarrow> sys_dup source 3;
        ret (copy, moved[nat source := copy])
      }
      else ret (moved ! nat source, moved))"

text \<open>The file actions of a start, in order: the directory, the three standard descriptors, and
  the closing of each source once.\<close>

definition start_actions :: "bool \<Rightarrow> int \<Rightarrow> int \<Rightarrow> int \<Rightarrow> int \<Rightarrow> file_action list" where
  "start_actions no_input input capture errors directory =
     (if 0 \<le> directory then [Fchdir directory] else [])
     @ (if 0 \<le> input then [Dup2 input 0] else [])
     @ [Dup2 capture 1, Dup2 (if errors < 0 then 1 else errors) 2]
     @ (if no_input then [Closefd 0] else [])
     @ (if 0 \<le> input then [Closefd input] else [])
     @ (if capture \<noteq> input then [Closefd capture] else [])
     @ (if 0 \<le> errors \<and> errors \<noteq> capture \<and> errors \<noteq> input then [Closefd errors] else [])
     @ (if 0 \<le> directory \<and> directory \<noteq> capture \<and> directory \<noteq> input \<and> directory \<noteq> errors
        then [Closefd directory] else [])"

text \<open>Recording the actions, each of which may fail.\<close>

fun add_actions :: "file_action list \<Rightarrow> ('z proc_world_scheme, errno option) state" where
  "add_actions [] = ret None"
| "add_actions (a # as) = do {
     error \<leftarrow> sys_setup;
     case error of None \<Rightarrow> add_actions as | Some e \<Rightarrow> ret (Some e)
   }"

fun close_moved :: "int list \<Rightarrow> ('z world_scheme, unit) state" where
  "close_moved [] = ret ()"
| "close_moved (fd # fds) = do { shut_if_open fd; close_moved fds }"

text \<open>The sources moved: an error, or the descriptors the actions read; and the copies made.\<close>

definition move_sources :: "int \<Rightarrow> int \<Rightarrow> int \<Rightarrow> int
    \<Rightarrow> ('z world_scheme, (errno + int \<times> int \<times> int \<times> int) \<times> int list) state" where
  "move_sources given_input given_capture given_errors given_directory = do {
     (input, m1) \<leftarrow> landin_tool_source given_input [-1, -1, -1];
     (capture, m2) \<leftarrow> landin_tool_source given_capture m1;
     (errors, m3) \<leftarrow> landin_tool_source given_errors m2;
     (directory, m4) \<leftarrow> landin_tool_source given_directory m3;
     e \<leftarrow> get_errno;
     ret (if 0 \<le> given_input \<and> input < 0 \<or> capture < 0 \<or> 0 \<le> given_errors \<and> errors < 0
             \<or> 0 \<le> given_directory \<and> directory < 0
          then Inl (if e \<noteq> EOK then e else EBADF)
          else Inr (input, capture, errors, directory), m4)
   }"

text \<open>
  A tool leads a group of its own. \<open>environ\<close> is the caller's environment, which nothing here changes.
\<close>

definition tool_attributes :: spawn_attr where
  "tool_attributes = \<lparr>a_group = True, a_defaults = [], a_mask = None\<rparr>"

definition landin_tool_start_in_directory :: "cstring list \<Rightarrow> cstring list \<Rightarrow> cstring list \<Rightarrow> bool
    \<Rightarrow> int \<Rightarrow> int \<Rightarrow> int \<Rightarrow> int \<Rightarrow> ('z proc_world_scheme, start_error option \<times> int) state" where
  "landin_tool_start_in_directory environ args env isolated given_input given_capture given_errors given_directory =
     (let no_input = (given_input < 0
        \<and> (given_capture = 0 \<or> given_errors = 0 \<or> given_directory = 0)) in do {
       policy \<leftarrow> landin_child_wait_policy;
       case policy of
         Some p \<Rightarrow> ret (Some p, 0)
       | None \<Rightarrow> do {
           error1 \<leftarrow> sys_setup;
           case error1 of
             Some e \<Rightarrow> ret (Some (Host_error e), 0)
           | None \<Rightarrow> do {
               error2 \<leftarrow> sys_setup;
               case error2 of
                 Some e \<Rightarrow> ret (Some (Host_error e), 0)
               | None \<Rightarrow> do {
                   error3 \<leftarrow> sys_setup;
                   error4 \<leftarrow> (case error3 of None \<Rightarrow> sys_setup | Some e \<Rightarrow> ret (Some e));
                   (sources, moved) \<leftarrow> (case error4 of
                       Some e \<Rightarrow> ret (Inl e, [-1, -1, -1])
                     | None \<Rightarrow> move_sources given_input given_capture given_errors given_directory);
                   started \<leftarrow> (case sources of
                       Inl e \<Rightarrow> ret (Inl e)
                     | Inr (input, capture, errors, directory) \<Rightarrow>
                         (let actions = start_actions no_input input capture errors directory in do {
                           recorded \<leftarrow> add_actions actions;
                           case recorded of
                             Some e \<Rightarrow> ret (Inl e)
                           | None \<Rightarrow> sys_posix_spawn actions tool_attributes args (if isolated then env else environ)
                         }));
                   close_moved moved;
                   ret (case started of Inl e \<Rightarrow> (Some (Host_error e), 0) | Inr pid \<Rightarrow> (None, pid))
                 }
             }
         }
     })"

definition landin_tool_start :: "cstring list \<Rightarrow> cstring list \<Rightarrow> cstring list \<Rightarrow> bool \<Rightarrow> int \<Rightarrow> int \<Rightarrow> int
    \<Rightarrow> ('z proc_world_scheme, start_error option \<times> int) state" where
  "landin_tool_start environ args env isolated input capture errors =
     landin_tool_start_in_directory environ args env isolated input capture errors (-1)"

section \<open>Waiting, stopping, cancelling\<close>

lemma sys_waitpid_interrupted:
  "run_state (sys_waitpid pid nohang) w = (None, w') \<Longrightarrow> w_errno w' = EINTR \<Longrightarrow>
   length (q_turns w') < length (q_turns w)"
  unfolding sys_waitpid_def
  by (rule pcall_interrupted) (auto split: option.splits if_splits)

lemma sys_waitid_interrupted:
  "run_state (sys_waitid pid) w = (None, w') \<Longrightarrow> w_errno w' = EINTR \<Longrightarrow>
   length (q_turns w') < length (q_turns w)"
  unfolding sys_waitid_def
  by (rule pcall_interrupted) (auto split: option.splits if_splits)

function wait_loop :: "int \<Rightarrow> bool \<Rightarrow> 'z proc_world_scheme
    \<Rightarrow> (int \<times> child_state) option \<times> 'z proc_world_scheme" where
  "wait_loop child no_hang w = (case run_state (sys_waitpid child no_hang) w of
     (None, w1) \<Rightarrow> if w_errno w1 = EINTR then wait_loop child no_hang w1 else (None, w1)
   | (Some r, w1) \<Rightarrow> (Some r, w1))"
  by pat_completeness auto
termination
  by (relation "measure (\<lambda>(c, h, w). length (q_turns w))") (auto dest: sys_waitpid_interrupted [OF sym])

declare wait_loop.simps [simp del]

function observe_loop :: "int \<Rightarrow> 'z proc_world_scheme \<Rightarrow> int option \<times> 'z proc_world_scheme" where
  "observe_loop child w = (case run_state (sys_waitid child) w of
     (None, w1) \<Rightarrow> if w_errno w1 = EINTR then observe_loop child w1 else (None, w1)
   | (Some r, w1) \<Rightarrow> (Some r, w1))"
  by pat_completeness auto
termination
  by (relation "measure (\<lambda>(c, w). length (q_turns w))") (auto dest: sys_waitid_interrupted [OF sym])

declare observe_loop.simps [simp del]

text \<open>The result, the status when one was set, and whether the child is still reserved.\<close>

definition landin_tool_wait_reserved :: "int \<Rightarrow> bool
    \<Rightarrow> ('z proc_world_scheme, int \<times> int option \<times> bool) state" where
  "landin_tool_wait_reserved child no_hang =
     (if child \<le> 0 then do { set_errno EINVAL; ret (-1, None, False) }
      else do {
        reaped \<leftarrow> State (wait_loop child no_hang);
        e \<leftarrow> get_errno;
        ret (case reaped of
            None \<Rightarrow> (-1, None, e \<noteq> ECHILD)
          | Some (pid, s) \<Rightarrow>
              if 0 < pid then (pid, Some (case s of Exited n \<Rightarrow> int n | _ \<Rightarrow> -1), False)
              else (pid, None, True))
      })"

definition landin_tool_wait :: "int \<Rightarrow> bool \<Rightarrow> ('z proc_world_scheme, int \<times> int option) state" where
  "landin_tool_wait child no_hang = do {
     (result, status, owned) \<leftarrow> landin_tool_wait_reserved child no_hang;
     ret (result, status)
   }"

text \<open>Darwin's answer for a group that holds only its ended leader: true when the stop may go on.\<close>

definition group_of_ended_leader :: "int \<Rightarrow> ('z proc_world_scheme, bool) state" where
  "group_of_ended_leader child = do {
     error \<leftarrow> get_errno;
     h \<leftarrow> gets w_host;
     if h \<noteq> Darwin then ret False
     else if error \<noteq> EPERM then do { set_errno error; ret False }
     else do {
       observed \<leftarrow> sys_waitid child;
       e \<leftarrow> get_errno;
       if observed = Some child then ret True
       else if observed = None \<and> e = ECHILD then ret False
       else do { set_errno error; ret False }
     }
   }"

definition landin_tool_stop :: "int \<Rightarrow> ('z proc_world_scheme, int \<times> int option) state" where
  "landin_tool_stop child =
     (if child \<le> 0 then do { set_errno EINVAL; ret (-1, None) }
      else do {
        killed \<leftarrow> sys_kill (- child) SIGKILL;
        e \<leftarrow> get_errno;
        go_on \<leftarrow> (if killed \<noteq> 0 \<and> e \<noteq> ESRCH then group_of_ended_leader child else ret True);
        if \<not> go_on then ret (-1, None)
        else do {
          direct \<leftarrow> sys_kill child SIGKILL;
          e2 \<leftarrow> get_errno;
          if direct \<noteq> 0 \<and> e2 \<noteq> ESRCH then ret (-1, None)
          else landin_tool_wait child False
        }
      })"

text \<open>The hook of the tests only observes; \<open>errno\<close> is kept around it.\<close>

definition landin_cancel_forward :: "int \<Rightarrow> nat \<Rightarrow> ('z proc_world_scheme, int) state" where
  "landin_cancel_forward target number = sys_kill target number"

text \<open>At most fifty rounds of watching the child end; \<open>None\<close> when it cannot be watched.\<close>

fun watch_end :: "nat \<Rightarrow> int \<Rightarrow> ('z proc_world_scheme, bool) state" where
  "watch_end 0 child = ret True"
| "watch_end (Suc k) child = do {
     info \<leftarrow> sys_waitid child;
     e \<leftarrow> get_errno;
     if info = None \<and> e \<noteq> EINTR then ret False
     else if (case info of None \<Rightarrow> False | Some pid \<Rightarrow> pid \<noteq> 0) then ret True
     else watch_end k child
   }"

text \<open>The direct fallback when the group could not be signalled: \<open>Inl\<close> says the call ends
  there, with the ownership.\<close>

definition cancel_fallback :: "int \<Rightarrow> nat \<Rightarrow> ('z proc_world_scheme, bool + unit) state" where
  "cancel_fallback child number = do {
     error \<leftarrow> get_errno;
     h \<leftarrow> gets w_host;
     if error \<noteq> ESRCH \<and> \<not> (h = Darwin \<and> error = EPERM) then ret (Inl True)
     else do {
       observed \<leftarrow> State (observe_loop child);
       e \<leftarrow> get_errno;
       case observed of
         None \<Rightarrow> ret (Inl (e \<noteq> ECHILD))
       | Some pid \<Rightarrow>
           if pid = 0 then
             (if error \<noteq> ESRCH then do { set_errno error; ret (Inl True) }
              else do {
                sent \<leftarrow> landin_cancel_forward child number;
                e2 \<leftarrow> get_errno;
                if sent \<noteq> 0 \<and> e2 \<noteq> ESRCH then ret (Inl True) else ret (Inr ())
              })
           else if pid \<noteq> child then do { set_errno ECHILD; ret (Inl False) }
           else ret (Inr ())
     }
   }"

definition landin_tool_cancel_reserved :: "int
    \<Rightarrow> ('z proc_world_scheme, int \<times> int option \<times> bool) state" where
  "landin_tool_cancel_reserved child = do {
     number \<leftarrow> landin_cancellation_requested;
     if child \<le> 0 \<or> number = 0 then do { set_errno EINVAL; ret (-1, None, 0 < child) }
     else do {
       sent \<leftarrow> landin_cancel_forward (- child) number;
       fallback \<leftarrow> (if sent \<noteq> 0 then cancel_fallback child number else ret (Inr ()));
       case fallback of
         Inl owned \<Rightarrow> ret (-1, None, owned)
       | Inr _ \<Rightarrow> do {
           watched \<leftarrow> watch_end 50 child;
           e \<leftarrow> get_errno;
           if \<not> watched then ret (-1, None, e \<noteq> ECHILD)
           else do {
             (result, status) \<leftarrow> landin_tool_stop child;
             e2 \<leftarrow> get_errno;
             ret (result, status, \<not> (result = child \<or> result < 0 \<and> e2 = ECHILD))
           }
         }
     }
   }"

definition landin_tool_cancel :: "int \<Rightarrow> ('z proc_world_scheme, int \<times> int option) state" where
  "landin_tool_cancel child = do {
     (result, status, owned) \<leftarrow> landin_tool_cancel_reserved child;
     ret (result, status)
   }"

section \<open>Running a program in the foreground\<close>

definition landin_program_catch :: "nat \<Rightarrow> ('z proc_world_scheme, disposition) state" where
  "landin_program_catch number = do {
     old \<leftarrow> sig_look number;
     if old = SIG_IGN then ret old
     else do { sig_set number Program_forward; ret old }
   }"

text \<open>The mask: unblocking delivers what was held back, newest last.\<close>

definition block_signals :: "nat list \<Rightarrow> ('z proc_world_scheme, unit) state" where
  "block_signals numbers = modify (\<lambda>w. w\<lparr>q_mask := numbers @ q_mask w\<rparr>)"

definition set_mask :: "nat list \<Rightarrow> ('z proc_world_scheme, unit) state" where
  "set_mask blocked = modify (\<lambda>w. (let w1 = w\<lparr>q_mask := blocked, q_pending := []\<rparr> in
     fold deliver (rev (q_pending w)) w1))"

text \<open>The exit status, or the signal that ended the program.\<close>

definition await_program :: "int \<Rightarrow> ('z proc_world_scheme, errno option \<times> nat \<times> nat) state" where
  "await_program pid = do {
     pending \<leftarrow> gets k_program_pending;
     (if pending \<noteq> 0 then do { sys_kill pid pending; ret () } else ret ());
     reaped \<leftarrow> State (wait_loop pid False);
     e \<leftarrow> get_errno;
     ret (case reaped of
         None \<Rightarrow> (Some e, 0, 0)
       | Some (_, s) \<Rightarrow> (None, (case s of Signaled n \<Rightarrow> n | _ \<Rightarrow> 0),
                               (case s of Exited n \<Rightarrow> n | _ \<Rightarrow> 0)))
   }"

text \<open>The program gets the default action for interrupt and quit, and the mask of before the block.\<close>

definition program_attributes :: "nat list \<Rightarrow> spawn_attr" where
  "program_attributes old_mask = \<lparr>a_group = False, a_defaults = [SIGINT, SIGQUIT], a_mask = Some old_mask\<rparr>"

text \<open>The result: an error, the signal's number, the status, and the child.\<close>

definition run_program :: "cstring list \<Rightarrow> cstring list \<Rightarrow> nat list
    \<Rightarrow> ('z proc_world_scheme, errno option \<times> nat \<times> nat \<times> int) state" where
  "run_program environ args old_mask = do {
     old_interrupt \<leftarrow> sig_exchange SIGINT SIG_IGN;
     old_quit \<leftarrow> sig_exchange SIGQUIT SIG_IGN;
     modify (\<lambda>w. w\<lparr>k_program_child := 0, k_program_pending := 0\<rparr>);
     old_terminate \<leftarrow> landin_program_catch SIGTERM;
     old_hangup \<leftarrow> landin_program_catch SIGHUP;
     spawned \<leftarrow> sys_posix_spawn [] (program_attributes old_mask) args environ;
     (case spawned of
        Inl _ \<Rightarrow> do { sig_set SIGTERM old_terminate; sig_set SIGHUP old_hangup }
      | Inr pid \<Rightarrow> modify (\<lambda>w. w\<lparr>k_program_child := pid\<rparr>));
     set_mask old_mask;
     result \<leftarrow> (case spawned of
        Inl e \<Rightarrow> do {
          modify (\<lambda>w. if k_program_pending w \<noteq> 0 then deliver (k_program_pending w) w else w);
          ret (Some e, 0, 0, 0)
        }
      | Inr pid \<Rightarrow> do {
          (error, number, status) \<leftarrow> await_program pid;
          sig_set SIGTERM old_terminate;
          sig_set SIGHUP old_hangup;
          ret (error, number, status, pid)
        });
     modify (\<lambda>w. w\<lparr>k_program_child := 0\<rparr>);
     sig_set SIGINT old_interrupt;
     sig_set SIGQUIT old_quit;
     ret result
   }"

definition landin_program_run :: "cstring list \<Rightarrow> cstring list
    \<Rightarrow> ('z proc_world_scheme, start_error option \<times> nat \<times> nat \<times> int) state" where
  "landin_program_run environ args = do {
     policy \<leftarrow> landin_child_wait_policy;
     case policy of
       Some p \<Rightarrow> ret (Some p, 0, 0, 0)
     | None \<Rightarrow> do {
         masked \<leftarrow> sys_setup;
         case masked of
           Some e \<Rightarrow> ret (Some (Host_error e), 0, 0, 0)
         | None \<Rightarrow> do {
             old_mask \<leftarrow> gets q_mask;
             block_signals [SIGTERM, SIGHUP];
             error1 \<leftarrow> sys_setup;
             case error1 of
               Some e \<Rightarrow> do { set_mask old_mask; ret (Some (Host_error e), 0, 0, 0) }
             | None \<Rightarrow> do {
                 error2 \<leftarrow> sys_setup;
                 error3 \<leftarrow> (case error2 of None \<Rightarrow> sys_setup | Some e \<Rightarrow> ret (Some e));
                 error4 \<leftarrow> (case error3 of None \<Rightarrow> sys_setup | Some e \<Rightarrow> ret (Some e));
                 case error4 of
                   Some e \<Rightarrow> do { set_mask old_mask; ret (Some (Host_error e), 0, 0, 0) }
                 | None \<Rightarrow> do {
                     (error, number, status, child) \<leftarrow> run_program environ args old_mask;
                     ret (map_option Host_error error, number, status, child)
                   }
               }
           }
       }
   }"

definition landin_signal_name :: "nat \<Rightarrow> cstring option" where
  "landin_signal_name signal_number = map_of
     [(1, ''SIGHUP''), (2, ''SIGINT''), (3, ''SIGQUIT''), (4, ''SIGILL''), (5, ''SIGTRAP''),
      (6, ''SIGABRT''), (7, ''SIGBUS''), (8, ''SIGFPE''), (9, ''SIGKILL''), (10, ''SIGUSR1''),
      (11, ''SIGSEGV''), (12, ''SIGUSR2''), (13, ''SIGPIPE''), (14, ''SIGALRM''), (15, ''SIGTERM''),
      (17, ''SIGCHLD''), (18, ''SIGCONT''), (19, ''SIGSTOP''), (20, ''SIGTSTP''), (21, ''SIGTTIN''),
      (22, ''SIGTTOU''), (23, ''SIGURG''), (24, ''SIGXCPU''), (25, ''SIGXFSZ''), (26, ''SIGVTALRM''),
      (27, ''SIGPROF''), (31, ''SIGSYS'')] signal_number"

end
