(* ===== verification/HostServices.thy ===== *)
theory HostServices
  imports Host
begin

text \<open>
  Models of three small host services: the byte channel of the language server
  (\<^verbatim>\<open>compiler/ada/src/platform/landin_channel.c\<close>), the lookup of the running executable
  (\<^verbatim>\<open>landin_executable.c\<close>) and the resource measurements (\<^verbatim>\<open>landin_resource_usage.c\<close>).
\<close>

section \<open>The channel\<close>

text \<open>
  The standard descriptors are streams: input arrives in the turns of the environment, output is
  what has been taken by each descriptor. A read that would wait takes turns until input arrives
  or the schedule is used up, which is the end of the input.
\<close>

record cturn =
  cu_fault :: "errno option"
  cu_amount :: "nat option"
  cu_arrive :: bytes
  cu_invalid :: bool

record channel =
  c_input :: bytes
  c_sent :: "int \<Rightarrow> bytes"
  c_errno :: errno
  c_turns :: "cturn list"

definition idle_cturn :: cturn where
  "idle_cturn = \<lparr>cu_fault = None, cu_amount = None, cu_arrive = [], cu_invalid = False\<rparr>"

definition next_cturn :: "channel \<Rightarrow> cturn \<times> channel" where
  "next_cturn c = (case c_turns c of [] \<Rightarrow> (idle_cturn, c)
     | t # ts \<Rightarrow> (t, c\<lparr>c_turns := ts, c_input := c_input c @ cu_arrive t\<rparr>))"

function sys_read_stream :: "nat \<Rightarrow> channel \<Rightarrow> bytes option \<times> channel" where
  "sys_read_stream len c = (case next_cturn c of (t, c1) \<Rightarrow>
     (case cu_fault t of
        Some e \<Rightarrow> (None, c1\<lparr>c_errno := e\<rparr>)
      | None \<Rightarrow>
          if c_input c1 = [] \<and> c_turns c \<noteq> [] \<and> 0 < len then sys_read_stream len c1
          else (let n = short_read (cu_amount t) len in
            (Some (take n (c_input c1)), c1\<lparr>c_input := drop n (c_input c1)\<rparr>))))"
  by pat_completeness auto
termination
  by (relation "measure (\<lambda>(n, c). length (c_turns c))")
    (auto simp: next_cturn_def split: list.splits)

declare sys_read_stream.simps [simp del]

text \<open>\<^verbatim>\<open>poll\<close> without waiting: the events reported, readable or invalid.\<close>

definition sys_poll_input :: "channel \<Rightarrow> (bool \<times> bool) option \<times> channel" where
  "sys_poll_input c = (case next_cturn c of (t, c1) \<Rightarrow>
     (case cu_fault t of
        Some e \<Rightarrow> (None, c1\<lparr>c_errno := e\<rparr>)
      | None \<Rightarrow> (Some (cu_invalid t \<or> c_input c1 \<noteq> [] \<or> c_turns c = [], cu_invalid t), c1)))"

definition sys_write_stream :: "int \<Rightarrow> bytes \<Rightarrow> channel \<Rightarrow> int \<times> channel" where
  "sys_write_stream fd data c = (case next_cturn c of (t, c1) \<Rightarrow>
     (case cu_fault t of
        Some e \<Rightarrow> (-1, c1\<lparr>c_errno := e\<rparr>)
      | None \<Rightarrow> (let n = short_write (cu_amount t) (length data) in
          (int n, c1\<lparr>c_sent := (c_sent c1)(fd := c_sent c1 fd @ take n data)\<rparr>))))"

lemma next_cturn_turns:
  "next_cturn c = (t, c1) \<Longrightarrow> length (c_turns c1) \<le> length (c_turns c)
     \<and> (t \<noteq> idle_cturn \<longrightarrow> length (c_turns c1) < length (c_turns c))"
  by (auto simp: next_cturn_def split: list.splits)

lemma sys_read_stream_failed:
  "sys_read_stream len c = (None, c') \<Longrightarrow> length (c_turns c') < length (c_turns c)"
proof (induction len c rule: sys_read_stream.induct)
  case (1 len c)
  obtain t c1 where n: "next_cturn c = (t, c1)" by fastforce
  show ?case
  proof (cases "cu_fault t")
    case None
    with 1 n next_cturn_turns [OF n] show ?thesis
      by (subst (asm) (2) sys_read_stream.simps) (fastforce simp: Let_def split: if_splits)
  next
    case (Some e)
    then have "t \<noteq> idle_cturn" by (auto simp: idle_cturn_def)
    with 1 n Some next_cturn_turns [OF n] show ?thesis
      by (subst (asm) (2) sys_read_stream.simps) auto
  qed
qed

lemma sys_poll_input_failed:
  "sys_poll_input c = (None, c') \<Longrightarrow> length (c_turns c') < length (c_turns c)"
  by (auto simp: sys_poll_input_def next_cturn_def idle_cturn_def
      split: list.splits option.splits prod.splits)

lemma sys_write_stream_stuck:
  assumes "sys_write_stream fd data c = (n, c')" and "n \<le> 0" and "data \<noteq> []"
  shows "length (c_turns c') < length (c_turns c)"
  using assms
  by (auto simp: sys_write_stream_def next_cturn_def idle_cturn_def short_write_def Let_def
      split: list.splits option.splits prod.splits)

lemma sys_write_stream_turns:
  "sys_write_stream fd data c = (n, c') \<Longrightarrow> length (c_turns c') \<le> length (c_turns c)"
  by (auto simp: sys_write_stream_def next_cturn_def Let_def
      split: list.splits option.splits prod.splits)

lemma sys_write_stream_moves:
  assumes "sys_write_stream fd data c = (n, c')" and "data \<noteq> []"
    and "length (c_turns c) \<le> length (c_turns c')"
  shows "0 < nat n"
  using sys_write_stream_stuck [OF assms(1) _ assms(2)] assms(3) by (cases "n \<le> 0") auto

text \<open>The bytes read, none at the end of input; \<open>None\<close> is the code's -1.\<close>

function landin_channel_read :: "nat \<Rightarrow> channel \<Rightarrow> bytes option \<times> channel" where
  "landin_channel_read len c = (case sys_read_stream len c of
     (Some got, c1) \<Rightarrow> (Some got, c1)
   | (None, c1) \<Rightarrow> if c_errno c1 \<noteq> EINTR then (None, c1) else landin_channel_read len c1)"
  by pat_completeness auto
termination
  by (relation "measure (\<lambda>(n, c). length (c_turns c))")
    (auto dest: sys_read_stream_failed [OF sym])

declare landin_channel_read.simps [simp del]

function landin_channel_pending :: "channel \<Rightarrow> int \<times> channel" where
  "landin_channel_pending c = (case sys_poll_input c of
     (Some (ready, invalid), c1) \<Rightarrow>
       (if ready \<and> invalid then -1 else if ready then 1 else 0, c1)
   | (None, c1) \<Rightarrow> if c_errno c1 \<noteq> EINTR then (-1, c1) else landin_channel_pending c1)"
  by pat_completeness auto
termination
  by (relation "measure (\<lambda>c. length (c_turns c))") (auto dest: sys_poll_input_failed [OF sym])

declare landin_channel_pending.simps [simp del]

function channel_write_from :: "int \<Rightarrow> bytes \<Rightarrow> channel \<Rightarrow> int \<times> channel" where
  "channel_write_from fd data c =
     (if data = [] then (0, c)
      else (case sys_write_stream fd data c of (wrote, c1) \<Rightarrow>
        if wrote < 0 then (if c_errno c1 = EINTR then channel_write_from fd data c1 else (-1, c1))
        else channel_write_from fd (drop (nat wrote) data) c1))"
  by pat_completeness auto
termination
proof (relation "measures [\<lambda>(fd, data, c). length (c_turns c), \<lambda>(fd, data, c). length data]",
    goal_cases)
  case 1
  show ?case by simp
next
  case 2
  then show ?case by (auto dest: sys_write_stream_stuck [OF sym])
next
  case 3
  then show ?case
    by (auto dest: sys_write_stream_moves [OF sym] sys_write_stream_turns [OF sym]
        simp: not_less intro: le_neq_implies_less)
qed

declare channel_write_from.simps [simp del]

text \<open>A length that is not positive writes nothing.\<close>

definition landin_channel_write :: "int \<Rightarrow> bytes \<Rightarrow> int \<Rightarrow> channel \<Rightarrow> int \<times> channel" where
  "landin_channel_write fd item len c =
     (if len \<le> 0 then (0, c) else channel_write_from fd (take (nat len) item) c)"

section \<open>The executable's path\<close>

text \<open>
  What each host answers: the target of \<^verbatim>\<open>/proc/self/exe\<close>; the loader's name with the real path
  of it; the bytes of the kernel's answer with their size, which counts the terminating NUL. The
  result is the path, or \<open>None\<close> for the code's -1.
\<close>

record exe_answers =
  x_link :: "cstring option"
  x_named :: "cstring option"
  x_real :: "cstring \<Rightarrow> cstring option"
  x_sysctl :: "bytes option"

definition landin_executable_path :: "host \<Rightarrow> exe_answers \<Rightarrow> nat \<Rightarrow> cstring option" where
  "landin_executable_path h x room =
     (if room = 0 then None
      else (case h of
        Linux \<Rightarrow> (case x_link x of
            None \<Rightarrow> None
          | Some target \<Rightarrow> (let written = take room target in
              if written = [] \<or> room \<le> length written then None else Some written))
      | Darwin \<Rightarrow> (case x_named x of
            None \<Rightarrow> None
          | Some named \<Rightarrow> (case x_real x named of
              None \<Rightarrow> None
            | Some resolved \<Rightarrow> if room \<le> length resolved then None else Some resolved))
      | FreeBSD \<Rightarrow> (case x_sysctl x of
            None \<Rightarrow> None
          | Some bs \<Rightarrow> if bs = [] \<or> room < length bs \<or> last bs \<noteq> CHR 0x00 then None
              else Some (takeWhile (\<lambda>c. c \<noteq> CHR 0x00) bs))))"

section \<open>Resources\<close>

text \<open>\<^verbatim>\<open>struct rusage\<close>, the fields read, and the allocator's figures.\<close>

record rusage =
  ru_utime_sec :: int
  ru_utime_usec :: int
  ru_stime_sec :: int
  ru_stime_usec :: int
  ru_maxrss :: int

definition landin_resource_usage :: "host \<Rightarrow> rusage option \<Rightarrow> (int \<times> int) option" where
  "landin_resource_usage h answer = (case answer of
     None \<Rightarrow> None
   | Some u \<Rightarrow> Some ((ru_utime_sec u + ru_stime_sec u) * 1000000
                     + ru_utime_usec u + ru_stime_usec u,
                   if h = Darwin then ru_maxrss u div 1024 else ru_maxrss u))"

text \<open>A zone's introspection: the ranges in use its enumerator reports, and which of the lock
  functions it has. The events are the calls made on zones, by their index, in order.\<close>

record zone =
  z_ranges :: "int list option"
  z_locks :: bool
  z_unlocks :: bool

datatype zone_event = Locked nat | Walked nat | Unlocked nat

definition landin_sum_ranges :: "int \<Rightarrow> int list \<Rightarrow> int" where
  "landin_sum_ranges acc ranges = foldl (+) acc ranges"

fun sum_zones :: "nat \<Rightarrow> zone option list \<Rightarrow> int \<Rightarrow> int \<times> zone_event list" where
  "sum_zones i [] acc = (acc, [])"
| "sum_zones i (z # zs) acc = (case z of
     None \<Rightarrow> sum_zones (Suc i) zs acc
   | Some look \<Rightarrow> (case z_ranges look of
       None \<Rightarrow> sum_zones (Suc i) zs acc
     | Some ranges \<Rightarrow>
         (case sum_zones (Suc i) zs (landin_sum_ranges acc ranges) of (bytes_used, es) \<Rightarrow>
            (bytes_used, (if z_locks look then [Locked i] else []) @ [Walked i]
                  @ (if z_unlocks look then [Unlocked i] else []) @ es))))"

definition landin_allocated_bytes :: "host \<Rightarrow> zone option list option \<Rightarrow> int \<times> int \<Rightarrow> int" where
  "landin_allocated_bytes h zones mallinfo =
     (if h = Darwin then (case zones of None \<Rightarrow> -1 | Some zs \<Rightarrow> fst (sum_zones 0 zs 0))
      else fst mallinfo + snd mallinfo)"

end
