(* ===== verification/NameFacts.thy ===== *)
theory NameFacts
  imports PublicationStep
begin

text \<open>
  Facts about the name-space guards: which spellings the reserved name spaces claim, and when
  two entry names are taken for the same entry.
\<close>

section \<open>Reserved components\<close>

definition boundary :: "bool \<Rightarrow> char option \<Rightarrow> bool" where
  "boundary argument p \<longleftrightarrow> p = None \<or> p = Some (CHR ''/'')
     \<or> argument \<and> (p = Some (CHR ''='') \<or> p = Some (CHR '',''))"

lemma reserved_from_iff:
  "reserved_from argument prev s \<longleftrightarrow>
     (\<exists>u c v. s = u @ stage_marker @ c # v \<and> c \<noteq> CHR ''/''
        \<and> boundary argument (if u = [] then prev else Some (last u)))"
proof (induction argument prev s rule: reserved_from.induct)
  case (1 argument prev s)
  show ?case
  proof (cases "strstr s stage_marker")
    case None
    then have "\<not> (\<exists>u r. s = u @ stage_marker @ r)" by (rule strstr_None)
    with None show ?thesis by (subst reserved_from.simps) auto
  next
    case (Some bv)
    obtain b later where bl: "bv = (b, later)" by (cases bv)
    from Some bl have s: "s = b @ later" and m: "starts_with stage_marker later"
      using strstr_Some by auto
    from m obtain rest where later: "later = stage_marker @ rest" by (auto simp: str_simps)
    define here where "here \<longleftrightarrow> boundary argument (if b = [] then prev else Some (last b))
        \<and> rest \<noteq> [] \<and> hd rest \<noteq> CHR ''/''"
    have ne: "later \<noteq> []" using later by (simp add: stage_marker_def)
    have unfold: "reserved_from argument prev s \<longleftrightarrow> here \<or> reserved_from argument (Some (hd later)) (tl later)"
      by (subst reserved_from.simps) (auto simp: Some bl later here_def boundary_def Let_def)
    have IH: "\<not> here \<Longrightarrow> reserved_from argument (Some (hd later)) (tl later) \<longleftrightarrow>
       (\<exists>u c v. tl later = u @ stage_marker @ c # v \<and> c \<noteq> CHR ''/''
        \<and> boundary argument (if u = [] then Some (hd later) else Some (last u)))"
      using 1 [OF Some bl [symmetric] refl refl] by (auto simp: here_def boundary_def later)
    show ?thesis
    proof (cases here)
      case True
      then obtain c v where "rest = c # v" by (cases rest) (auto simp: here_def)
      with True have "s = b @ stage_marker @ c # v \<and> c \<noteq> CHR ''/''
        \<and> boundary argument (if b = [] then prev else Some (last b))"
        using s later by (simp add: here_def)
      with True unfold show ?thesis by blast
    next
      case False
      show ?thesis
      proof
        assume "reserved_from argument prev s"
        with False unfold IH obtain u c v where "tl later = u @ stage_marker @ c # v" "c \<noteq> CHR ''/''"
          "boundary argument (if u = [] then Some (hd later) else Some (last u))" by blast
        moreover from this ne have "s = (b @ hd later # u) @ stage_marker @ c # v"
          using s by (cases later) auto
        ultimately show "\<exists>u c v. s = u @ stage_marker @ c # v \<and> c \<noteq> CHR ''/''
          \<and> boundary argument (if u = [] then prev else Some (last u))"
          by (intro exI [of _ "b @ hd later # u"] exI [of _ c] exI [of _ v]) auto
      next
        assume "\<exists>u c v. s = u @ stage_marker @ c # v \<and> c \<noteq> CHR ''/''
          \<and> boundary argument (if u = [] then prev else Some (last u))"
        then obtain u c v where u: "s = u @ stage_marker @ c # v" "c \<noteq> CHR ''/''"
          "boundary argument (if u = [] then prev else Some (last u))" by blast
        have "length b \<le> length u" using strstr_first [OF _ u(1)] Some bl by simp
        then obtain d where d: "u = b @ d" 
          using u(1) s by (metis append_eq_append_conv_if append_eq_conv_conj append_take_drop_id)
        have "d \<noteq> []"
        proof
          assume "d = []"
          with d u s later have "rest = c # v" by auto
          with \<open>d = []\<close> d u False show False by (auto simp: here_def)
        qed
        with d u(1) s have "tl later = tl d @ stage_marker @ c # v" "hd later = hd d"
          by (auto simp: later)
        moreover have "boundary argument (if tl d = [] then Some (hd later) else Some (last (tl d)))"
          using u(3) d \<open>d \<noteq> []\<close> \<open>hd later = hd d\<close> by (cases d) (simp_all split: if_splits)
        ultimately have "reserved_from argument (Some (hd later)) (tl later)"
          unfolding IH [OF False] using u(2) by blast
        then show "reserved_from argument prev s" using unfold by blast
      qed
    qed
  qed
qed

lemma boundary_start:
  "boundary argument (if u = [] then None else Some (last u)) \<longleftrightarrow>
     (u = [] \<or> last u = CHR ''/'' \<or> argument \<and> (last u = CHR ''='' \<or> last u = CHR '',''))"
  by (simp add: boundary_def)

text \<open>
  C18. The guard of the staged name space is a test on components: a spelling is reserved exactly
  when the arenas' marker stands at the start of a component of it and that component goes on
  after the marker; in a tool argument the start of a value after an equals sign or a comma
  counts as well. The marker inside a component does not reserve the spelling.
\<close>

theorem reserved_stage_iff:
  "reserved_stage path argument \<longleftrightarrow>
     (\<exists>u c v. path = u @ stage_marker @ c # v \<and> c \<noteq> CHR ''/''
        \<and> (u = [] \<or> last u = CHR ''/''
           \<or> argument \<and> (last u = CHR ''='' \<or> last u = CHR '','')))"
  by (simp only: reserved_stage_def reserved_from_iff boundary_start)

text \<open>The marker of the private roots does not overlap itself: its dot is its first character.\<close>

lemma private_marker_dot:
  "0 < k \<Longrightarrow> k < length private_marker \<Longrightarrow> private_marker ! k \<noteq> CHR ''.''"
proof -
  assume k: "0 < k" "k < length private_marker"
  have "CHR ''.'' \<notin> set (tl private_marker)" by (simp add: private_marker_def)
  moreover have "private_marker ! k \<in> set (tl private_marker)"
    using k by (metis Suc_less_eq Suc_pred length_tl less_diff_conv nth_mem nth_tl One_nat_def Suc_eq_plus1)
  ultimately show "private_marker ! k \<noteq> CHR ''.''" by metis
qed

lemma private_marker_apart:
  assumes "b @ private_marker @ rest = u @ private_marker @ x" and "length b < length u"
  obtains u' where "u = b @ private_marker @ u'"
proof -
  have "length private_marker \<le> length u - length b"
  proof (rule ccontr)
    assume near: "\<not> ?thesis"
    let ?k = "length u - length b"
    have "(b @ private_marker @ rest) ! length u = private_marker ! ?k"
      using near assms(2) by (simp add: nth_append)
    moreover have "(u @ private_marker @ x) ! length u = CHR ''.''"
      by (simp add: nth_append private_marker_def)
    ultimately have "private_marker ! ?k = CHR ''.''" using assms(1) by simp
    then show False using private_marker_dot [of ?k] near assms(2) by simp
  qed
  then have "length (b @ private_marker) \<le> length u" using assms(2) by simp
  then have "take (length (b @ private_marker)) u = b @ private_marker"
    using assms(1) by (metis append_assoc append_eq_append_conv_if)
  then have "u = b @ private_marker @ drop (length (b @ private_marker)) u"
    by (metis append_assoc append_take_drop_id)
  then show thesis by (rule that)
qed

text \<open>An occurrence that goes on, where the first does not, stands in what follows the first.\<close>

lemma marker_after_first:
  assumes first: "strstr path private_marker = Some (b, later)" and path: "path = b @ private_marker @ rest"
    and ends: "\<not> (rest \<noteq> [] \<and> hd rest \<noteq> CHR ''/'')"
    and u: "path = u @ private_marker @ c # v" "c \<noteq> CHR ''/''"
  obtains u' where "rest = u' @ private_marker @ c # v"
proof -
  have "length b \<le> length u" using strstr_first [OF _ u(1)] first by simp
  moreover have "length b \<noteq> length u"
  proof
    assume "length b = length u"
    with u path have "rest = c # v" by simp
    with u ends show False by simp
  qed
  ultimately obtain u' where "u = b @ private_marker @ u'"
    using private_marker_apart [of b rest u "c # v"] path u(1) by auto
  with u path have "rest = u' @ private_marker @ c # v" by simp
  then show thesis by (rule that)
qed

text \<open>
  C19. The guard of the private roots accepts no detour: a spelling is reserved exactly when the
  marker of the private roots stands anywhere in it and its component goes on after the marker,
  for every one of its occurrences and not only the first.
\<close>

theorem reserved_private_iff:
  "landin_reserved_private path \<longleftrightarrow>
     (\<exists>u c v. path = u @ private_marker @ c # v \<and> c \<noteq> CHR ''/'')"
proof (induction path rule: landin_reserved_private.induct)
  case (1 path)
  show ?case
  proof (cases "strstr path private_marker")
    case None
    then have "\<not> (\<exists>u r. path = u @ private_marker @ r)" by (rule strstr_None)
    with None show ?thesis by (subst landin_reserved_private.simps) auto
  next
    case (Some bv)
    obtain b later where bl: "bv = (b, later)" by (cases bv)
    from Some bl obtain rest where path: "path = b @ private_marker @ rest"
      and later: "later = private_marker @ rest"
      using strstr_Some by (fastforce simp: str_simps)
    show ?thesis
    proof (cases "rest \<noteq> [] \<and> hd rest \<noteq> CHR ''/''")
      case True
      then obtain c v where "rest = c # v" "c \<noteq> CHR ''/''" by (cases rest) auto
      then show ?thesis
        using path Some bl later by (subst landin_reserved_private.simps) auto
    next
      case False
      have IH: "landin_reserved_private rest \<longleftrightarrow>
          (\<exists>u c v. rest = u @ private_marker @ c # v \<and> c \<noteq> CHR ''/'')"
        using 1 [OF Some bl [symmetric] refl] False later by auto
      have unfold: "landin_reserved_private path = landin_reserved_private rest"
        using False Some bl later by (subst landin_reserved_private.simps) auto
      show ?thesis
        unfolding unfold IH
        using path Some bl False by (metis append_assoc marker_after_first)
    qed
  qed
qed

section \<open>Names of one entry\<close>

lemma folded_equal_iff: "folded_equal l r \<longleftrightarrow> map ascii_lower l = map ascii_lower r"
  by (induction l r rule: folded_equal.induct) auto

lemma names_alias_sym: "landin_names_alias l r rules = landin_names_alias r l rules"
  by (auto simp: landin_names_alias_def folded_equal_iff)

text \<open>
  The verdict "different entries" is only given with proof: on a volume whose rules are
  known to be case-insensitive the names are ASCII and stay different after folding, on an
  ASCII-sensitive volume they are ASCII and different, on an unknown volume they are also free of
  the spellings whose meaning depends on the volume, and nowhere are they equal.
\<close>

theorem names_alias_zero:
  "landin_names_alias l r rules = 0 \<longleftrightarrow>
     l \<noteq> r \<and> (rules = 1
       \<or> list_all is_ascii (l @ r)
         \<and> (rules = 2 \<or> map ascii_lower l \<noteq> map ascii_lower r
              \<and> (0 \<le> rules \<or> (\<not> doubtful_name l \<and> \<not> doubtful_name r))))"
  by (auto simp: landin_names_alias_def folded_equal_iff list_all_iff)

end
