(* ===== verification/HostRules.thy ===== *)
theory HostRules
  imports Reading
begin

text \<open>
  Rules for the programs over the host. \<open>sees F ok L M w\<close> holds through every interleaving and
  every failure: the descriptors of \<open>F\<close> are open on the objects \<open>F\<close> names, all changes the
  process made since its history was \<open>L\<close> satisfy \<open>ok\<close>, and the registries a component adds to the
  host are \<open>M\<close>. Each call has one rule; the collection \<open>sees_rules\<close> holds them.
\<close>

declare split_paired_All [simp del] split_paired_Ex [simp del]

named_theorems sees_rules \<open>rules of the calls for every schedule\<close>

lemma map_le_fresh: "F \<subseteq>\<^sub>m G \<Longrightarrow> F n = None \<Longrightarrow> F \<subseteq>\<^sub>m G(n \<mapsto> x)"
  by (auto simp: map_le_def dom_def)

definition fd_objs :: "'z world_scheme \<Rightarrow> int \<rightharpoonup> oid" where
  "fd_objs w = (\<lambda>fd. map_option d_obj (map_of (w_fds w) fd))"

definition sees :: "(int \<rightharpoonup> oid) \<Rightarrow> (event \<Rightarrow> bool) \<Rightarrow> event list \<Rightarrow> 'z \<Rightarrow> 'z world_scheme \<Rightarrow> bool" where
  "sees F ok L M w \<longleftrightarrow> F \<subseteq>\<^sub>m fd_objs w \<and> (\<forall>fd \<in> dom F. 0 \<le> fd)
     \<and> (\<exists>evs. w_log w = evs @ L \<and> (\<forall>e \<in> set evs. ok e))
     \<and> world.more w = M"

lemma fd_obj_objs: "fd_obj w fd = (case fd_objs w fd of None \<Rightarrow> Inl EBADF | Some ob \<Rightarrow> Inr ob)"
  by (simp add: fd_obj_def fd_objs_def split: option.splits)

lemma sees_objs: "sees F ok L M w \<Longrightarrow> F fd = Some ob \<Longrightarrow> fd_objs w fd = Some ob"
  unfolding sees_def map_le_def by (metis domI)

lemma sees_fd: "sees F ok L M w \<Longrightarrow> F fd = Some ob \<Longrightarrow> fd_obj w fd = Inr ob"
  by (simp add: fd_obj_objs sees_objs)

lemma sees_fd_dir: "sees F ok L M w \<Longrightarrow> F fd = Some ob \<Longrightarrow> fd_dir w fd = Inr (d, es) \<Longrightarrow> d = ob"
  by (simp add: fd_dir_def sees_fd split: option.splits)

text \<open>What the relation looks at.\<close>

lemma sees_cong:
  "w_fds t = w_fds w \<Longrightarrow> w_log t = w_log w \<Longrightarrow> world.more t = world.more w \<Longrightarrow>
   sees F ok L M t \<longleftrightarrow> sees F ok L M w"
  by (simp add: sees_def fd_objs_def)

lemma sees_next_turn: "next_turn w = (t, w1) \<Longrightarrow> sees F ok L M w1 \<longleftrightarrow> sees F ok L M w"
  by (rule sees_cong) (auto simp: next_turn_def split: list.splits)

lemma sees_errno [simp]: "sees F ok L M (w\<lparr>w_errno := e\<rparr>) \<longleftrightarrow> sees F ok L M w"
  by (rule sees_cong) simp_all

lemma sees_fs [simp]: "sees F ok L M (w\<lparr>w_fs := f\<rparr>) \<longleftrightarrow> sees F ok L M w"
  by (rule sees_cong) simp_all

lemma sees_log: "sees F ok L M w \<Longrightarrow> ok e \<Longrightarrow> sees F ok L M (log e w)"
proof -
  assume "sees F ok L M w" and e: "ok e"
  then obtain evs where "w_log w = evs @ L" "\<forall>x \<in> set evs. ok x" by (auto simp: sees_def)
  with e have "w_log (log e w) = (e # evs) @ L \<and> (\<forall>x \<in> set (e # evs). ok x)"
    by (simp add: log_def)
  with \<open>sees F ok L M w\<close> show ?thesis
    unfolding sees_def fd_objs_def by (intro conjI exI [of _ "e # evs"]) (simp_all add: log_def)
qed

lemma sees_open_fd:
  assumes "sees F ok L M w" and "open_fd k ds w = (n, t)"
  shows "0 \<le> n" and "F n = None" and "sees F ok L M t" and "sees (F(n \<mapsto> d_obj ds)) ok L M t"
proof -
  from assms(2) have n: "n = free_fd k (w_fds w)" and t: "t = w\<lparr>w_fds := (n, ds) # w_fds w\<rparr>"
    by (auto simp: open_fd_def Let_def)
  from n free_fd_fresh [of "w_fds w" k] have fresh: "map_of (w_fds w) n = None" and "int k \<le> n"
    by auto
  then show nn: "0 \<le> n" by linarith
  have none: "fd_objs w n = None" using fresh by (simp add: fd_objs_def)
  show Fn: "F n = None"
    using sees_objs [OF assms(1), of n] none by (cases "F n") auto
  have objs: "fd_objs t = (fd_objs w)(n \<mapsto> d_obj ds)"
    using t by (auto simp: fd_objs_def)
  have "F \<subseteq>\<^sub>m fd_objs w" using assms(1) by (simp add: sees_def)
  with Fn have "F \<subseteq>\<^sub>m fd_objs t" and "F(n \<mapsto> d_obj ds) \<subseteq>\<^sub>m fd_objs t"
    unfolding objs by (simp_all add: map_le_fresh map_le_upd)
  then show "sees F ok L M t" and "sees (F(n \<mapsto> d_obj ds)) ok L M t"
    using assms(1) nn t by (auto simp: sees_def)
qed

lemma sees_del_fd:
  "sees F ok L M w \<Longrightarrow> F fd = None \<Longrightarrow> sees F ok L M (w\<lparr>w_fds := al_del fd (w_fds w)\<rparr>)"
  by (auto simp: sees_def fd_objs_def map_le_def)

lemma sees_adjust_fd:
  assumes "sees F ok L M w" and "\<And>x. d_obj (g x) = d_obj x"
  shows "sees F ok L M (w\<lparr>w_fds := al_adjust fd g (w_fds w)\<rparr>)"
proof -
  have "fd_objs (w\<lparr>w_fds := al_adjust fd g (w_fds w)\<rparr>) = fd_objs w"
    by (rule ext) (simp add: fd_objs_def option.map_comp comp_def assms(2))
  with assms(1) show ?thesis by (simp add: sees_def)
qed

lemma sees_weaken: "sees F ok L M w \<Longrightarrow> G \<subseteq>\<^sub>m F \<Longrightarrow> sees G ok L M w"
  unfolding sees_def using map_le_trans map_le_implies_dom_le by blast

text \<open>The rule every call's rule comes from.\<close>

interpretation seen: reading "sees F ok L M" "\<lambda>fd. F fd = None"
  for F :: "int \<rightharpoonup> oid" and ok :: "event \<Rightarrow> bool" and L :: "event list" and M :: 'z
proof unfold_locales
  fix w u :: "'z world_scheme" and n k ds
  assume "sees F ok L M w" and "open_fd k ds w = (n, u)"
  with sees_open_fd [of F ok L M w k ds n u] show "0 \<le> n \<and> F n = None \<and> sees F ok L M u" by simp
qed (auto simp: sees_next_turn sees_del_fd barrier_def split: option.splits)

lemmas wp_call_sees = seen.on_call

lemmas sees_calls [sees_rules] = seen.calls

text \<open>Descriptors.\<close>

lemma sees_negative: "sees F ok L M w \<Longrightarrow> fd < 0 \<Longrightarrow> F fd = None"
  by (metis domIff linorder_not_le sees_def)

lemma sees_close [sees_rules]:
  assumes "sees F ok L M w" and "0 \<le> fd \<Longrightarrow> F fd = None" and "\<And>r t. sees F ok L M t \<Longrightarrow> Q r t"
  shows "wp (sys_close fd) Q w"
proof -
  obtain tn w1 where n: "next_turn w = (tn, w1)" by fastforce
  with assms(1) have "sees F ok L M w1" using sees_next_turn [OF n] by simp
  moreover have "F fd = None" using assms(2) sees_negative [OF assms(1)] by force
  ultimately show ?thesis using n assms(3)
    by (auto simp: wp_def sys_close_def Let_def sees_del_fd split: option.splits)
qed

lemma sees_dup [sees_rules]:
  assumes "sees F ok L M w" and "\<And>t. sees F ok L M t \<Longrightarrow> Q (-1) t"
    and "\<And>n t. 0 \<le> n \<Longrightarrow> F n = None \<Longrightarrow> sees F ok L M t \<Longrightarrow> Q n t"
  shows "wp (sys_dup fd k) Q w"
  unfolding sys_dup_def using assms(1,2)
proof (rule wp_call_sees)
  fix tn t r u
  assume t: "sees F ok L M t" and "(case map_of (w_fds t) fd of None \<Rightarrow> Inl EBADF
     | Some ds \<Rightarrow> Inr (open_fd k (ds\<lparr>d_cloexec := (k \<noteq> 0)\<rparr>) t)) = Inr (r, u)"
  then obtain ds where "open_fd k (ds\<lparr>d_cloexec := (k \<noteq> 0)\<rparr>) t = (r, u)"
    by (cases "map_of (w_fds t) fd") simp_all
  from sees_open_fd [OF t this] assms(3) show "Q r u" by simp
qed

lemma open_obj_sees:
  assumes "sees F ok L M t" and "open_obj ob fl t = Inr (n, u)"
  shows "0 \<le> n \<and> F n = None \<and> sees F ok L M u \<and> sees (F(n \<mapsto> ob)) ok L M u"
proof -
  from assms(2) have "open_fd 0 (flag_desc ob fl) t = (n, u)"
    by (auto simp: open_obj_def split: option.splits node.splits if_splits)
  from sees_open_fd [OF assms(1) this] show ?thesis by (simp add: flag_desc_def)
qed

lemma sees_open [sees_rules]:
  assumes "sees F ok L M w" and "\<And>t. sees F ok L M t \<Longrightarrow> Q (-1) t"
    and "\<And>n t. 0 \<le> n \<Longrightarrow> F n = None \<Longrightarrow> sees F ok L M t \<Longrightarrow> Q n t"
  shows "wp (sys_open p fl) Q w"
  unfolding sys_open_def using assms(1,2)
proof (rule wp_call_sees)
  fix tn t r u
  assume t: "sees F ok L M t" and "(case resolve t (O_NOFOLLOW \<notin> set fl) p of Inl e \<Rightarrow> Inl e
     | Inr st \<Rightarrow> open_obj (top_obj (w_root t) st) fl t) = Inr (r, u)"
  then obtain ob where "open_obj ob fl t = Inr (r, u)" by (auto split: sum.splits)
  from open_obj_sees [OF t this] show "Q r u" using assms(3) by blast
qed

text \<open>Opening below a descriptor: without \<open>O_CREAT\<close> the history is kept, with it an object may
  be made; the object opened is remembered where a later rule needs it.\<close>

lemma sees_openat_obj:
  assumes "sees F ok L M w" and "O_CREAT \<notin> set fl" and "\<And>t. sees F ok L M t \<Longrightarrow> Q (-1) t"
    and "\<And>n ob t. 0 \<le> n \<Longrightarrow> F n = None \<Longrightarrow> sees (F(n \<mapsto> ob)) ok L M t \<Longrightarrow> Q n t"
  shows "wp (sys_openat fd nm fl p) Q w"
  unfolding sys_openat_def using assms(1,3)
proof (rule wp_call_sees)
  fix tn t r u
  assume t: "sees F ok L M t" and "(case fd_dir t fd of Inl e \<Rightarrow> Inl e
     | Inr (d, es) \<Rightarrow> (case map_of es nm of
         Some ob \<Rightarrow> if O_CREAT \<in> set fl \<and> O_EXCL \<in> set fl then Inl EEXIST else open_obj ob fl t
       | None \<Rightarrow> if O_CREAT \<notin> set fl \<or> \<not> dir_live (w_fs t) d then Inl ENOENT
           else (let ob = fresh_oid (w_fs t) (fst d);
                     i = new_inode (Reg []) p (w_uid t) (w_gid t);
                     w1 = log (Made d nm ob) (t\<lparr>w_fs := (ob, i) # add_entry d nm ob (w_fs t)\<rparr>)
                 in Inr (open_fd 0 (flag_desc ob fl) w1)))) = Inr (r, u)"
  with assms(2) obtain ob where "open_obj ob fl t = Inr (r, u)"
    by (auto split: sum.splits option.splits)
  from open_obj_sees [OF t this] show "Q r u" using assms(4) by blast
qed

text \<open>Changes: a descriptor \<open>F\<close> does not know may stand for any object.\<close>

abbreviation at_fd :: "(int \<rightharpoonup> oid) \<Rightarrow> int \<Rightarrow> oid \<Rightarrow> bool" where
  "at_fd F fd d \<equiv> F fd = None \<or> F fd = Some d"

lemma sees_at_dir:
  assumes "sees F ok L M t" and "fd_dir t fd = Inr (d, es)"
  shows "at_fd F fd d"
proof (cases "F fd")
  case (Some ob)
  with sees_fd_dir [OF assms(1) Some assms(2)] show ?thesis by simp
qed simp

lemma sees_openat [sees_rules]:
  assumes "sees F ok L M w" and "\<And>t. sees F ok L M t \<Longrightarrow> Q (-1) t"
    and "\<And>n t. 0 \<le> n \<Longrightarrow> F n = None \<Longrightarrow> sees F ok L M t \<Longrightarrow> Q n t"
    and "\<And>d ob. O_CREAT \<in> set fl \<Longrightarrow> at_fd F fd d \<Longrightarrow> ok (Made d nm ob)"
  shows "wp (sys_openat fd nm fl p) Q w"
  unfolding sys_openat_def using assms(1,2)
proof (rule wp_call_sees)
  fix tn t r u
  assume t: "sees F ok L M t" and act: "(case fd_dir t fd of Inl e \<Rightarrow> Inl e
     | Inr (d, es) \<Rightarrow> (case map_of es nm of
         Some ob \<Rightarrow> if O_CREAT \<in> set fl \<and> O_EXCL \<in> set fl then Inl EEXIST else open_obj ob fl t
       | None \<Rightarrow> if O_CREAT \<notin> set fl \<or> \<not> dir_live (w_fs t) d then Inl ENOENT
           else (let ob = fresh_oid (w_fs t) (fst d);
                     i = new_inode (Reg []) p (w_uid t) (w_gid t);
                     w1 = log (Made d nm ob) (t\<lparr>w_fs := (ob, i) # add_entry d nm ob (w_fs t)\<rparr>)
                 in Inr (open_fd 0 (flag_desc ob fl) w1)))) = Inr (r, u)"
  then obtain d es where d: "fd_dir t fd = Inr (d, es)" by (auto split: sum.splits)
  show "Q r u"
  proof (cases "map_of es nm")
    case (Some ob)
    with act d have "open_obj ob fl t = Inr (r, u)" by (auto split: if_splits)
    from open_obj_sees [OF t this] show ?thesis using assms(3) by blast
  next
    case None
    with act d have cr: "O_CREAT \<in> set fl" by (auto split: if_splits)
    with assms(4) sees_at_dir [OF t d] have made: "ok (Made d nm ob)" for ob by blast
    define ob where "ob = fresh_oid (w_fs t) (fst d)"
    define w1 where "w1 = log (Made d nm ob)
       (t\<lparr>w_fs := (ob, new_inode (Reg []) p (w_uid t) (w_gid t)) # add_entry d nm ob (w_fs t)\<rparr>)"
    from act d None cr have op: "open_fd 0 (flag_desc ob fl) w1 = (r, u)"
      by (auto simp: Let_def ob_def w1_def split: if_splits)
    have "sees F ok L M w1"
      unfolding w1_def using t made by (intro sees_log) auto
    from sees_open_fd [OF this op] show ?thesis using assms(3) by blast
  qed
qed

lemma sees_at_obj:
  assumes "sees F ok L M t" and "fd_obj t fd = Inr ob"
  shows "at_fd F fd ob"
proof (cases "F fd")
  case (Some x)
  with sees_fd [OF assms(1) Some] assms(2) show ?thesis by simp
qed simp

lemma sees_at_desc: "sees F ok L M t \<Longrightarrow> map_of (w_fds t) fd = Some ds \<Longrightarrow> at_fd F fd (d_obj ds)"
  using sees_at_obj [of F ok L M t fd "d_obj ds"] by (simp add: fd_obj_def)

lemma sees_mkdirat [sees_rules]:
  assumes "sees F ok L M w" and "\<And>r t. sees F ok L M t \<Longrightarrow> Q r t"
    and "\<And>d ob. at_fd F fd d \<Longrightarrow> ok (Made d nm ob)"
  shows "wp (sys_mkdirat fd nm p) Q w"
  unfolding sys_mkdirat_def using assms(1) assms(2)
proof (rule wp_call_sees)
  fix tn t and r :: int and u
  assume t: "sees F ok L M t" and act: "(case fd_dir t fd of Inl e \<Rightarrow> Inl e
     | Inr (d, es) \<Rightarrow> if map_of es nm \<noteq> None then Inl EEXIST
         else if \<not> dir_live (w_fs t) d then Inl ENOENT
         else (let ob = fresh_oid (w_fs t) (fst d);
                   i = new_inode (Dir []) p (w_uid t) (w_gid t)
               in Inr (0, log (Made d nm ob)
                            (t\<lparr>w_fs := (ob, i) # add_entry d nm ob (w_fs t)\<rparr>)))) = Inr (r, u)"
  then obtain d es where d: "fd_dir t fd = Inr (d, es)" by (cases "fd_dir t fd") auto
  with act have "u = log (Made d nm (fresh_oid (w_fs t) (fst d)))
      (t\<lparr>w_fs := (fresh_oid (w_fs t) (fst d), new_inode (Dir []) p (w_uid t) (w_gid t))
          # add_entry d nm (fresh_oid (w_fs t) (fst d)) (w_fs t)\<rparr>)"
    by (simp add: Let_def split: if_splits)
  moreover have "ok (Made d nm (fresh_oid (w_fs t) (fst d)))"
    using assms(3) sees_at_dir [OF t d] by blast
  ultimately have "sees F ok L M u" using t by (simp add: sees_log)
  then show "Q r u" by (rule assms(2))
qed

lemma remove_entry_log:
  "remove_entry b d es nm t = Inr (r, u) \<Longrightarrow>
   r = 0 \<and> (\<exists>ob f. map_of es nm = Some ob \<and> u = log (Unlinked d nm ob) (t\<lparr>w_fs := f\<rparr>))"
  by (auto simp: remove_entry_def split: option.splits if_splits)

lemma sees_unlinkat [sees_rules]:
  assumes "sees F ok L M w" and "\<And>r t. sees F ok L M t \<Longrightarrow> Q r t"
    and "\<And>d ob. at_fd F fd d \<Longrightarrow> ok (Unlinked d nm ob)"
  shows "wp (sys_unlinkat fd nm b) Q w"
  unfolding sys_unlinkat_def using assms(1) assms(2)
proof (rule wp_call_sees)
  fix tn t and r :: int and u
  assume t: "sees F ok L M t" and act: "(case fd_dir t fd of Inl e \<Rightarrow> Inl e
     | Inr (d, es) \<Rightarrow> remove_entry b d es nm t) = Inr (r, u)"
  then obtain d es where d: "fd_dir t fd = Inr (d, es)" "remove_entry b d es nm t = Inr (r, u)"
    by (cases "fd_dir t fd") auto
  then obtain ob f where "u = log (Unlinked d nm ob) (t\<lparr>w_fs := f\<rparr>)"
    using remove_entry_log by blast
  moreover have "ok (Unlinked d nm ob)" using assms(3) sees_at_dir [OF t d(1)] by blast
  ultimately have "sees F ok L M u" using t by (simp add: sees_log)
  then show "Q r u" by (rule assms(2))
qed

lemma link_entry_log:
  "link_entry ob d es nm t = Inr (r, u) \<Longrightarrow>
   r = 0 \<and> map_of es nm = None \<and> (\<exists>f. u = log (Linked d nm ob) (t\<lparr>w_fs := f\<rparr>))"
  by (auto simp: link_entry_def split: if_splits)

lemma sees_linkat [sees_rules]:
  assumes "sees F ok L M w" and "\<And>r t. sees F ok L M t \<Longrightarrow> Q r t"
    and "\<And>d ob. at_fd F fd2 d \<Longrightarrow> ok (Linked d n2 ob)"
  shows "wp (sys_linkat fd1 n1 fd2 n2) Q w"
  unfolding sys_linkat_def using assms(1) assms(2)
proof (rule wp_call_sees)
  fix tn t and r :: int and u
  assume t: "sees F ok L M t" and act: "(case fd_dir t fd1 of Inl e \<Rightarrow> Inl e
     | Inr (d1, es1) \<Rightarrow> (case map_of es1 n1 of None \<Rightarrow> Inl ENOENT
       | Some ob \<Rightarrow> (case fd_dir t fd2 of Inl e \<Rightarrow> Inl e
         | Inr (d2, es2) \<Rightarrow> link_entry ob d2 es2 n2 t))) = Inr (r, u)"
  then obtain d1 es1 where "fd_dir t fd1 = Inr (d1, es1)" by (cases "fd_dir t fd1") auto
  with act obtain ob where "map_of es1 n1 = Some ob" by (cases "map_of es1 n1") auto
  with act \<open>fd_dir t fd1 = Inr (d1, es1)\<close> obtain d es
    where d: "fd_dir t fd2 = Inr (d, es)" "link_entry ob d es n2 t = Inr (r, u)"
    by (cases "fd_dir t fd2") auto
  then obtain f where "u = log (Linked d n2 ob) (t\<lparr>w_fs := f\<rparr>)" using link_entry_log by blast
  moreover have "ok (Linked d n2 ob)" using assms(3) sees_at_dir [OF t d(1)] by blast
  ultimately have "sees F ok L M u" using t by (simp add: sees_log)
  then show "Q r u" by (rule assms(2))
qed

definition rename_act :: "bool \<Rightarrow> int \<Rightarrow> cstring \<Rightarrow> int \<Rightarrow> cstring \<Rightarrow> 'z world_scheme
    \<Rightarrow> errno + (int \<times> 'z world_scheme)" where
  "rename_act excl fd1 n1 fd2 n2 w = (case fd_dir w fd1 of Inl e \<Rightarrow> Inl e
     | Inr (d1, es1) \<Rightarrow> (case fd_dir w fd2 of Inl e \<Rightarrow> Inl e
       | Inr (d2, es2) \<Rightarrow> (case map_of es1 n1 of None \<Rightarrow> Inl ENOENT
         | Some ob \<Rightarrow>
             if fst d1 \<noteq> fst d2 then Inl EXDEV
             else (case map_of es2 n2 of
                 None \<Rightarrow> if \<not> dir_live (w_fs w) d2 then Inl ENOENT
                   else Inr (0, log (Moved d1 n1 d2 n2 ob None)
                          (w\<lparr>w_fs := move_entry d1 n1 d2 n2 ob (w_fs w)\<rparr>))
               | Some old \<Rightarrow> if excl then Inl EEXIST
                   else if old = ob then Inr (0, w)
                   else (case rename_clash (w_fs w) ob old of Some e \<Rightarrow> Inl e
                     | None \<Rightarrow> Inr (0, log (Moved d1 n1 d2 n2 ob (Some old))
                         (w\<lparr>w_fs := drop_link old (move_entry d1 n1 d2 n2 ob (w_fs w))\<rparr>)))))))"

lemma sys_rename_call: "sys_rename excl fd1 n1 fd2 n2 = call (-1) (\<lambda>_ w. rename_act excl fd1 n1 fd2 n2 w)"
  by (simp add: sys_rename_def rename_act_def)

lemma rename_act_cases:
  assumes "rename_act excl fd1 n1 fd2 n2 t = Inr (r, u)"
  obtains d1 es1 d2 es2 ob where "r = 0" "fd_dir t fd1 = Inr (d1, es1)" "fd_dir t fd2 = Inr (d2, es2)"
      "map_of es1 n1 = Some ob" "map_of es2 n2 = None"
      "u = log (Moved d1 n1 d2 n2 ob None) (t\<lparr>w_fs := move_entry d1 n1 d2 n2 ob (w_fs t)\<rparr>)"
    | d1 es1 d2 es2 ob old where "r = 0" "\<not> excl" "fd_dir t fd1 = Inr (d1, es1)" "fd_dir t fd2 = Inr (d2, es2)"
      "map_of es1 n1 = Some ob" "map_of es2 n2 = Some old" "old \<noteq> ob"
      "u = log (Moved d1 n1 d2 n2 ob (Some old))
             (t\<lparr>w_fs := drop_link old (move_entry d1 n1 d2 n2 ob (w_fs t))\<rparr>)"
    | "r = 0" "\<not> excl" "u = t"
proof -
  from assms obtain d1 es1 where d1: "fd_dir t fd1 = Inr (d1, es1)"
    by (cases "fd_dir t fd1") (auto simp: rename_act_def)
  from assms d1 obtain d2 es2 where d2: "fd_dir t fd2 = Inr (d2, es2)"
    by (cases "fd_dir t fd2") (auto simp: rename_act_def)
  from assms d1 d2 obtain ob where ob: "map_of es1 n1 = Some ob"
    by (cases "map_of es1 n1") (auto simp: rename_act_def)
  show thesis
  proof (cases "map_of es2 n2")
    case None
    with assms d1 d2 ob that(1) show thesis by (simp add: rename_act_def split: if_splits)
  next
    case (Some old)
    with assms d1 d2 ob have "\<not> excl" by (simp add: rename_act_def split: if_splits)
    with Some assms d1 d2 ob that(2,3) show thesis
      by (cases "old = ob"; cases "rename_clash (w_fs t) ob old")
        (simp_all add: rename_act_def split: if_splits)
  qed
qed

lemma sees_rename [sees_rules]:
  assumes "sees F ok L M w" and "\<And>r t. sees F ok L M t \<Longrightarrow> Q r t"
    and "\<And>d1 d2 ob old. at_fd F fd1 d1 \<Longrightarrow> at_fd F fd2 d2 \<Longrightarrow> (excl \<Longrightarrow> old = None) \<Longrightarrow>
         ok (Moved d1 n1 d2 n2 ob old)"
  shows "wp (sys_rename excl fd1 n1 fd2 n2) Q w"
  unfolding sys_rename_call using assms(1) assms(2)
proof (rule wp_call_sees)
  fix tn t and r :: int and u
  assume t: "sees F ok L M t" and act: "rename_act excl fd1 n1 fd2 n2 t = Inr (r, u)"
  from act have "sees F ok L M u"
  proof (cases rule: rename_act_cases)
    case (1 d1 es1 d2 es2 ob)
    then have "ok (Moved d1 n1 d2 n2 ob None)"
      using assms(3) sees_at_dir [OF t 1(2)] sees_at_dir [OF t 1(3)] by blast
    with 1 t show ?thesis by (simp add: sees_log)
  next
    case (2 d1 es1 d2 es2 ob old)
    then have "ok (Moved d1 n1 d2 n2 ob (Some old))"
      using assms(3) sees_at_dir [OF t 2(3)] sees_at_dir [OF t 2(4)] by blast
    with 2 t show ?thesis by (simp add: sees_log)
  next
    case 3
    with t show ?thesis by simp
  qed
  then show "Q r u" by (rule assms(2))
qed

lemma sees_write_obj:
  "sees F ok L M t \<Longrightarrow> ok e \<Longrightarrow> sees F ok L M (log e (t\<lparr>w_fs := f\<rparr>))"
  by (simp add: sees_log)

lemma sees_pwrite [sees_rules]:
  assumes "sees F ok L M w" and "\<And>r t. sees F ok L M t \<Longrightarrow> Q r t"
    and "\<And>ob. at_fd F fd ob \<Longrightarrow> ok (Wrote ob)"
  shows "wp (sys_pwrite fd data off) Q w"
  unfolding sys_pwrite_def using assms(1) assms(2)
proof (rule wp_call_sees)
  fix tn t and r :: int and u
  assume t: "sees F ok L M t" and act: "(case map_of (w_fds t) fd of None \<Rightarrow> Inl EBADF
     | Some ds \<Rightarrow> if \<not> d_write ds then Inl EBADF
       else (case content_of (w_fs t) (d_obj ds) of None \<Rightarrow> Inl EINVAL
         | Some b \<Rightarrow> (let n = short_write (t_amount tn) (length data) in
             Inr (int n, log (Wrote (d_obj ds))
               (t\<lparr>w_fs := write_obj (d_obj ds) (splice off (take n data) b) (w_fs t)\<rparr>))))) = Inr (r, u)"
  then obtain ds where ds: "map_of (w_fds t) fd = Some ds" by (cases "map_of (w_fds t) fd") auto
  with act obtain f where "u = log (Wrote (d_obj ds)) (t\<lparr>w_fs := f\<rparr>)"
    by (cases "content_of (w_fs t) (d_obj ds)") (auto simp: Let_def split: if_splits)
  moreover have "ok (Wrote (d_obj ds))" using assms(3) sees_at_desc [OF t ds] by blast
  ultimately have "sees F ok L M u" using sees_write_obj [OF t] by simp
  then show "Q r u" by (rule assms(2))
qed

lemma sees_write [sees_rules]:
  assumes "sees F ok L M w" and "\<And>r t. sees F ok L M t \<Longrightarrow> Q r t"
    and "\<And>ob. at_fd F fd ob \<Longrightarrow> ok (Wrote ob)"
  shows "wp (sys_write fd data) Q w"
  unfolding sys_write_def using assms(1) assms(2)
proof (rule wp_call_sees)
  fix tn t and r :: int and u
  assume t: "sees F ok L M t" and act: "(case map_of (w_fds t) fd of None \<Rightarrow> Inl EBADF
     | Some ds \<Rightarrow> if \<not> d_write ds then Inl EBADF
       else (case content_of (w_fs t) (d_obj ds) of None \<Rightarrow> Inl EINVAL
         | Some b \<Rightarrow> (let n = short_write (t_amount tn) (length data) in
             Inr (int n, log (Wrote (d_obj ds))
               (t\<lparr>w_fs := write_obj (d_obj ds) (splice (d_pos ds) (take n data) b) (w_fs t),
                  w_fds := al_adjust fd (\<lambda>x. x\<lparr>d_pos := d_pos x + n\<rparr>) (w_fds t)\<rparr>))))) = Inr (r, u)"
  then obtain ds where ds: "map_of (w_fds t) fd = Some ds" by (cases "map_of (w_fds t) fd") auto
  with act obtain f n where u: "u = log (Wrote (d_obj ds)) (t\<lparr>w_fs := f,
      w_fds := al_adjust fd (\<lambda>x. x\<lparr>d_pos := d_pos x + n\<rparr>) (w_fds t)\<rparr>)"
    by (cases "content_of (w_fs t) (d_obj ds)") (auto simp: Let_def split: if_splits)
  have "ok (Wrote (d_obj ds))" using assms(3) sees_at_desc [OF t ds] by blast
  moreover have "sees F ok L M (t\<lparr>w_fs := f,
      w_fds := al_adjust fd (\<lambda>x. x\<lparr>d_pos := d_pos x + n\<rparr>) (w_fds t)\<rparr>)"
    using sees_adjust_fd [of F ok L M "t\<lparr>w_fs := f\<rparr>" "\<lambda>x. x\<lparr>d_pos := d_pos x + n\<rparr>" fd] t by simp
  ultimately have "sees F ok L M u" using u sees_log by simp
  then show "Q r u" by (rule assms(2))
qed

lemma sees_ftruncate [sees_rules]:
  assumes "sees F ok L M w" and "\<And>r t. sees F ok L M t \<Longrightarrow> Q r t"
    and "\<And>ob. at_fd F fd ob \<Longrightarrow> ok (Truncated ob)"
  shows "wp (sys_ftruncate fd len) Q w"
  unfolding sys_ftruncate_def using assms(1) assms(2)
proof (rule wp_call_sees)
  fix tn t and r :: int and u
  assume t: "sees F ok L M t" and act: "(case map_of (w_fds t) fd of None \<Rightarrow> Inl EBADF
     | Some ds \<Rightarrow> if \<not> d_write ds then Inl EINVAL
       else (case content_of (w_fs t) (d_obj ds) of None \<Rightarrow> Inl EINVAL
         | Some b \<Rightarrow> Inr (0, log (Truncated (d_obj ds))
             (t\<lparr>w_fs := write_obj (d_obj ds)
                  (take len (b @ replicate (len - length b) (CHR 0x00))) (w_fs t)\<rparr>)))) = Inr (r, u)"
  then obtain ds where ds: "map_of (w_fds t) fd = Some ds" by (cases "map_of (w_fds t) fd") auto
  with act obtain f where "u = log (Truncated (d_obj ds)) (t\<lparr>w_fs := f\<rparr>)"
    by (cases "content_of (w_fs t) (d_obj ds)") (auto split: if_splits)
  moreover have "ok (Truncated (d_obj ds))" using assms(3) sees_at_desc [OF t ds] by blast
  ultimately have "sees F ok L M u" using sees_write_obj [OF t] by simp
  then show "Q r u" by (rule assms(2))
qed

lemma sees_fchmod [sees_rules]:
  assumes "sees F ok L M w" and "\<And>r t. sees F ok L M t \<Longrightarrow> Q r t"
    and "\<And>ob. at_fd F fd ob \<Longrightarrow> ok (Moded ob)"
  shows "wp (sys_fchmod fd p) Q w"
  unfolding sys_fchmod_def using assms(1) assms(2)
proof (rule wp_call_sees)
  fix tn t and r :: int and u
  assume t: "sees F ok L M t" and act: "(case fd_obj t fd of Inl e \<Rightarrow> Inl e
     | Inr ob \<Rightarrow> Inr (0, log (Moded ob)
         (t\<lparr>w_fs := al_adjust ob (\<lambda>i. i\<lparr>i_perm := p\<rparr>) (w_fs t)\<rparr>))) = Inr (r, u)"
  then obtain ob where ob: "fd_obj t fd = Inr ob" by (cases "fd_obj t fd") auto
  with act have "u = log (Moded ob) (t\<lparr>w_fs := al_adjust ob (\<lambda>i. i\<lparr>i_perm := p\<rparr>) (w_fs t)\<rparr>)" by simp
  moreover have "ok (Moded ob)" using assms(3) sees_at_obj [OF t ob] by blast
  ultimately have "sees F ok L M u" using sees_write_obj [OF t] by simp
  then show "Q r u" by (rule assms(2))
qed

end
