(* ===== verification/PublicationRules.thy ===== *)
theory PublicationRules
  imports PublicationStep HostRules
begin

text \<open>
  Rules of the publication layer's programs for every schedule: its bounded reads, snapshots,
  removals, moves, path comparisons and registry updates. Programs that only read are treated in the
  locale \<open>reading\<close>; the other proofs take the programs apart with \<open>wp_intros\<close> and close every call
  with its rule of \<open>sees_rules\<close>.
\<close>

section \<open>Programs that only read\<close>

context reading
begin

lemma on_close_fd: "I w \<Longrightarrow> mine fd \<Longrightarrow> (\<And>t. I t \<Longrightarrow> Q () t) \<Longrightarrow> wp (close_fd fd) Q w"
  unfolding close_fd_def wp_bind by (rule on_close) simp_all

lemma on_close_if_open:
  assumes "I w" and "0 \<le> fd \<Longrightarrow> mine fd" and "\<And>t. I t \<Longrightarrow> Q () t"
  shows "wp (close_if_open fd) Q w"
  unfolding close_if_open_def using assms by (auto intro: on_close_fd)

lemmas descriptors = on_close on_open on_openat on_close_fd on_close_if_open

lemma on_read_bytes:
  assumes "I w" and "\<And>r t. I t \<Longrightarrow> Q r t"
  shows "wp (read_bytes fd) Q w"
  unfolding read_bytes_def using assms(1)
  by (intro wp_intros calls assms | assumption)+

lemma on_matches_bytes:
  assumes "I w" and "\<And>r t. I t \<Longrightarrow> Q r t"
  shows "wp (matches_bytes fd n b) Q w"
  unfolding matches_bytes_def using assms(1)
  by (intro wp_intros calls descriptors on_read_bytes assms | assumption | simp)+

lemma on_describe_entry:
  assumes "I w" and "\<And>r t. I t \<Longrightarrow> Q r t"
  shows "wp (landin_publication_describe_entry d l e room) Q w"
  unfolding landin_publication_describe_entry_def using assms(1)
  by (intro wp_intros calls descriptors assms | assumption | simp)+

lemma on_describe_recovery:
  assumes "I w" and "\<And>r t. I t \<Longrightarrow> Q r t"
  shows "wp (describe_recovery a room) Q w"
  unfolding describe_recovery_def using assms(1)
  by (intro wp_intros calls on_describe_entry assms | assumption | simp)+

lemma on_protected_path:
  "I w \<Longrightarrow> (\<And>r t. I t \<Longrightarrow> Q r t) \<Longrightarrow> wp (protected_path st ps) Q w"
proof (induction ps arbitrary: w)
  case (Cons p ps)
  show ?case
    unfolding protected_path.simps using Cons.prems(1)
    by (intro wp_intros calls Cons | assumption)+
qed simp

lemma on_protected_object:
  "I w \<Longrightarrow> (\<And>r t. I t \<Longrightarrow> Q r t) \<Longrightarrow> wp (protected_object st ps ids) Q w"
  unfolding protected_object_def by (intro wp_intros calls on_protected_path | assumption | blast)+

lemma on_name_rules_fd:
  assumes "I w" and "\<And>r t. I t \<Longrightarrow> Q r t"
  shows "wp (name_rules_fd fd) Q w"
  unfolding name_rules_fd_def using assms(1)
  by (auto split: host.split intro!: wp_intros calls assms(2))

lemma on_name_rules:
  assumes "I w" and "\<And>r t. I t \<Longrightarrow> Q r t"
  shows "wp (name_rules d) Q w"
  unfolding name_rules_def using assms(1)
  by (auto split: host.split intro!: wp_intros calls descriptors on_name_rules_fd assms(2))

lemma on_entry_names_alias:
  assumes "I w" and "\<And>r t. I t \<Longrightarrow> Q r t"
  shows "wp (landin_entry_names_alias fd a b) Q w"
  unfolding landin_entry_names_alias_def using assms(1)
  by (intro wp_intros calls descriptors on_name_rules_fd assms(2) | assumption)+

lemma on_same_name:
  assumes "I w" and "\<And>r t. I t \<Longrightarrow> Q r t"
  shows "wp (same_name a b) Q w"
  unfolding same_name_def using assms(1)
  by (intro wp_intros calls on_name_rules assms(2) | assumption)+

lemma on_destinations_overlap:
  assumes "I w" and "\<And>r t. I t \<Longrightarrow> Q r t"
  shows "wp (destinations_overlap a b) Q w"
  unfolding destinations_overlap_def using assms(1)
  by (intro wp_intros calls on_same_name assms(2) | assumption)+

lemma on_destination:
  "I w \<Longrightarrow> (\<And>r t. I t \<Longrightarrow> Q r t) \<Longrightarrow> wp (destination path links) Q w"
proof (induction "41 - links" arbitrary: path links w rule: less_induct)
  case less
  have inner: "wp (destination p (Suc links)) Q t" if "\<not> 40 < links" "I t" for p t
    using that less.prems(2) by (intro less.hyps) auto
  show ?case
    by (subst destination.simps)
      (use less.prems(1) in \<open>(intro wp_intros calls less.prems(2) inner | assumption | (simp; fail))+\<close>)
qed

lemma on_same_file:
  assumes "I w" and "\<And>r t. I t \<Longrightarrow> Q r t"
  shows "wp (landin_same_file a b) Q w"
  unfolding landin_same_file_def using assms(1)
  by (intro wp_intros calls on_destination on_destinations_overlap assms(2) | assumption)+

lemma on_overlaps_loop:
  "I w \<Longrightarrow> (\<And>r t. I t \<Longrightarrow> Q r t) \<Longrightarrow> wp (overlaps_loop a rs) Q w"
proof (induction rs arbitrary: w)
  case (Cons r rs)
  show ?case
    unfolding overlaps_loop.simps using Cons.prems(1)
    by (intro wp_intros calls on_destination on_destinations_overlap Cons | assumption)+
qed simp

lemma on_overlaps_any:
  assumes "I w" and "\<And>r t. I t \<Longrightarrow> Q r t"
  shows "wp (landin_overlaps_any p ps) Q w"
  unfolding landin_overlaps_any_def using assms(1)
  by (intro wp_intros calls on_destination on_overlaps_loop assms(2) | assumption)+

lemmas reads = on_read_bytes on_matches_bytes on_describe_entry on_describe_recovery on_protected_path
  on_protected_object on_name_rules_fd on_name_rules on_entry_names_alias on_same_name
  on_destinations_overlap on_destination on_same_file on_overlaps_loop on_overlaps_any

end

lemmas sees_reads [sees_rules] = seen.reads

section \<open>Trees\<close>

lemma sees_close_fd [sees_rules]:
  assumes "sees F ok L M w" and "0 \<le> fd \<Longrightarrow> F fd = None" and "\<And>t. sees F ok L M t \<Longrightarrow> Q () t"
  shows "wp (close_fd fd) Q w"
  unfolding close_fd_def wp_bind by (rule sees_close [OF assms(1)]) (simp_all add: assms(2,3))

lemma sees_close_if_open [sees_rules]:
  assumes "sees F ok L M w" and "0 \<le> fd \<Longrightarrow> F fd = None" and "\<And>t. sees F ok L M t \<Longrightarrow> Q () t"
  shows "wp (close_if_open fd) Q w"
  unfolding close_if_open_def using assms by (auto intro: sees_close_fd)

lemma sees_protected_tree [sees_rules]:
  "sees F ok L M w \<Longrightarrow> (\<And>r t. sees F ok L M t \<Longrightarrow> Q r t) \<Longrightarrow> wp (protected_tree ts ps ids) Q w"
proof (induction ts ps ids arbitrary: w Q rule: protected_tree.induct)
  case (2 n i fd b cs ss ps ids)
  show ?case
    unfolding protected_tree.simps using "2.prems"(1)
    by (intro wp_intros sees_rules "2.IH" "2.prems"(2) | assumption)+
qed simp

text \<open>The descriptors a list of trees holds, and that none of them is one of \<open>F\<close>.\<close>

fun tree_fds :: "tree_entry list \<Rightarrow> int list" where
  "tree_fds [] = []"
| "tree_fds (Entry n i fd b cs # ts) = tree_fds cs @ fd # tree_fds ts"

definition apart :: "(int \<rightharpoonup> oid) \<Rightarrow> tree_entry list \<Rightarrow> bool" where
  "apart F ts \<longleftrightarrow> (\<forall>fd \<in> set (tree_fds ts). F fd = None)"

lemma apart_Nil [simp]: "apart F []"
  by (simp add: apart_def)

lemma apart_Cons [simp]:
  "apart F (Entry n i fd b cs # ts) \<longleftrightarrow> F fd = None \<and> apart F cs \<and> apart F ts"
  by (auto simp: apart_def)

lemma apart_Cons': "apart F (t # ts) \<longleftrightarrow> apart F [t] \<and> apart F ts"
  by (cases t) auto

lemma apart_empty [simp]: "apart Map.empty ts"
  by (simp add: apart_def)

lemma sees_free_tree [sees_rules]:
  "sees F ok L M w \<Longrightarrow> apart F ts \<Longrightarrow> (\<And>t. sees F ok L M t \<Longrightarrow> Q () t) \<Longrightarrow> wp (free_tree ts) Q w"
proof (induction ts arbitrary: w Q rule: free_tree.induct)
  case (2 n i fd b cs ts)
  show ?case
    unfolding free_tree.simps using "2.prems"(1,2)
    by (intro wp_intros sees_rules "2.IH" "2.prems"(3) | assumption | simp)+
qed simp

lemma sees_snapshot_loop:
  assumes snap: "\<And>n w. sees F ok L M w \<Longrightarrow>
      wp (snap n) (\<lambda>r t. sees F ok L M t \<and> (case r of None \<Rightarrow> True | Some e \<Rightarrow> apart F [e])) w"
  shows "sees F ok L M w \<Longrightarrow> apart F children \<Longrightarrow>
     wp (snapshot_loop snap ns children) (\<lambda>r t. sees F ok L M t \<and> apart F (snd r)) w"
proof (induction ns arbitrary: w children)
  case Nil
  then show ?case
    unfolding snapshot_loop.simps by (intro wp_intros sees_rules conjI | assumption | simp)+
next
  case (Cons n ns)
  have item: "wp (snap m) (\<lambda>r t. wp (case r of None \<Rightarrow> ret (False, children)
      | Some entry \<Rightarrow> do { set_errno EOK; snapshot_loop snap ns (entry # children) })
        (\<lambda>r t. sees F ok L M t \<and> apart F (snd r)) t) t" if t: "sees F ok L M t" for m t
  proof (rule wp_weaken [OF snap [OF t]])
    fix r u
    assume "sees F ok L M u \<and> (case r of None \<Rightarrow> True | Some e \<Rightarrow> apart F [e])"
    then show "wp (case r of None \<Rightarrow> ret (False, children)
      | Some entry \<Rightarrow> do { set_errno EOK; snapshot_loop snap ns (entry # children) })
        (\<lambda>r t. sees F ok L M t \<and> apart F (snd r)) u"
      using Cons.prems(2)
      by (cases r) (auto simp: set_errno_def intro!: Cons.IH iffD2 [OF apart_Cons'])
  qed
  show ?case
    unfolding snapshot_loop.simps using Cons.prems
    by (intro wp_intros seen.on_readdir item Cons.IH conjI | assumption | simp)+
qed

lemma sees_snapshot_fail:
  assumes "sees F ok L M w" and "0 \<le> fd \<Longrightarrow> F fd = None" and "apart F ts"
    and "\<And>t. sees F ok L M t \<Longrightarrow> Q None t"
  shows "wp (snapshot_fail fd ts) Q w"
  unfolding snapshot_fail_def using assms(1-3)
  by (intro wp_intros sees_rules assms(4) | assumption | simp)+

definition snapped :: "(int \<rightharpoonup> oid) \<Rightarrow> (event \<Rightarrow> bool) \<Rightarrow> event list \<Rightarrow> 'z \<Rightarrow> tree_entry option
    \<Rightarrow> 'z world_scheme \<Rightarrow> bool" where
  "snapped F ok L M r t \<longleftrightarrow> sees F ok L M t \<and> (case r of None \<Rightarrow> True | Some e \<Rightarrow> apart F [e])"

lemma snappedI: "sees F ok L M t \<Longrightarrow> snapped F ok L M None t"
  by (simp add: snapped_def)

lemma sees_snapshot_directory:
  assumes snap: "\<And>n w. sees F ok L M w \<Longrightarrow> wp (snap n) (snapped F ok L M) w"
    and "sees F ok L M w" and "F fd = None"
  shows "wp (snapshot_directory snap fd name i) (snapped F ok L M) w"
proof -
  have loop: "wp (snapshot_loop snap ns []) (\<lambda>r t. wp (case r of (complete, children) \<Rightarrow>
      if \<not> complete then do { close_fd n; snapshot_fail fd children }
      else do { e \<leftarrow> get_errno; close_fd n;
          if e \<noteq> EOK then do { set_errno e; snapshot_fail fd children }
          else ret (Some (Entry name i fd [] children)) }) (snapped F ok L M) t) t"
    if t: "sees F ok L M t" and n: "0 \<le> n \<Longrightarrow> F n = None" for ns n t
  proof (rule wp_weaken [OF sees_snapshot_loop [OF _ t]])
    show "wp (snap m) (\<lambda>r t. sees F ok L M t \<and> (case r of None \<Rightarrow> True | Some e \<Rightarrow> apart F [e])) u"
      if "sees F ok L M u" for m u
      using snap [OF that] unfolding snapped_def [abs_def] .
  next
    fix r :: "bool \<times> tree_entry list" and u :: "'a world_scheme"
    assume "sees F ok L M u \<and> apart F (snd r)"
    moreover obtain c cs where "r = (c, cs)" by (cases r)
    ultimately show "wp (case r of (complete, children) \<Rightarrow>
      if \<not> complete then do { close_fd n; snapshot_fail fd children }
      else do { e \<leftarrow> get_errno; close_fd n;
          if e \<noteq> EOK then do { set_errno e; snapshot_fail fd children }
          else ret (Some (Entry name i fd [] children)) }) (snapped F ok L M) u"
      using n assms(3)
      by (auto simp: get_errno_def set_errno_def snapped_def
          intro!: sees_close_fd sees_snapshot_fail snappedI)
  qed simp
  show ?thesis
    unfolding snapshot_directory_def using assms(2,3)
    by (intro wp_intros sees_dup seen.on_fdopendir seen.on_set_errno loop sees_snapshot_fail snappedI
        | assumption | simp)+
qed


lemma snapped_weaken:
  assumes "wp m (snapped F ok L M) w" and "\<And>t. sees F ok L M t \<Longrightarrow> Q None t"
    and "\<And>e t. sees F ok L M t \<Longrightarrow> apart F [e] \<Longrightarrow> Q (Some e) t"
  shows "wp m Q w"
  by (rule wp_weaken [OF assms(1)]) (auto simp: snapped_def split: option.splits intro: assms(2,3))

lemma sees_snapshot_entry:
  "sees F ok L M w \<Longrightarrow> wp (snapshot_entry depth parent name) (snapped F ok L M) w"
proof (induction depth arbitrary: parent name w)
  case 0
  then show ?case
    unfolding snapshot_entry.simps [of 0]
    by (intro wp_intros sees_rules snappedI | assumption | simp)+
next
  case (Suc d)
  have dir: "wp (snapshot_directory (\<lambda>child. case Suc d of 0 \<Rightarrow> ret None | Suc d \<Rightarrow> snapshot_entry d fd child)
      fd name i) (snapped F ok L M) t" if "sees F ok L M t" "0 \<le> fd \<Longrightarrow> F fd = None" for fd i t
    using that Suc.IH sees_negative [OF that(1), of fd]
    by (auto intro!: sees_snapshot_directory simp: linorder_not_le [symmetric])
  have leaf: "snapped F ok L M (Some (Entry name i fd b [])) t"
    if "sees F ok L M t" "0 \<le> fd \<Longrightarrow> F fd = None" for fd i b t
    using that sees_negative [OF that(1), of fd] by (force simp: snapped_def)
  show ?case
    unfolding snapshot_entry.simps [of "Suc d"] using Suc.prems
    by (intro wp_intros seen.on_alloc seen.on_fstatat seen.on_set_errno sees_openat seen.on_fstat dir
          sees_snapshot_fail seen.on_read_bytes leaf snappedI | assumption | simp)+
qed

lemma sees_snapshot [sees_rules]:
  assumes "sees F ok L M w" and "\<And>t. sees F ok L M t \<Longrightarrow> Q None t"
    and "\<And>e t. sees F ok L M t \<Longrightarrow> apart F [e] \<Longrightarrow> Q (Some e) t"
  shows "wp (snapshot parent name) Q w"
  unfolding snapshot_def
  by (intro wp_intros snapped_weaken [OF sees_snapshot_entry [OF assms(1)]] assms(2,3) | assumption)+

section \<open>Moves and removals\<close>

lemma sees_no_replace [sees_rules]:
  assumes "sees F ok L M w" and "\<And>r t. sees F ok L M t \<Longrightarrow> Q r t"
    and "\<And>d1 d2 ob. at_fd F f1 d1 \<Longrightarrow> at_fd F f2 d2 \<Longrightarrow> ok (Moved d1 n1 d2 n2 ob None)"
    and "\<And>d ob. at_fd F f2 d \<Longrightarrow> ok (Linked d n2 ob)"
    and "\<And>d ob. at_fd F f1 d \<Longrightarrow> ok (Unlinked d n1 ob)"
  shows "wp (no_replace f1 n1 f2 n2 dir) Q w"
  unfolding no_replace_def using assms(1)
  by (intro wp_intros sees_rules assms(2-5) | assumption | (simp add: assms(3); fail))+

lemma sees_discard_known:
  assumes ok: "\<And>d n ob. ok (Unlinked d n ob)"
  shows "sees F ok L M w \<Longrightarrow> (\<And>r t. sees F ok L M t \<Longrightarrow> Q r t) \<Longrightarrow>
      wp (discard_known_tree fd name e) Q w"
    and "sees F ok L M w \<Longrightarrow> (\<And>r t. sees F ok L M t \<Longrightarrow> Q' r t) \<Longrightarrow>
      wp (discard_known_children fd es) Q' w"
proof (induction fd name e and fd es arbitrary: w Q and w Q'
    rule: discard_known_tree_discard_known_children.induct)
  case (1 parent name n identity efd b children)
  show ?case
    unfolding discard_known_tree.simps using "1.prems"(1)
    by (intro wp_intros sees_rules "1.IH" "1.prems"(2) ok | assumption | (simp; fail))+
next
  case (2 fd)
  then show ?case by simp
next
  case (3 fd child children)
  show ?case
    unfolding discard_known_children.simps using "3.prems"(1)
    by (intro wp_intros "3.IH" "3.prems"(2) | assumption)+
qed

lemma sees_discard_tree:
  assumes "sees F ok L M w" and "\<And>r t. sees F ok L M t \<Longrightarrow> Q r t"
    and "\<And>d n ob. ok (Unlinked d n ob)"
  shows "wp (discard_tree fd name e) Q w"
  unfolding discard_tree_def Let_def using assms(1)
  by (intro wp_intros sees_rules sees_discard_known(1) [where ok = ok, OF assms(3)] assms(2) | assumption | (simp; fail))+


section \<open>The registries\<close>

text \<open>
  The registries of a state are those of a ghost state \<open>v\<close> that the base programs leave alone
  and the registry's own operations update.
\<close>

lemma more_pub:
  assumes "world.more t = world.more v"
  shows "g_roots t = g_roots v" "g_arenas t = g_arenas v" "g_publications t = g_publications v"
    "g_next_token t = g_next_token v" "g_next_id t = g_next_id v" "g_why t = g_why v"
    "r_roots t = r_roots v" "r_reason t = r_reason v"
  using assms by (cases t; cases v; simp)+

lemma sees_more: "sees F ok L (world.more v) t \<Longrightarrow> world.more t = world.more v"
  by (simp add: sees_def)

lemmas sees_reg = more_pub [OF sees_more]

lemma sees_modify_reg:
  assumes "sees F ok L M w" and "w_fds (f w) = w_fds w" and "w_log (f w) = w_log w"
  shows "sees F ok L (world.more (f w)) (f w)"
  using assms by (simp add: sees_def fd_objs_def)

definition upd_pub :: "nat \<Rightarrow> (publication \<Rightarrow> publication) \<Rightarrow> 'z pub_world_scheme \<Rightarrow> 'z pub_world_scheme" where
  "upd_pub token f v = v\<lparr>g_publications := map (\<lambda>p. if p_token p = token then f p else p) (g_publications v)\<rparr>"

definition upd_arena :: "nat \<Rightarrow> (arena \<Rightarrow> arena) \<Rightarrow> 'z pub_world_scheme \<Rightarrow> 'z pub_world_scheme" where
  "upd_arena k f v = v\<lparr>g_arenas := map (\<lambda>a. if ar_id a = k then f a else a) (g_arenas v)\<rparr>"

definition upd_roots :: "(anchor list \<Rightarrow> anchor list) \<Rightarrow> 'z pub_world_scheme \<Rightarrow> 'z pub_world_scheme" where
  "upd_roots f v = v\<lparr>g_roots := f (g_roots v)\<rparr>"

definition upd_why :: "cstring \<Rightarrow> 'z pub_world_scheme \<Rightarrow> 'z pub_world_scheme" where
  "upd_why s v = v\<lparr>g_why := s\<rparr>"

lemma upd_more:
  assumes "world.more t = world.more v"
  shows "world.more (upd_pub k f t) = world.more (upd_pub k f v)"
    "world.more (upd_arena k g t) = world.more (upd_arena k g v)"
    "world.more (upd_roots h t) = world.more (upd_roots h v)"
    "world.more (upd_why s t) = world.more (upd_why s v)"
  using assms by (cases t; cases v; simp add: upd_pub_def upd_arena_def upd_roots_def upd_why_def)+

lemma sees_upd:
  assumes "sees F ok L (world.more v) w"
  shows "sees F ok L (world.more (upd_pub k f v)) (upd_pub k f w)"
    "sees F ok L (world.more (upd_arena k g v)) (upd_arena k g w)"
    "sees F ok L (world.more (upd_roots h v)) (upd_roots h w)"
    "sees F ok L (world.more (upd_why s v)) (upd_why s w)"
  unfolding upd_more [OF sees_more [OF assms], symmetric]
  by (rule sees_modify_reg [OF assms]; simp add: upd_pub_def upd_arena_def upd_roots_def upd_why_def)+

lemma sees_update_publication [sees_rules]:
  assumes "sees F ok L (world.more v) w"
    and "\<And>t. sees F ok L (world.more (upd_pub k f v)) t \<Longrightarrow> Q () t"
  shows "wp (update_publication k f) Q w"
  using assms(2) [OF sees_upd(1) [OF assms(1)]]
  by (simp add: update_publication_def upd_pub_def)

lemma sees_update_arena [sees_rules]:
  assumes "sees F ok L (world.more v) w"
    and "\<And>t. sees F ok L (world.more (upd_arena k f v)) t \<Longrightarrow> Q () t"
  shows "wp (update_arena k f) Q w"
  using assms(2) [OF sees_upd(2) [OF assms(1)]]
  by (simp add: update_arena_def upd_arena_def)

definition the_arena :: "nat \<Rightarrow> 'z pub_world_scheme \<Rightarrow> arena option" where
  "the_arena k v = find (\<lambda>a. ar_id a = k) (g_arenas v)"

definition the_pub :: "nat \<Rightarrow> 'z pub_world_scheme \<Rightarrow> publication option" where
  "the_pub k v = find (\<lambda>p. p_token p = k) (g_publications v)"

lemma sees_find_arena [sees_rules]:
  "sees F ok L (world.more v) w \<Longrightarrow> Q (the_arena k v) w \<Longrightarrow> wp (find_arena k) Q w"
  by (simp add: find_arena_def the_arena_def sees_reg)

lemma sees_lookup [sees_rules]:
  "sees F ok L (world.more v) w \<Longrightarrow> Q (the_pub k v) w \<Longrightarrow> wp (lookup k) Q w"
  by (simp add: lookup_def the_pub_def sees_reg)

lemma sees_reason [sees_rules]:
  assumes "sees F ok L (world.more v) w"
    and "\<And>t s. sees F ok L (world.more (upd_why s v)) t \<Longrightarrow> Q () t"
  shows "wp (reason room msg) Q w"
proof (cases "room = 0")
  case True
  have "upd_why (g_why v) v = v" by (simp add: upd_why_def)
  with assms(1) assms(2) [where s = "g_why v"] True show ?thesis by (simp add: reason_def)
next
  case False
  with assms(2) [OF sees_upd(4) [OF assms(1)]] show ?thesis by (simp add: reason_def upd_why_def)
qed

section \<open>Opening a publication\<close>

lemma sees_private_descend [sees_rules]:
  "sees F ok L M w \<Longrightarrow> F fd = None \<Longrightarrow> (\<And>t. sees F ok L M t \<Longrightarrow> Q None t) \<Longrightarrow>
   (\<And>n part t. sees F ok L M t \<Longrightarrow> F n = None \<Longrightarrow> Q (Some (n, part)) t) \<Longrightarrow>
   wp (private_descend fd parts) Q w"
proof (induction fd parts arbitrary: w rule: private_descend.induct)
  case (1 fd)
  then show ?case
    unfolding private_descend.simps
    by - (intro wp_intros sees_rules | assumption | (simp; fail))+
next
  case (2 fd part rest)
  show ?case
    unfolding private_descend.simps using "2.prems"(1,2)
    by - (intro wp_intros sees_rules "2.IH" "2.prems"(3,4) | assumption | (simp; fail))+
qed

lemma sees_private_parent [sees_rules]:
  assumes "sees F ok L M w" and "\<And>t a b. sees F ok L M t \<Longrightarrow> Q (-1, a, b) t"
    and "\<And>t a b. sees F ok L M t \<Longrightarrow> Q (-2, a, b) t"
    and "\<And>t n a b. sees F ok L M t \<Longrightarrow> F n = None \<Longrightarrow> Q (n, a, b) t"
  shows "wp (landin_private_parent_locked path) Q w"
  unfolding landin_private_parent_locked_def landin_private_match_def using assms(1)
  by - (intro wp_intros sees_rules assms(2-4) | assumption | (simp; fail))+

lemma sees_walk_anchored [sees_rules]:
  "sees F ok L M w \<Longrightarrow> (0 \<le> fd \<Longrightarrow> F fd = None) \<Longrightarrow> (\<And>n t. sees F ok L M t \<Longrightarrow> (0 \<le> n \<Longrightarrow> F n = None) \<Longrightarrow> Q n t) \<Longrightarrow>
   (\<And>d nm ob. ok (Made d nm ob)) \<Longrightarrow> wp (walk_anchored create fd parts) Q w"
proof (induction create fd parts arbitrary: w rule: walk_anchored.induct)
  case (2 create fd part rest)
  note neg = sees_negative [of F ok L M _ fd]
  show ?case
    unfolding walk_anchored.simps using "2.prems"(1,2)
    by - (intro wp_intros sees_rules "2.IH" "2.prems"(3,4) | assumption | (simp; fail))+
qed simp


lemma sees_open_system_anchor [sees_rules]:
  assumes "sees F ok L M w" and "\<And>t. sees F ok L M t \<Longrightarrow> Q None t"
    and "\<And>n rest t. sees F ok L M t \<Longrightarrow> F n = None \<Longrightarrow> Q (Some (n, rest)) t"
  shows "wp (open_system_anchor path) Q w"
  unfolding open_system_anchor_def using assms(1)
  by - (intro wp_intros sees_rules assms(2,3) | assumption | (simp; fail))+

lemma sees_open_root [sees_rules]:
  assumes "sees F ok L M w" and "\<And>n t. sees F ok L M t \<Longrightarrow> (0 \<le> n \<Longrightarrow> F n = None) \<Longrightarrow> Q n t"
    and "\<And>d nm ob. ok (Made d nm ob)"
  shows "wp (open_root path) Q w"
  unfolding open_root_def using assms(1)
  by - (intro wp_intros sees_rules assms(2,3) | assumption | (simp; fail))+

lemma sees_parent_of_absent [sees_rules]:
  assumes "sees F ok L M w" and "\<And>n t. sees F ok L M t \<Longrightarrow> (0 \<le> n \<Longrightarrow> F n = None) \<Longrightarrow> Q n t"
    and "\<And>d nm ob. ok (Made d nm ob)"
  shows "wp (parent_of_absent path) Q w"
  unfolding parent_of_absent_def using assms(1)
  by - (intro wp_intros sees_rules assms(2,3) | assumption | (simp; fail))+

lemma sees_observe_expected [sees_rules]:
  assumes "sees F ok L M w" and "\<And>x t. sees F ok L M t \<Longrightarrow>
      (0 \<le> fst (snd (snd x)) \<Longrightarrow> F (fst (snd (snd x))) = None) \<Longrightarrow> Q x t"
  shows "wp (observe_expected p parent absent) Q w"
  unfolding observe_expected_def Let_def using assms(1)
  by - (intro wp_intros sees_rules assms(2) | assumption | (simp split: if_splits; fail))+

lemma sees_add_name [sees_rules]:
  assumes "sees F ok L M w" and "\<And>r t. sees F ok L M t \<Longrightarrow> Q r t"
  shows "wp (add_name names n) Q w"
  unfolding add_name_def using assms(1)
  by - (intro wp_intros sees_rules assms(2) | assumption | (simp; fail))+

lemma sees_arena_leaf [sees_rules]:
  assumes "sees F ok L M w" and "\<And>r t. sees F ok L M t \<Longrightarrow> Q r t"
  shows "wp (arena_leaf) Q w"
  unfolding arena_leaf_def using assms(1)
  by - (intro wp_intros sees_rules assms(2) | assumption | (simp; fail))+

lemma sees_entries_known_loop [sees_rules]:
  "sees F ok L M w \<Longrightarrow> (\<And>r t. sees F ok L M t \<Longrightarrow> Q r t) \<Longrightarrow> wp (entries_known_loop names live ns) Q w"
proof (induction names live ns arbitrary: w rule: entries_known_loop.induct)
  case (1 names live)
  then show ?case
    unfolding entries_known_loop.simps by - (intro wp_intros sees_rules | assumption | blast)+
next
  case (2 names live n ns)
  show ?case
    unfolding entries_known_loop.simps using "2.prems"(1)
    by - (intro wp_intros sees_rules "2.IH" "2.prems"(2) | assumption)+
qed

lemma sees_entries_known [sees_rules]:
  assumes "sees F ok L M w" and "\<And>r t. sees F ok L M t \<Longrightarrow> Q r t"
  shows "wp (entries_known root d names live) Q w"
  unfolding entries_known_def using assms(1)
  by - (intro wp_intros sees_rules assms(2) | assumption | (simp; fail))+

lemma sees_disconnected [sees_rules]:
  assumes "sees F ok L M w" and "\<And>r t. sees F ok L M t \<Longrightarrow> Q r t"
  shows "wp (disconnected_workspace_empty root parent name) Q w"
  unfolding disconnected_workspace_empty_def using assms(1)
  by - (intro wp_intros sees_rules assms(2) | assumption | (simp; fail))+

lemma sees_known_record [sees_rules]:
  assumes "sees F ok L M w" and "\<And>r t. sees F ok L M t \<Longrightarrow> Q r t"
  shows "wp (known_record parent target name rn fi) Q w"
  unfolding known_record_def Let_def using assms(1)
  by - (intro wp_intros sees_rules assms(2) | assumption | (simp; fail))+

lemma sees_inspect_record [sees_rules]:
  assumes "sees F ok L M w" and "\<And>r t. sees F ok L M t \<Longrightarrow> Q r t"
  shows "wp (inspect_record parent target root name fi) Q w"
  unfolding inspect_record_def using assms(1)
  by - (intro wp_intros sees_rules assms(2) | assumption | (simp; fail))+

lemma sees_inspect_records [sees_rules]:
  "sees F ok L M w \<Longrightarrow> (\<And>r t. sees F ok L M t \<Longrightarrow> Q r t) \<Longrightarrow> wp (inspect_records parent target root ns fi) Q w"
proof (induction parent target root ns fi arbitrary: w rule: inspect_records.induct)
  case (1 parent target root fi)
  then show ?case
    unfolding inspect_records.simps by - (intro wp_intros sees_rules | assumption | blast)+
next
  case (2 parent target root n ns fi)
  show ?case
    unfolding inspect_records.simps using "2.prems"(1)
    by - (intro wp_intros sees_rules "2.IH" "2.prems"(2) | assumption)+
qed

lemma sees_workspace_records [sees_rules]:
  assumes "sees F ok L M w" and "\<And>r t. sees F ok L M t \<Longrightarrow> Q (Inl r) t"
    and "\<And>t. sees F ok L M t \<Longrightarrow> Q (Inr None) t"
    and "\<And>n ns t. sees F ok L M t \<Longrightarrow> (0 \<le> n \<Longrightarrow> F n = None) \<Longrightarrow> Q (Inr (Some (n, ns))) t"
  shows "wp (workspace_records parent root name) Q w"
  unfolding workspace_records_def Let_def using assms(1)
  by - (intro wp_intros sees_rules assms(2-4) | assumption | (simp; fail))+

lemma sees_inspect_workspace [sees_rules]:
  assumes "sees F ok L M w" and "case rs of None \<Rightarrow> True | Some (n, ns) \<Rightarrow> 0 \<le> n \<longrightarrow> F n = None"
    and "\<And>r t. sees F ok L M t \<Longrightarrow> Q r t"
  shows "wp (inspect_workspace parent target root rs) Q w"
  unfolding inspect_workspace_def using assms(1,2)
  by - (intro wp_intros sees_rules assms(3) | assumption | (simp; fail))+

lemma sees_write_fully_aux:
  assumes ok: "\<And>ob. at_fd F fd ob \<Longrightarrow> ok (Wrote ob)"
  shows "sees F ok L M w \<Longrightarrow> sees F ok L M (snd (write_fully retry fd data w))"
  using ok
proof (induction retry fd data w rule: write_fully.induct)
  case (1 retry fd data w)
  obtain n w1 where one: "run_state (sys_write fd data) w = (n, w1)" by fastforce
  have w1: "sees F ok L M w1"
    by (rule wpD [OF sees_write [where Q = "\<lambda>_. sees F ok L M", OF "1.prems"(1)] one]) (use 1 in auto)
  show ?case
    using "1.IH" one w1 "1.prems" by (subst write_fully.simps) (auto simp: Let_def)
qed

lemma sees_write_fully [sees_rules]:
  assumes "sees F ok L M w" and "\<And>r t. sees F ok L M t \<Longrightarrow> Q r t"
    and "\<And>ob. at_fd F fd ob \<Longrightarrow> ok (Wrote ob)"
  shows "wp (State (write_fully retry fd data)) Q w"
proof (rule wpI)
  fix r t
  assume "run_state (State (write_fully retry fd data)) w = (r, t)"
  then have "t = snd (write_fully retry fd data w)" by simp
  with sees_write_fully_aux [of F fd ok L M w retry data] assms(1,3) show "Q r t"
    by (intro assms(2)) auto
qed

end
