(* ===== verification/PublicationMachine.thy ===== *)
theory PublicationMachine
  imports PublicationRules
begin

text \<open>
  The state machine of a publication. \<open>advance\<close> is the abstract machine over the flags of a
  publication: which actions are accepted in which phase, with which result, and what they leave.
  \<open>tracks\<close> follows a concrete program through every interleaving and failure and says how the
  registry differs from the one it started with; \<open>step_effect\<close> is the simulation: every step of
  the code is a step of the abstract machine and changes nothing else in the registry.
\<close>

section \<open>The abstract machine\<close>

record phase =
  x_absent :: bool
  x_deletion :: bool
  x_captured :: bool
  x_installed :: bool
  x_unchanged :: bool
  x_pending :: bool
  x_valid :: bool
  x_finished :: bool
  x_failed :: bool

definition phase_of :: "publication \<Rightarrow> phase" where
  "phase_of p = \<lparr>x_absent = p_absent p, x_deletion = p_deletion p, x_captured = p_captured p,
     x_installed = p_installed p, x_unchanged = p_unchanged p, x_pending = p_rollback_pending p,
     x_valid = p_capture_valid p, x_finished = p_finished p, x_failed = p_finish_failed p\<rparr>"

inductive advance :: "int \<Rightarrow> phase \<Rightarrow> int \<Rightarrow> phase \<Rightarrow> bool" where
  refuse: "advance a s (-1) s"
| validate_deletion: "x_deletion s \<Longrightarrow> advance 0 s 0 s"
| validate: "\<not> x_deletion s \<Longrightarrow> advance 0 s 0 (s\<lparr>x_unchanged := u\<rparr>)"
| capture_nothing: "x_absent s \<Longrightarrow> \<not> x_captured s \<Longrightarrow> \<not> x_installed s \<Longrightarrow> \<not> x_pending s \<Longrightarrow>
    advance 1 s 0 s"
| capture: "\<not> x_absent s \<Longrightarrow> \<not> x_captured s \<Longrightarrow> \<not> x_installed s \<Longrightarrow> \<not> x_pending s \<Longrightarrow>
    advance 1 s 0 (s\<lparr>x_captured := True, x_valid := True\<rparr>)"
| capture_rejected: "\<not> x_captured s \<Longrightarrow> \<not> x_installed s \<Longrightarrow> \<not> x_pending s \<Longrightarrow>
    advance 1 s (-1) (s\<lparr>x_captured := True\<rparr>)"
| install_deletion: "x_deletion s \<Longrightarrow> advance 2 s 0 s"
| install_unchanged: "\<not> x_deletion s \<Longrightarrow> x_unchanged s \<Longrightarrow> advance 2 s 0 (s\<lparr>x_captured := False\<rparr>)"
| install: "\<not> x_deletion s \<Longrightarrow> \<not> x_unchanged s \<Longrightarrow> r = 0 \<or> r = -1 \<Longrightarrow>
    advance 2 s r (s\<lparr>x_installed := True\<rparr>)"
| restore: "\<not> x_pending s \<Longrightarrow> advance 3 s 0 (s\<lparr>x_installed := False, x_captured := False\<rparr>)"
| restore_pending: "x_installed s \<Longrightarrow> \<not> x_pending s \<Longrightarrow> advance 3 s (-1) (s\<lparr>x_pending := True\<rparr>)"
| restore_half: "x_captured s \<Longrightarrow> \<not> x_pending s \<Longrightarrow> advance 3 s (-1) (s\<lparr>x_installed := False\<rparr>)"
| finish_half: "x_captured s \<Longrightarrow> x_valid s \<Longrightarrow> \<not> x_absent s \<Longrightarrow>
    advance 4 s (-1) (s\<lparr>x_captured := False\<rparr>)"
| finish: "x_captured s \<longrightarrow> x_valid s \<and> \<not> x_absent s \<Longrightarrow>
    advance 4 s 0 (s\<lparr>x_captured := False, x_finished := True\<rparr>)"
| finish_unretired: "x_captured s \<longrightarrow> x_valid s \<and> \<not> x_absent s \<Longrightarrow>
    advance 4 s (-1) (s\<lparr>x_captured := False, x_finished := True, x_failed := True\<rparr>)"

definition permitted :: "int \<Rightarrow> phase \<Rightarrow> int \<Rightarrow> phase \<Rightarrow> bool" where
  "permitted a s r s' \<longleftrightarrow> (if x_finished s then s' = s \<and> r = (if x_failed s then -1 else 0)
     else advance a s r s')"

definition sound :: "phase \<Rightarrow> bool" where
  "sound s \<longleftrightarrow> (x_valid s \<longrightarrow> \<not> x_absent s) \<and> (x_pending s \<longrightarrow> x_installed s)
     \<and> (x_deletion s \<longrightarrow> \<not> x_installed s) \<and> (x_finished s \<longrightarrow> \<not> x_captured s)
     \<and> (x_failed s \<longrightarrow> x_finished s)"

lemma advance_sound: "advance a s r s' \<Longrightarrow> \<not> x_finished s \<Longrightarrow> sound s \<Longrightarrow> sound s'"
  by (induction rule: advance.induct) (auto simp: sound_def)

lemma permitted_sound: "permitted a s r s' \<Longrightarrow> sound s \<Longrightarrow> sound s'"
  by (auto simp: permitted_def split: if_splits intro: advance_sound)

section \<open>Following a step\<close>

definition same_place :: "publication \<Rightarrow> publication \<Rightarrow> bool" where
  "same_place q p \<longleftrightarrow> p_token q = p_token p \<and> p_arena q = p_arena p"

definition tracked :: "event list \<Rightarrow> 'z pub_world_scheme \<Rightarrow> nat \<Rightarrow> (phase \<Rightarrow> phase) \<Rightarrow> (nat \<Rightarrow> nat \<Rightarrow> nat)
    \<Rightarrow> 'z pub_world_scheme \<Rightarrow> 'z pub_world_scheme \<Rightarrow> (publication \<Rightarrow> publication)
    \<Rightarrow> (arena \<Rightarrow> arena) \<Rightarrow> bool" where
  "tracked L v tok ph ae t v' f h \<longleftrightarrow> sees Map.empty (\<lambda>_. True) L (world.more v') t
     \<and> g_publications v' = map (\<lambda>q. if p_token q = tok then f q else q) (g_publications v)
     \<and> (\<forall>q. same_place (f q) q \<and> phase_of (f q) = ph (phase_of q))
     \<and> g_arenas v' = map h (g_arenas v)
     \<and> (\<forall>b. ar_id (h b) = ar_id b \<and> ar_refs (h b) = ae (ar_id b) (ar_refs b))
     \<and> g_next_token v' = g_next_token v \<and> g_next_id v' = g_next_id v"

definition tracks :: "event list \<Rightarrow> 'z pub_world_scheme \<Rightarrow> nat \<Rightarrow> (phase \<Rightarrow> phase) \<Rightarrow> (nat \<Rightarrow> nat \<Rightarrow> nat)
    \<Rightarrow> 'z pub_world_scheme \<Rightarrow> bool" where
  "tracks L v tok ph ae t \<longleftrightarrow> (\<exists>v' f h. tracked L v tok ph ae t v' f h)"

lemma tracked_sees: "tracked L v tok ph ae t v' f h \<Longrightarrow> sees Map.empty (\<lambda>_. True) L (world.more v') t"
  by (simp add: tracked_def)

lemma tracksI:
  assumes "sees Map.empty (\<lambda>_. True) L (world.more v) t"
  shows "tracks L v tok (\<lambda>x. x) (\<lambda>_ n. n) t"
  unfolding tracks_def tracked_def using assms
  by (intro exI [of _ v] exI [of _ "\<lambda>q. q"] exI [of _ "\<lambda>b. b"]) (simp add: same_place_def)

lemma tracks_lift:
  assumes "tracks L v tok ph ae w"
    and "\<And>v'. sees Map.empty (\<lambda>_. True) L (world.more v') w \<Longrightarrow>
         wp m (\<lambda>r t. sees Map.empty (\<lambda>_. True) L (world.more v') t) w"
    and "\<And>r t. tracks L v tok ph ae t \<Longrightarrow> Q r t"
  shows "wp m Q w"
proof -
  obtain v' f h where v': "tracked L v tok ph ae w v' f h" using assms(1) by (auto simp: tracks_def)
  have keep: "tracks L v tok ph ae t" if "sees Map.empty (\<lambda>_. True) L (world.more v') t" for t
    using v' that by (auto simp: tracks_def tracked_def)
  show ?thesis
    by (rule wp_weaken [OF assms(2) [OF tracked_sees [OF v']]]) (rule assms(3) [OF keep])
qed

text \<open>Registry operations whose effect is none of what is followed.\<close>

lemma tracks_why:
  assumes "tracks L v tok ph ae w" and "\<And>t. tracks L v tok ph ae t \<Longrightarrow> Q () t"
  shows "wp (reason room msg) Q w"
proof -
  obtain v' f h where v': "tracked L v tok ph ae w v' f h" using assms(1) by (auto simp: tracks_def)
  have "tracks L v tok ph ae t" if "sees Map.empty (\<lambda>_. True) L (world.more (upd_why s v')) t" for s t
    unfolding tracks_def tracked_def using that v' [unfolded tracked_def]
    by (intro exI [of _ "upd_why s v'"] exI [of _ f] exI [of _ h]) (simp add: upd_why_def)
  then show ?thesis by (intro sees_reason [OF tracked_sees [OF v']] assms(2))
qed

lemma tracks_roots:
  assumes "tracks L v tok ph ae w"
  shows "tracks L v tok ph ae (w\<lparr>g_roots := rs\<rparr>)"
proof -
  obtain v' f h where v': "tracked L v tok ph ae w v' f h" using assms by (auto simp: tracks_def)
  have "sees Map.empty (\<lambda>_. True) L (world.more (upd_roots (\<lambda>_. rs) v')) (upd_roots (\<lambda>_. rs) w)"
    by (rule sees_upd(3) [OF tracked_sees [OF v']])
  then show ?thesis
    unfolding tracks_def tracked_def using v' [unfolded tracked_def]
    by (intro exI [of _ "upd_roots (\<lambda>_. rs) v'"] exI [of _ f] exI [of _ h]) (simp add: upd_roots_def)
qed

lemma tracks_update_publication:
  assumes "tracks L v tok ph ae w" and "\<And>q. same_place (g q) q \<and> phase_of (g q) = gp (phase_of q)"
    and "\<And>t. tracks L v tok (\<lambda>x. gp (ph x)) ae t \<Longrightarrow> Q () t"
  shows "wp (update_publication tok g) Q w"
proof -
  obtain v' f h where v': "tracked L v tok ph ae w v' f h" using assms(1) by (auto simp: tracks_def)
  have "tracks L v tok (\<lambda>x. gp (ph x)) ae t"
    if "sees Map.empty (\<lambda>_. True) L (world.more (upd_pub tok g v')) t" for t
    unfolding tracks_def tracked_def using that v' [unfolded tracked_def] assms(2)
    by (intro exI [of _ "upd_pub tok g v'"] exI [of _ "\<lambda>q. g (f q)"] exI [of _ h])
      (auto simp: upd_pub_def same_place_def)
  then show ?thesis by (intro sees_update_publication [OF tracked_sees [OF v']] assms(3))
qed

lemma tracks_update_arena:
  assumes "tracks L v tok ph ae w"
    and "\<And>b. ar_id (g b) = ar_id b \<and> ar_refs (g b) = ge (ar_refs b)"
    and "\<And>t. tracks L v tok ph (\<lambda>j n. if j = k then ge (ae j n) else ae j n) t \<Longrightarrow> Q () t"
  shows "wp (update_arena k g) Q w"
proof -
  obtain v' f h where v': "tracked L v tok ph ae w v' f h" using assms(1) by (auto simp: tracks_def)
  have "tracks L v tok ph (\<lambda>j n. if j = k then ge (ae j n) else ae j n) t"
    if "sees Map.empty (\<lambda>_. True) L (world.more (upd_arena k g v')) t" for t
    unfolding tracks_def tracked_def using that v' [unfolded tracked_def] assms(2)
    by (intro exI [of _ "upd_arena k g v'"] exI [of _ f] exI [of _ "\<lambda>b. if ar_id (h b) = k then g (h b) else h b"])
      (simp add: upd_arena_def)
  then show ?thesis by (intro sees_update_arena [OF tracked_sees [OF v']] assms(3))
qed

lemma phase_of_simps [simp]:
  "x_absent (phase_of p) = p_absent p" "x_deletion (phase_of p) = p_deletion p"
  "x_captured (phase_of p) = p_captured p" "x_installed (phase_of p) = p_installed p"
  "x_unchanged (phase_of p) = p_unchanged p" "x_pending (phase_of p) = p_rollback_pending p"
  "x_valid (phase_of p) = p_capture_valid p" "x_finished (phase_of p) = p_finished p"
  "x_failed (phase_of p) = p_finish_failed p"
  by (simp_all add: phase_of_def)

lemma find_update:
  assumes "\<forall>q. p_token (f q) = p_token q"
  shows "find (\<lambda>q. p_token q = tok) (map (\<lambda>q. if p_token q = tok then f q else q) ps)
    = map_option f (find (\<lambda>q. p_token q = tok) ps)"
  using assms by (induction ps) auto

lemma find_map_id:
  assumes "\<forall>b. ar_id (h b) = ar_id b"
  shows "find (\<lambda>b. ar_id b = k) (map h as) = map_option h (find (\<lambda>b. ar_id b = k) as)"
  using assms by (induction as) auto

lemma tracks_pub:
  assumes "tracks L v tok ph ae w" and "the_pub tok v = Some p"
  shows "\<exists>q. the_pub tok w = Some q \<and> same_place q p \<and> phase_of q = ph (phase_of p)"
proof -
  obtain v' f h where v': "tracked L v tok ph ae w v' f h" using assms(1) by (auto simp: tracks_def)
  then have "the_pub tok w = map_option f (the_pub tok v)"
    by (auto simp: tracked_def sees_reg the_pub_def same_place_def intro!: find_update)
  with v' assms(2) show ?thesis by (auto simp: tracked_def)
qed

lemma tracks_arena:
  assumes "tracks L v tok ph ae w"
  shows "the_arena k w = None \<longleftrightarrow> the_arena k v = None"
    and "the_arena k w = Some b \<Longrightarrow> ar_id b = k"
    and "the_arena k w = Some b \<Longrightarrow> the_arena k v = Some c \<Longrightarrow> ar_refs b = ae k (ar_refs c)"
proof -
  obtain v' f h where v': "tracked L v tok ph ae w v' f h" using assms(1) by (auto simp: tracks_def)
  then have eq: "the_arena k w = map_option h (the_arena k v)"
    by (auto simp: tracked_def sees_reg the_arena_def intro!: find_map_id)
  then show "the_arena k w = None \<longleftrightarrow> the_arena k v = None" by simp
  show "the_arena k w = Some b \<Longrightarrow> ar_id b = k"
    by (auto simp: the_arena_def dest: find_SomeD)
  assume b: "the_arena k w = Some b" and c: "the_arena k v = Some c"
  from c have "ar_id c = k" by (auto simp: the_arena_def dest: find_SomeD)
  with eq b c v' show "ar_refs b = ae k (ar_refs c)" by (auto simp: tracked_def)
qed

lemma tracks_lookup:
  "tracks L v tok ph ae w \<Longrightarrow> Q (the_pub k w) w \<Longrightarrow> wp (lookup k) Q w"
  by (simp add: lookup_def the_pub_def)

lemma tracks_find_arena:
  "tracks L v tok ph ae w \<Longrightarrow> Q (the_arena k w) w \<Longrightarrow> wp (find_arena k) Q w"
  by (simp add: find_arena_def the_arena_def)

named_theorems tracks_rules \<open>rules of the registry operations\<close>

declare tracks_why [tracks_rules] tracks_lookup [tracks_rules] tracks_find_arena [tracks_rules]

text \<open>The fields of a publication a step writes, as changes of its phase.\<close>

lemma tracks_set:
  assumes "tracks L v tok ph ae w"
  shows "(\<And>t. tracks L v tok (\<lambda>x. (ph x)\<lparr>x_captured := b\<rparr>) ae t \<Longrightarrow> Q () t) \<Longrightarrow>
      wp (update_publication tok (\<lambda>q. q\<lparr>p_captured := b\<rparr>)) Q w"
    and "(\<And>t. tracks L v tok (\<lambda>x. (ph x)\<lparr>x_installed := b\<rparr>) ae t \<Longrightarrow> Q () t) \<Longrightarrow>
      wp (update_publication tok (\<lambda>q. q\<lparr>p_installed := b\<rparr>)) Q w"
    and "(\<And>t. tracks L v tok (\<lambda>x. (ph x)\<lparr>x_unchanged := b\<rparr>) ae t \<Longrightarrow> Q () t) \<Longrightarrow>
      wp (update_publication tok (\<lambda>q. q\<lparr>p_unchanged := b\<rparr>)) Q w"
    and "(\<And>t. tracks L v tok (\<lambda>x. (ph x)\<lparr>x_pending := b\<rparr>) ae t \<Longrightarrow> Q () t) \<Longrightarrow>
      wp (update_publication tok (\<lambda>q. q\<lparr>p_rollback_pending := b\<rparr>)) Q w"
    and "(\<And>t. tracks L v tok (\<lambda>x. (ph x)\<lparr>x_valid := b\<rparr>) ae t \<Longrightarrow> Q () t) \<Longrightarrow>
      wp (update_publication tok (\<lambda>q. q\<lparr>p_capture_valid := b\<rparr>)) Q w"
    and "(\<And>t. tracks L v tok (\<lambda>x. (ph x)\<lparr>x_finished := b\<rparr>) ae t \<Longrightarrow> Q () t) \<Longrightarrow>
      wp (update_publication tok (\<lambda>q. q\<lparr>p_finished := b\<rparr>)) Q w"
    and "(\<And>t. tracks L v tok (\<lambda>x. (ph x)\<lparr>x_failed := b\<rparr>) ae t \<Longrightarrow> Q () t) \<Longrightarrow>
      wp (update_publication tok (\<lambda>q. q\<lparr>p_finish_failed := b\<rparr>)) Q w"
proof goal_cases
  case 1
  show ?case
    by (rule tracks_update_publication [where gp = "\<lambda>s. s\<lparr>x_captured := b\<rparr>", OF assms])
      (simp_all add: 1 same_place_def phase_of_def)
next
  case 2
  show ?case
    by (rule tracks_update_publication [where gp = "\<lambda>s. s\<lparr>x_installed := b\<rparr>", OF assms])
      (simp_all add: 2 same_place_def phase_of_def)
next
  case 3
  show ?case
    by (rule tracks_update_publication [where gp = "\<lambda>s. s\<lparr>x_unchanged := b\<rparr>", OF assms])
      (simp_all add: 3 same_place_def phase_of_def)
next
  case 4
  show ?case
    by (rule tracks_update_publication [where gp = "\<lambda>s. s\<lparr>x_pending := b\<rparr>", OF assms])
      (simp_all add: 4 same_place_def phase_of_def)
next
  case 5
  show ?case
    by (rule tracks_update_publication [where gp = "\<lambda>s. s\<lparr>x_valid := b\<rparr>", OF assms])
      (simp_all add: 5 same_place_def phase_of_def)
next
  case 6
  show ?case
    by (rule tracks_update_publication [where gp = "\<lambda>s. s\<lparr>x_finished := b\<rparr>", OF assms])
      (simp_all add: 6 same_place_def phase_of_def)
next
  case 7
  show ?case
    by (rule tracks_update_publication [where gp = "\<lambda>s. s\<lparr>x_failed := b\<rparr>", OF assms])
      (simp_all add: 7 same_place_def phase_of_def)
qed

text \<open>Fields outside the phase, and an arena's fields other than its count.\<close>

lemma tracks_other:
  assumes "tracks L v tok ph ae w" and "\<And>q. same_place (g q) q \<and> phase_of (g q) = phase_of q"
    and "\<And>t. tracks L v tok ph ae t \<Longrightarrow> Q () t"
  shows "wp (update_publication tok g) Q w"
  using assms(1) by (rule tracks_update_publication [where gp = "\<lambda>x. x"]) (use assms(2,3) in auto)

lemma tracks_arena_other:
  assumes "tracks L v tok ph ae w" and "\<And>b. ar_id (g b) = ar_id b \<and> ar_refs (g b) = ar_refs b"
    and "\<And>t. tracks L v tok ph ae t \<Longrightarrow> Q () t"
  shows "wp (update_arena k g) Q w"
  using assms(1) by (rule tracks_update_arena [where ge = "\<lambda>n. n"]) (use assms(2,3) in auto)

lemma tracks_quarantine [tracks_rules]:
  assumes "tracks L v tok ph ae w" and "\<And>r t. tracks L v tok ph ae t \<Longrightarrow> Q r t"
  shows "wp (quarantine k) Q w"
  unfolding quarantine_def using assms(1)
  by - (intro wp_intros tracks_rules tracks_arena_other assms(2) | assumption | (simp; fail)
      | (rule tracks_lift, assumption, ((intro sees_rules | assumption | (simp; fail))+)[1]))+

text \<open>A failing step: only a failing Finish of a publication already finished marks it.\<close>

lemma tracks_step_fail:
  assumes "tracks L v (p_token p) ph ae w" and "the_pub (p_token p) v = Some p"
    and "\<And>t. tracks L v (p_token p) ph ae t \<Longrightarrow> action \<noteq> 4 \<or> \<not> x_finished (ph (phase_of p)) \<Longrightarrow> Q (-1) t"
    and "\<And>t. tracks L v (p_token p) (\<lambda>x. (ph x)\<lparr>x_failed := True\<rparr>) ae t \<Longrightarrow> action = 4 \<Longrightarrow>
          x_finished (ph (phase_of p)) \<Longrightarrow> Q (-1) t"
  shows "wp (step_fail p a action room) Q w"
proof -
  have now: "(case the_pub (p_token p) t of None \<Rightarrow> False | Some q \<Rightarrow> p_finished q) \<longleftrightarrow> x_finished (ph (phase_of p))"
    if "tracks L v (p_token p) ph ae t" for t
    using tracks_pub [OF that assms(2)] by (metis option.simps(5) phase_of_simps(8))
  show ?thesis
    unfolding step_fail_def using assms(1)
    by - (intro wp_intros tracks_rules tracks_set(7) assms(3,4) | assumption | (simp add: now; fail)
      | (rule tracks_lift, assumption, ((intro sees_rules | assumption | (simp; fail))+)[1]))+
qed

text \<open>
  Every step of an unfinished publication, under every schedule, is a step of the abstract
  machine, and nothing else in the registry of publications changes.
\<close>

definition follows :: "int \<Rightarrow> publication \<Rightarrow> event list \<Rightarrow> 'z pub_world_scheme \<Rightarrow> int
    \<Rightarrow> 'z pub_world_scheme \<Rightarrow> bool" where
  "follows a p L v r t \<longleftrightarrow> (\<exists>ph. tracks L v (p_token p) ph (\<lambda>_ n. n) t \<and> advance a (phase_of p) r (ph (phase_of p)))"

lemma followsI: "tracks L v (p_token p) ph (\<lambda>_ n. n) t \<Longrightarrow> advance a (phase_of p) r (ph (phase_of p)) \<Longrightarrow>
    follows a p L v r t"
  by (auto simp: follows_def)

lemma follows_fail:
  assumes "tracks L v (p_token p) ph (\<lambda>_ n. n) w" and "the_pub (p_token p) v = Some p"
    and "a \<noteq> 4" and "advance a (phase_of p) (-1) (ph (phase_of p))"
  shows "wp (step_fail p b a room) (follows a p L v) w"
  by (rule tracks_step_fail [OF assms(1,2)]) (use assms(3,4) in \<open>auto intro: followsI\<close>)

lemma follows_validate_regular:
  assumes "tracks L v (p_token p) (\<lambda>x. x) (\<lambda>_ n. n) w" and "the_pub (p_token p) v = Some p"
    and "\<not> p_deletion p"
  shows "wp (validate_regular p a room) (follows 0 p L v) w"
  unfolding validate_regular_def using assms(1)
  by - (intro wp_intros tracks_rules tracks_set(3) follows_fail assms(2) followsI advance.refuse | assumption | (simp add: advance.validate assms(3); fail)
      | (rule tracks_lift, assumption, ((intro sees_rules | assumption | (simp; fail))+)[1]))+

lemma follows_validate_directory:
  assumes "tracks L v (p_token p) (\<lambda>x. x) (\<lambda>_ n. n) w" and "the_pub (p_token p) v = Some p"
    and "\<not> p_deletion p"
  shows "wp (validate_directory p a room) (follows 0 p L v) w"
proof -
  have set: "wp (update_publication (p_token p) (\<lambda>q. q\<lparr>p_unchanged := b\<rparr>)) Q t"
    if "tracks L v (p_token p) (\<lambda>x. x) (\<lambda>_ n. n) t"
      "\<And>u. tracks L v (p_token p) (\<lambda>x. x\<lparr>x_unchanged := b\<rparr>) (\<lambda>_ n. n) u \<Longrightarrow> Q () u" for b t Q
    using that by (rule tracks_set(3))
  have tree: "wp (update_publication (p_token p) (\<lambda>q. q\<lparr>p_fresh_tree := b\<rparr>)) Q t"
    if "tracks L v (p_token p) (\<lambda>x. x) (\<lambda>_ n. n) t"
      "\<And>u. tracks L v (p_token p) (\<lambda>x. x) (\<lambda>_ n. n) u \<Longrightarrow> Q () u" for b t Q
    using that(1) by (rule tracks_other) (use that(2) in \<open>simp_all add: same_place_def phase_of_def\<close>)
  show ?thesis
    unfolding validate_directory_def using assms(1)
    by - (intro wp_intros tracks_rules set tree follows_fail assms(2) followsI advance.refuse | assumption | (simp add: advance.validate assms(3); fail)
      | (rule tracks_lift, assumption, ((intro sees_rules  | assumption | (simp; fail))+)[1]))+
qed

lemma follows_step_validate:
  assumes "tracks L v (p_token p) (\<lambda>x. x) (\<lambda>_ n. n) w" and "the_pub (p_token p) v = Some p"
  shows "wp (step_validate p a room) (follows 0 p L v) w"
proof -
  have tree: "wp (update_publication (p_token p) (\<lambda>q. q\<lparr>p_fresh_tree := b\<rparr>)) Q t"
    if "tracks L v (p_token p) (\<lambda>x. x) (\<lambda>_ n. n) t"
      "\<And>u. tracks L v (p_token p) (\<lambda>x. x) (\<lambda>_ n. n) u \<Longrightarrow> Q () u" for b t Q
    using that(1) by (rule tracks_other) (use that(2) in \<open>simp_all add: same_place_def phase_of_def\<close>)
  have fresh: "wp (update_publication (p_token p) (\<lambda>q. q\<lparr>p_fresh := b\<rparr>)) Q t"
    if "tracks L v (p_token p) (\<lambda>x. x) (\<lambda>_ n. n) t"
      "\<And>u. tracks L v (p_token p) (\<lambda>x. x) (\<lambda>_ n. n) u \<Longrightarrow> Q () u" for b t Q
    using that(1) by (rule tracks_other) (use that(2) in \<open>simp_all add: same_place_def phase_of_def\<close>)
  show ?thesis
    unfolding step_validate_def using assms(1)
    by - (intro wp_intros tracks_rules fresh tree follows_validate_regular follows_validate_directory follows_fail assms(2) followsI advance.refuse | assumption | (simp add: advance.validate_deletion; fail)
      | (rule tracks_lift, assumption, ((intro sees_rules  | assumption | (simp; fail))+)[1]))+
qed

lemma sees_judge_captured [sees_rules]:
  assumes "sees F ok L M w" and "\<And>r t. sees F ok L M t \<Longrightarrow> Q r t"
  shows "wp (judge_captured p a paths ids) Q w"
  unfolding judge_captured_def using assms(1)
  by - (intro wp_intros sees_rules assms(2) | assumption | (simp; fail))+

lemma judge_captured_absent:
  "p_absent p \<Longrightarrow> run_state (judge_captured p a paths ids) w = (r, t) \<Longrightarrow> \<not> r"
  by (auto simp: judge_captured_def split: option.splits prod.splits)

lemma sees_judge_captured_tree [sees_rules]:
  assumes "sees F ok L M w" and "\<And>r t. sees F ok L M t \<Longrightarrow> Q r t"
  shows "wp (judge_captured_tree p a paths ids) Q w"
proof -
  have flat: "apart F (tree_list x) \<longleftrightarrow> (\<forall>e. x = Some e \<longrightarrow> apart F [e])" for x
    by (cases x) (auto simp: tree_list_def)
  show ?thesis
    unfolding judge_captured_tree_def using assms(1)
    by - (intro wp_intros sees_rules assms(2) | assumption | (simp add: flat; fail))+
qed

lemma tracks_judge_captured:
  assumes "tracks L v tok ph ae w"
    and "\<And>r t. tracks L v tok ph ae t \<Longrightarrow> r \<longrightarrow> \<not> p_absent p \<Longrightarrow> Q r t"
  shows "wp (judge_captured p a paths ids) Q w"
proof -
  have "wp (judge_captured p a paths ids) (\<lambda>r t. tracks L v tok ph ae t) w"
    by (rule tracks_lift [OF assms(1)]) (auto intro: sees_judge_captured)
  moreover have "wp (judge_captured p a paths ids) (\<lambda>r t. r \<longrightarrow> \<not> p_absent p) w"
    by (rule wpI) (auto dest: judge_captured_absent)
  ultimately show ?thesis by (rule wp_weaken [OF wp_conj]) (use assms(2) in auto)
qed

lemma follows_step_capture:
  assumes "tracks L v (p_token p) (\<lambda>x. x) (\<lambda>_ n. n) w" and "the_pub (p_token p) v = Some p"
  shows "wp (step_capture p a paths ids room) (follows 1 p L v) w"
  unfolding step_capture_def using assms(1)
  by - (intro wp_intros tracks_rules tracks_judge_captured tracks_set(1,5) follows_fail assms(2) followsI advance.refuse | assumption | (simp add: advance.capture advance.capture_nothing advance.capture_rejected advance.refuse; fail)
      | (rule tracks_lift, assumption, ((intro sees_rules  | assumption | (simp; fail))+)[1]))+

lemma follows_step_install:
  assumes "tracks L v (p_token p) (\<lambda>x. x) (\<lambda>_ n. n) w" and "the_pub (p_token p) v = Some p"
  shows "wp (step_install p a room) (follows 2 p L v) w"
  unfolding step_install_def using assms(1)
  by - (intro wp_intros tracks_rules tracks_set(1,2) follows_fail assms(2) followsI advance.refuse | assumption | (simp add: advance.install advance.install_deletion advance.install_unchanged advance.refuse; fail)
      | (rule tracks_lift, assumption, ((intro sees_rules  | assumption | (simp; fail))+)[1]))+

lemma phase_set_same:
  "\<not> x_pending s \<Longrightarrow> s\<lparr>x_pending := False\<rparr> = s"
  "\<not> x_installed s \<Longrightarrow> s\<lparr>x_installed := False\<rparr> = s"
  "\<not> x_captured s \<Longrightarrow> s\<lparr>x_captured := False\<rparr> = s"
  by (cases s; simp)+

lemma sees_remove_validated [sees_rules]:
  assumes "sees F ok L M w" and "\<And>r t. sees F ok L M t \<Longrightarrow> Q r t"
    and "\<And>d n ob. ok (Unlinked d n ob)"
  shows "wp (remove_validated fd name st tree) Q w"
  unfolding remove_validated_def using assms(1)
  by - (intro wp_intros sees_discard_tree sees_rules assms(2,3) | assumption)+

lemma tracks_restore_installed:
  assumes "tracks L v (p_token p) (\<lambda>x. x) ae w" and "\<not> p_rollback_pending p"
    and no: "\<And>ph t. tracks L v (p_token p) ph ae t \<Longrightarrow>
      ph (phase_of p) = phase_of p \<or> ph (phase_of p) = (phase_of p)\<lparr>x_pending := True\<rparr> \<Longrightarrow> Q False t"
    and yes: "\<And>ph t. tracks L v (p_token p) ph ae t \<Longrightarrow> ph (phase_of p) = phase_of p \<Longrightarrow> Q True t"
  shows "wp (restore_installed p a) Q w"
proof -
  have answer: "Q b t" if "tracks L v (p_token p) (\<lambda>x. x) ae t" for b t
    using that no [of "\<lambda>x. x" t] yes [of "\<lambda>x. x" t] by (cases b) auto
  have undone: "Q b t" if "tracks L v (p_token p) (\<lambda>x. x\<lparr>x_pending := True, x_pending := False\<rparr>) ae t" for b t
    using that no [of _ t] yes [of _ t] assms(2) by (cases b) (auto simp: phase_set_same)
  show ?thesis
    unfolding restore_installed_def using assms(1)
    by - (intro wp_intros tracks_rules tracks_set(4) answer undone no | assumption | (simp; fail)
      | (rule tracks_lift, assumption, ((intro sees_rules  | assumption | (simp; fail))+)[1]))+
qed

lemma tracks_restore_captured:
  assumes "tracks L v tok ph ae w" and "tok = p_token p"
    and "\<And>t. tracks L v tok ph ae t \<Longrightarrow> Q False t"
    and "\<And>t. tracks L v tok (\<lambda>x. (ph x)\<lparr>x_captured := False\<rparr>) ae t \<Longrightarrow> Q True t"
  shows "wp (restore_captured p a) Q w"
  unfolding restore_captured_def using assms(1)
  unfolding assms(2)
  by - (intro wp_intros tracks_rules tracks_set(1) assms(3,4) [unfolded assms(2)] | assumption | (simp; fail)
      | (rule tracks_lift, assumption, ((intro sees_rules  | assumption | (simp; fail))+)[1]))+

lemma advance_restored:
  "\<not> x_pending s \<Longrightarrow> \<not> x_installed s \<Longrightarrow> \<not> x_captured s \<Longrightarrow> advance 3 s 0 s"
  "\<not> x_pending s \<Longrightarrow> \<not> x_installed s \<Longrightarrow> advance 3 s 0 (s\<lparr>x_captured := False\<rparr>)"
  "\<not> x_pending s \<Longrightarrow> \<not> x_captured s \<Longrightarrow> advance 3 s 0 (s\<lparr>x_installed := False\<rparr>)"
  using advance.restore [of s]
  by (simp_all add: phase_set_same)

lemma advance_taken_back:
  "s' = s \<or> s' = s\<lparr>x_pending := True\<rparr> \<Longrightarrow> x_installed s \<Longrightarrow> \<not> x_pending s \<Longrightarrow> advance 3 s (-1) s'"
  by (auto intro: advance.refuse advance.restore_pending)

lemma follows_step_restore:
  assumes "tracks L v (p_token p) (\<lambda>x. x) (\<lambda>_ n. n) w" and "the_pub (p_token p) v = Some p"
  shows "wp (step_restore p a room) (follows 3 p L v) w"
  unfolding step_restore_def using assms(1)
  by - (intro wp_intros tracks_rules tracks_restore_installed tracks_restore_captured tracks_set(2) follows_fail assms(2) followsI advance.refuse | assumption | (simp add: advance_restored advance_taken_back advance.restore advance.restore_half advance.refuse; fail)
      | (rule tracks_lift, assumption, ((intro sees_rules  | assumption | (simp; fail))+)[1]))+

text \<open>Finish: closing what a publication holds, and the retirement of its arena.\<close>

lemma sees_close_all [sees_rules]:
  "sees Map.empty ok L M w \<Longrightarrow> (\<And>r t. sees Map.empty ok L M t \<Longrightarrow> Q r t) \<Longrightarrow> wp (close_all fds) Q w"
proof (induction fds arbitrary: w)
  case (Cons fd fds)
  show ?case
    unfolding close_all.simps using Cons.prems(1)
    by - (intro wp_intros sees_rules Cons.IH Cons.prems(2) | assumption | (simp; fail))+
qed simp

lemma tracks_modify_roots:
  "tracks L v tok ph ae w \<Longrightarrow> (\<And>r t. tracks L v tok ph ae t \<Longrightarrow> Q r t) \<Longrightarrow>
   wp (modify (\<lambda>w. w\<lparr>g_roots := f (g_roots w)\<rparr>)) Q w"
  by (simp add: tracks_roots)

lemma tracks_prune_anchors [tracks_rules]:
  assumes "tracks L v tok ph ae w" and "\<And>r t. tracks L v tok ph ae t \<Longrightarrow> Q r t"
  shows "wp prune_anchors Q w"
  unfolding prune_anchors_def using assms(1)
  by - (intro wp_intros tracks_rules tracks_modify_roots assms(2) | assumption | (simp; fail)
      | (rule tracks_lift, assumption, ((intro sees_rules  | assumption | (simp; fail))+)[1]))+

lemma tracks_release_anchor [tracks_rules]:
  assumes "tracks L v tok ph ae w" and "tok = p_token p" and "\<And>r t. tracks L v tok ph ae t \<Longrightarrow> Q r t"
  shows "wp (release_anchor p) Q w"
proof -
  have anchor: "wp (update_publication tok (\<lambda>q. q\<lparr>p_anchor := None\<rparr>)) Q' t"
    if "tracks L v tok ph ae t" "\<And>r u. tracks L v tok ph ae u \<Longrightarrow> Q' r u" for t Q'
    using that(1) by (rule tracks_other) (use that(2) in \<open>simp_all add: same_place_def phase_of_def\<close>)
  show ?thesis
    unfolding release_anchor_def using assms(1) unfolding assms(2)
    by - (intro wp_intros tracks_rules tracks_modify_roots anchor [unfolded assms(2)] assms(3) [unfolded assms(2)] | assumption | (simp; fail)
      | (rule tracks_lift, assumption, ((intro sees_rules  | assumption | (simp; fail))+)[1]))+
qed

lemma tracks_release_buffers [tracks_rules]:
  assumes "tracks L v tok ph ae w" and "tok = p_token p" and "\<And>r t. tracks L v tok ph ae t \<Longrightarrow> Q r t"
  shows "wp (release_buffers p) Q w"
proof -
  have drop: "wp (update_publication tok (\<lambda>q. q\<lparr>p_expected_fd := (if 0 \<le> p_expected_fd q then -1 else p_expected_fd q),
       p_bytes := None, p_expected_tree := None, p_fresh_tree := None\<rparr>)) Q' t"
    if "tracks L v tok ph ae t" "\<And>r u. tracks L v tok ph ae u \<Longrightarrow> Q' r u" for t Q'
    using that(1) by (rule tracks_other) (use that(2) in \<open>simp_all add: same_place_def phase_of_def\<close>)
  show ?thesis
    unfolding release_buffers_def using assms(1) unfolding assms(2)
    by - (intro wp_intros tracks_rules drop [unfolded assms(2)] assms(3) [unfolded assms(2)] | assumption | (simp; fail)
      | (rule tracks_lift, assumption, ((intro sees_rules  | assumption | (simp; fail))+)[1]))+
qed

lemma sees_journals_intact [sees_rules]:
  "sees F ok L M w \<Longrightarrow> (\<And>r t. sees F ok L M t \<Longrightarrow> Q r t) \<Longrightarrow> wp (journals_intact fd ps) Q w"
proof (induction ps arbitrary: w)
  case (Cons p ps)
  show ?case
    unfolding journals_intact.simps using Cons.prems(1)
    by - (intro wp_intros sees_rules Cons.IH Cons.prems(2) | assumption)+
qed simp

lemma sees_unlink_journals [sees_rules]:
  "sees F ok L M w \<Longrightarrow> (\<And>r t. sees F ok L M t \<Longrightarrow> Q r t) \<Longrightarrow>
   (\<And>d n ob. at_fd F fd d \<Longrightarrow> ok (Unlinked d n ob)) \<Longrightarrow> wp (unlink_journals fd ps) Q w"
proof (induction ps arbitrary: w)
  case (Cons p ps)
  show ?case
    unfolding unlink_journals.simps using Cons.prems(1)
    by - (intro wp_intros sees_rules Cons.IH Cons.prems(2,3) | assumption)+
qed simp

lemma sees_finish_journals [sees_rules]:
  assumes "sees F ok L M w" and "\<And>r t. sees F ok L M t \<Longrightarrow> Q r t"
    and "\<And>d n ob. at_fd F (ar_root_fd a) d \<Longrightarrow> ok (Unlinked d n ob)"
  shows "wp (finish_journals a) Q w"
  unfolding finish_journals_def using assms(1)
  by - (intro wp_intros sees_rules assms(2,3) | assumption)+

lemma sees_retire_arena [sees_rules]:
  assumes "sees F ok L M w" and "\<And>r t. sees F ok L M t \<Longrightarrow> Q r t"
    and "\<And>d n ob. ok (Unlinked d n ob)"
  shows "wp (retire_arena a) Q w"
  unfolding retire_arena_def using assms(1)
  by - (intro wp_intros sees_rules assms(2,3) | assumption)+

lemma sees_finish_staged [sees_rules]:
  assumes "sees F ok L M w" and "\<And>r t. sees F ok L M t \<Longrightarrow> Q r t"
    and "\<And>d n ob. ok (Unlinked d n ob)"
  shows "wp (finish_staged p a) Q w"
  unfolding finish_staged_def using assms(1)
  by - (intro wp_intros sees_rules assms(2,3) | assumption)+

lemma tracks_finish_captured:
  assumes "tracks L v tok ph ae w" and "tok = p_token p"
    and "\<And>t. tracks L v tok ph ae t \<Longrightarrow> Q False t"
    and "\<And>t. tracks L v tok (\<lambda>x. (ph x)\<lparr>x_captured := False\<rparr>) ae t \<Longrightarrow> p_capture_valid p \<Longrightarrow>
      \<not> p_absent p \<Longrightarrow> Q True t"
  shows "wp (finish_captured p a) Q w"
proof -
  have no: "Q b t" if "tracks L v (p_token p) ph ae t" "\<not> b" for b t
    using that assms(2,3) by simp
  have yes: "Q b t" if "tracks L v (p_token p) (\<lambda>x. (ph x)\<lparr>x_captured := False\<rparr>) ae t" "b"
      "\<not> (p_absent p \<or> \<not> p_capture_valid p \<or> \<not> same st (p_expected p))" for b t st
    using that assms(2,4) by simp
  show ?thesis
    unfolding finish_captured_def using assms(1) unfolding assms(2)
    by - (intro wp_intros tracks_rules tracks_set(1) no yes | assumption | (simp; fail)
      | (rule tracks_lift, assumption, ((intro sees_rules  | assumption | (simp; fail))+)[1]))+
qed

text \<open>The retired arena leaves the registry with every publication in it.\<close>

definition drop_arena :: "nat \<Rightarrow> 'z pub_world_scheme \<Rightarrow> 'z pub_world_scheme" where
  "drop_arena k v = v\<lparr>g_publications := filter (\<lambda>p. p_arena p \<noteq> k) (g_publications v),
     g_arenas := filter (\<lambda>b. ar_id b \<noteq> k) (g_arenas v)\<rparr>"

lemma sees_modify_ghost:
  assumes "sees F ok L (world.more v) w"
    and "world.more (f v) = world.more (f w)" and "w_fds (f w) = w_fds w" and "w_log (f w) = w_log w"
    and "\<And>t. sees F ok L (world.more (f v)) t \<Longrightarrow> Q () t"
  shows "wp (modify f) Q w"
  using assms(5) [of "f w"] sees_modify_reg [where f = f, OF assms(1,3,4)] assms(2) by simp

lemma drop_more:
  assumes "world.more t = world.more v"
  shows "world.more (v\<lparr>g_publications := filter (\<lambda>p. p_arena p \<noteq> k) (g_publications v)\<rparr>) =
      world.more (t\<lparr>g_publications := filter (\<lambda>p. p_arena p \<noteq> k) (g_publications t)\<rparr>)"
    and "world.more (v\<lparr>g_arenas := filter (\<lambda>b. ar_id b \<noteq> k) (g_arenas v)\<rparr>) =
      world.more (t\<lparr>g_arenas := filter (\<lambda>b. ar_id b \<noteq> k) (g_arenas t)\<rparr>)"
  using assms by (cases t; cases v; simp)+

lemma sees_free_publications [sees_rules]:
  "sees Map.empty ok L M w \<Longrightarrow> (\<And>r t. sees Map.empty ok L M t \<Longrightarrow> Q r t) \<Longrightarrow> wp (free_publications ps) Q w"
proof (induction ps arbitrary: w)
  case (Cons p ps)
  show ?case
    unfolding free_publications.simps using Cons.prems(1)
    by - (intro wp_intros sees_rules Cons.IH Cons.prems(2) | assumption | (simp; fail))+
qed simp

lemma sees_free_finished_arena:
  assumes "sees Map.empty ok L (world.more v) w"
    and "\<And>r t. sees Map.empty ok L (world.more (drop_arena (ar_id a) v)) t \<Longrightarrow> Q r t"
  shows "wp (free_finished_arena a) Q w"
proof -
  let ?f = "\<lambda>w :: 'a pub_world_scheme. w\<lparr>g_publications := filter (\<lambda>p. p_arena p \<noteq> ar_id a) (g_publications w)\<rparr>"
  let ?g = "\<lambda>w :: 'a pub_world_scheme. w\<lparr>g_arenas := filter (\<lambda>b. ar_id b \<noteq> ar_id a) (g_arenas w)\<rparr>"
  have f: "wp (modify ?f) Q' t" if "sees Map.empty ok L (world.more v) t"
      "\<And>r u. sees Map.empty ok L (world.more (?f v)) u \<Longrightarrow> Q' r u" for t Q'
    by (rule sees_modify_ghost [OF that(1)]) (simp_all add: that(2) drop_more(1) [OF sees_more [OF that(1)]])
  have g: "wp (modify ?g) Q' t" if "sees Map.empty ok L (world.more (?f v)) t"
      "\<And>r u. sees Map.empty ok L (world.more (?g (?f v))) u \<Longrightarrow> Q' r u" for t Q'
    by (rule sees_modify_ghost [OF that(1) drop_more(2) [OF sees_more [OF that(1)]]]) (simp_all add: that(2))
  have last: "Q r t" if "sees Map.empty ok L (world.more (?g (?f v))) t" for r t
    using assms(2) that by (simp add: drop_arena_def)
  show ?thesis
    unfolding free_finished_arena_def using assms(1)
    by - (intro wp_intros f g last sees_rules | assumption | (simp; fail))+
qed

text \<open>The arena's count goes down by one exactly when the publication is finished.\<close>

definition counted :: "publication \<Rightarrow> (phase \<Rightarrow> phase) \<Rightarrow> (nat \<Rightarrow> nat \<Rightarrow> nat) \<Rightarrow> bool" where
  "counted p ph ae \<longleftrightarrow> ae = (\<lambda>j n. if x_finished (ph (phase_of p)) \<and> j = p_arena p then n - 1 else n)"

definition retired :: "publication \<Rightarrow> event list \<Rightarrow> 'z pub_world_scheme \<Rightarrow> 'z pub_world_scheme \<Rightarrow> bool" where
  "retired p L v t \<longleftrightarrow> (\<exists>u ph ae b. tracks L v (p_token p) ph ae u
     \<and> advance 4 (phase_of p) 0 (ph (phase_of p)) \<and> counted p ph ae
     \<and> the_arena (p_arena p) u = Some b \<and> ar_refs b = 0
     \<and> world.more t = world.more (drop_arena (p_arena p) u))"

lemma drop_arena_more: "world.more t = world.more v \<Longrightarrow> world.more (drop_arena k t) = world.more (drop_arena k v)"
  by (cases t; cases v; simp add: drop_arena_def)

lemma retired_free:
  assumes "tracks L v (p_token p) ph ae u" and "advance 4 (phase_of p) 0 (ph (phase_of p))"
    and "the_arena (p_arena p) v = Some a" and "ae (p_arena p) (ar_refs a) = 0" and "ar_id b = p_arena p"
    and "counted p ph ae"
    and "\<And>r t. retired p L v t \<Longrightarrow> Q r t"
  shows "wp (free_finished_arena b) Q u"
proof -
  obtain v' f h where v': "tracked L v (p_token p) ph ae u v' f h" using assms(1) by (auto simp: tracks_def)
  obtain c where c: "the_arena (p_arena p) u = Some c"
    using tracks_arena(1) [OF assms(1), of "p_arena p"] assms(3) by fastforce
  with tracks_arena(3) [OF assms(1) c assms(3)] assms(4) have "ar_refs c = 0" by simp
  show ?thesis
  proof (rule sees_free_finished_arena [OF tracked_sees [OF v']])
    fix r t
    assume "sees Map.empty (\<lambda>_. True) L (world.more (drop_arena (ar_id b) v')) t"
    then have "world.more t = world.more (drop_arena (p_arena p) u)"
      using sees_more drop_arena_more [OF sees_more [OF tracked_sees [OF v']]] assms(5) by metis
    with assms(1,2,6) c \<open>ar_refs c = 0\<close> show "Q r t"
      by (intro assms(7)) (auto simp: retired_def)
  qed
qed

definition finishes :: "publication \<Rightarrow> event list \<Rightarrow> 'z pub_world_scheme \<Rightarrow> int \<Rightarrow> 'z pub_world_scheme \<Rightarrow> bool" where
  "finishes p L v r t \<longleftrightarrow> (\<exists>ph ae. tracks L v (p_token p) ph ae t
     \<and> advance 4 (phase_of p) r (ph (phase_of p)) \<and> counted p ph ae) \<or> r = 0 \<and> retired p L v t"

lemma finishesI:
  "tracks L v (p_token p) ph ae t \<Longrightarrow> advance 4 (phase_of p) r (ph (phase_of p)) \<Longrightarrow> counted p ph ae \<Longrightarrow>
    finishes p L v r t"
  "retired p L v t \<Longrightarrow> finishes p L v 0 t"
  by (auto simp: finishes_def)

lemma finishes_fail:
  assumes "tracks L v (p_token p) ph ae w" and "the_pub (p_token p) v = Some p" and "counted p ph ae"
    and "\<not> x_finished (ph (phase_of p)) \<Longrightarrow> advance 4 (phase_of p) (-1) (ph (phase_of p))"
    and "x_finished (ph (phase_of p)) \<Longrightarrow> advance 4 (phase_of p) (-1) ((ph (phase_of p))\<lparr>x_failed := True\<rparr>)"
  shows "wp (step_fail p b 4 room) (finishes p L v) w"
proof (rule tracks_step_fail [OF assms(1,2)])
  fix t
  assume "tracks L v (p_token p) (\<lambda>x. (ph x)\<lparr>x_failed := True\<rparr>) ae t" "x_finished (ph (phase_of p))"
  then show "finishes p L v (- 1) t"
    using assms(3,5) by (intro finishesI(1)) (auto simp: counted_def)
qed (use assms(3,4) in \<open>auto intro: finishesI(1)\<close>)

lemma tracks_now:
  assumes "tracks L v tok ph ae w" and "the_arena k v = Some a"
    and "\<And>b. ar_id b = k \<Longrightarrow> ar_refs b = ae k (ar_refs a) \<Longrightarrow> Q (Some b) w"
  shows "wp (find_arena k) Q w"
proof -
  obtain c where c: "the_arena k w = Some c"
    using tracks_arena(1) [OF assms(1), of k] assms(2) by fastforce
  from assms(3) [OF tracks_arena(2) [OF assms(1) c] tracks_arena(3) [OF assms(1) c assms(2)]] c
  show ?thesis by (simp add: find_arena_def the_arena_def)
qed

lemma finishes_last:
  assumes "tracks L v (p_token p) ph ae w" and "the_pub (p_token p) v = Some p"
    and "the_arena (p_arena p) v = Some a" and "ae (p_arena p) (ar_refs a) = 0"
    and "x_finished (ph (phase_of p))" and count: "counted p ph ae"
    and fin: "advance 4 (phase_of p) 0 (ph (phase_of p))"
    and undone: "advance 4 (phase_of p) (-1) ((ph (phase_of p))\<lparr>x_failed := True\<rparr>)"
  shows "wp (finish_last p a room) (finishes p L v) w"
proof -
  have k: "ar_id a = p_arena p" using assms(3) by (auto simp: the_arena_def dest: find_SomeD)
  have now: "wp (find_arena (p_arena p)) Q t"
    if "tracks L v (p_token p) ph ae t" "\<And>b. ar_id b = p_arena p \<Longrightarrow> Q (Some b) t" for Q t
    by (rule tracks_now [OF that(1) assms(3)]) (rule that(2))
  show ?thesis
    unfolding finish_last_def k using assms(1)
    by - (intro wp_intros finishes_fail [OF _ assms(2) count] now retired_free [where ph = ph and ae = ae and p = p and a = a, OF _ fin assms(3,4) _ count] finishesI
          tracks_set(7) tracks_rules | assumption | (simp add: assms(5) undone count [unfolded counted_def] counted_def; fail)
        | (rule tracks_lift, assumption, ((intro sees_rules | assumption | (simp; fail))+)[1]))+
qed

lemma finishes_swept:
  assumes "tracks L v (p_token p) ph (\<lambda>_ n. n) w" and "the_pub (p_token p) v = Some p"
    and "the_arena (p_arena p) v = Some a" and "ar_id a = p_arena p"
    and fin: "advance 4 (phase_of p) 0 ((ph (phase_of p))\<lparr>x_finished := True\<rparr>)"
    and undone: "advance 4 (phase_of p) (-1) ((ph (phase_of p))\<lparr>x_finished := True, x_failed := True\<rparr>)"
  shows "wp (finish_settled p a room) (finishes p L v) w"
proof -
  let ?ph = "\<lambda>x. (ph x)\<lparr>x_finished := True\<rparr>"
  let ?ae = "\<lambda>j n. if j = p_arena p then n - 1 else n :: nat"
  have less: "wp (update_arena (p_arena p) (\<lambda>b. b\<lparr>ar_refs := ar_refs b - 1\<rparr>)) Q t"
    if "tracks L v (p_token p) ?ph (\<lambda>_ n. n) t" "\<And>u. tracks L v (p_token p) ?ph ?ae u \<Longrightarrow> Q () u" for Q t
    by (rule tracks_update_arena [OF that(1), where ge = "\<lambda>n. n - 1"]) (simp_all add: that(2))
  have now: "wp (find_arena (p_arena p)) Q t"
    if "tracks L v (p_token p) ?ph ?ae t"
      "\<And>b. ar_id b = p_arena p \<Longrightarrow> ar_refs b = ar_refs a - 1 \<Longrightarrow> Q (Some b) t" for Q t
    by (rule tracks_now [OF that(1) assms(3)]) (use that(2) in auto)
  have last: "wp (finish_last p a room) (finishes p L v) t"
    if "tracks L v (p_token p) ?ph ?ae t" "ar_refs a - 1 = 0" for t
    by (rule finishes_last [OF that(1) assms(2,3)]) (use that(2) fin undone in \<open>simp_all add: counted_def fun_eq_iff\<close>)
  show ?thesis
    unfolding finish_settled_def assms(4) using assms(1)
    by - (intro wp_intros less now last tracks_set(6) finishesI(1) tracks_release_anchor
          tracks_release_buffers | assumption | (simp add: fin counted_def fun_eq_iff; fail))+
qed

lemma advance_finished:
  "\<not> x_captured s \<Longrightarrow> advance 4 s 0 (s\<lparr>x_finished := True\<rparr>)"
  "\<not> x_captured s \<Longrightarrow> advance 4 s (-1) (s\<lparr>x_finished := True, x_failed := True\<rparr>)"
  using advance.finish [of s] advance.finish_unretired [of s] by (simp_all add: phase_set_same)

lemma finishes_step:
  assumes "tracks L v (p_token p) (\<lambda>x. x) (\<lambda>_ n. n) w" and "the_pub (p_token p) v = Some p"
    and "the_arena (p_arena p) v = Some a" and "\<not> p_finished p"
  shows "wp (step_finish p a room) (finishes p L v) w"
proof -
  have k: "ar_id a = p_arena p" using assms(3) by (auto simp: the_arena_def dest: find_SomeD)
  have fail: "wp (step_fail p a 4 room) (finishes p L v) t"
    if "tracks L v (p_token p) (\<lambda>x. x) (\<lambda>_ n. n) t \<or> p_captured p \<and> p_capture_valid p \<and> \<not> p_absent p
        \<and> tracks L v (p_token p) (\<lambda>x. x\<lparr>x_captured := False\<rparr>) (\<lambda>_ n. n) t" for t
    using that assms(4)
    by (auto intro!: finishes_fail assms(2) intro: advance.refuse advance.finish_half simp: counted_def)
  note swept = finishes_swept [OF _ assms(2,3) k]
  show ?thesis
  proof (cases "p_captured p")
    case False
    then show ?thesis
      unfolding step_finish_def using assms(1)
      by - ((rule swept, assumption, simp add: advance_finished,
            simp add: advance_finished)
          | intro wp_intros fail | assumption | (simp; fail)
          | (rule tracks_lift, assumption, ((intro sees_rules | assumption | (simp; fail))+)[1]))+
  next
    case True
    then show ?thesis
      unfolding step_finish_def using assms(1)
      by - ((rule swept, assumption, simp add: advance.finish, simp add: advance.finish_unretired)
          | intro wp_intros fail tracks_finish_captured | assumption | (simp; fail)
          | (rule tracks_lift, assumption, ((intro sees_rules | assumption | (simp; fail))+)[1]))+
  qed
qed

section \<open>A step as a whole\<close>

definition stepped :: "int \<Rightarrow> publication \<Rightarrow> event list \<Rightarrow> 'z pub_world_scheme \<Rightarrow> int
    \<Rightarrow> 'z pub_world_scheme \<Rightarrow> bool" where
  "stepped action p L v r t \<longleftrightarrow>
     (if p_finished p then r = (if p_finish_failed p then -1 else 0)
        \<and> tracks L v (p_token p) (\<lambda>x. x) (\<lambda>_ n. n) t
      else if action = 4 then finishes p L v r t else follows action p L v r t)"

lemma find_pub_token: "the_pub token v = Some p \<Longrightarrow> p_token p = token"
  by (auto simp: the_pub_def dest: find_SomeD)

lemma sees_start: "sees Map.empty (\<lambda>_. True) (w_log w) (world.more w) w"
  by (simp add: sees_def)

lemma tracks_upd_why [simp]: "tracks L (upd_why s v) tok ph ae t \<longleftrightarrow> tracks L v tok ph ae t"
  by (simp add: tracks_def tracked_def upd_why_def)

lemma the_upd_why [simp]: "the_pub k (upd_why s v) = the_pub k v" "the_arena k (upd_why s v) = the_arena k v"
  by (simp_all add: the_pub_def the_arena_def upd_why_def)

lemma tracks_fail_with:
  assumes "tracks L v tok ph ae w" and "\<And>t. tracks L v tok ph ae t \<Longrightarrow> Q (-1) t"
  shows "wp (fail_with e) Q w"
  unfolding fail_with_def wp_bind
  by (rule tracks_lift [OF assms(1)]) (auto intro: seen.on_set_errno assms(2))

lemma step_effect:
  assumes "the_pub token w = Some p" and "the_arena (p_arena p) w = Some a"
  shows "wp (landin_publication_step_locked token action paths ids room) (stepped action p (w_log w) w) w"
proof -
  note token = find_pub_token [OF assms(1)]
  have p: "the_pub (p_token p) w = Some p" using assms(1) token by simp
  have body: "wp (if p_finished p \<and> p_finish_failed p then do {
          location \<leftarrow> describe_recovery a (PATH_MAX + 256);
          reason room (msg_retained_cleanup location);
          fail_with EBUSY
        }
        else if p_finished p then ret 0
        else do {
          cancelled \<leftarrow> cancellation_requested;
          if action \<le> 2 \<and> cancelled then do { set_errno EINTR; step_fail p a action room }
          else if action = 0 then step_validate p a room
          else if action = 1 then step_capture p a paths ids room
          else if action = 2 then step_install p a room
          else if action = 3 then step_restore p a room
          else if action = 4 then step_finish p a room
          else do { set_errno EINVAL; step_fail p a action room }
        }) (stepped action p (w_log w) w) t"
    if t: "tracks (w_log w) w (p_token p) (\<lambda>x. x) (\<lambda>_ n. n) t" for t
  proof (cases "p_finished p")
    case True
    with t show ?thesis
      by - ((intro wp_intros tracks_rules tracks_fail_with | assumption | (simp add: stepped_def; fail)
        | (rule tracks_lift, assumption, ((intro sees_rules | assumption | (simp; fail))+)[1]))+)
  next
    case False
    have unless: "stepped action p (w_log w) w = (if action = 4 then finishes p (w_log w) w else follows action p (w_log w) w)"
      using False by (auto simp: stepped_def fun_eq_iff)
    let ?Q = "if action = 4 then finishes p (w_log w) w else follows action p (w_log w) w"
    have part: "action \<noteq> 4 \<Longrightarrow> wp (step_fail p a action room) ?Q u"
      "action = 0 \<Longrightarrow> wp (step_validate p a room) ?Q u"
      "action = 1 \<Longrightarrow> wp (step_capture p a paths ids room) ?Q u"
      "action = 2 \<Longrightarrow> wp (step_install p a room) ?Q u"
      "action = 3 \<Longrightarrow> wp (step_restore p a room) ?Q u"
      "action = 4 \<Longrightarrow> wp (step_finish p a room) ?Q u"
      if u: "tracks (w_log w) w (p_token p) (\<lambda>x. x) (\<lambda>_ n. n) u" for u
      using follows_fail [OF u p _ advance.refuse] follows_step_validate [OF u p]
        follows_step_capture [OF u p] follows_step_install [OF u p] follows_step_restore [OF u p]
        finishes_step [OF u p assms(2) False]
      by simp_all
    show ?thesis
      using t False unfolding unless
      by - ((intro wp_intros part | assumption | (simp; fail)
        | (rule tracks_lift, assumption, ((intro sees_rules | assumption | (simp; fail))+)[1]))+)
  qed
  have start: "wp (reason room []) Q w"
    if "\<And>t. tracks (w_log w) w (p_token p) (\<lambda>x. x) (\<lambda>_ n. n) t \<Longrightarrow> the_arena (p_arena p) t = Some a \<Longrightarrow> Q () t"
    for Q
  proof (rule sees_reason [OF sees_start])
    fix t s
    assume t: "sees Map.empty (\<lambda>_. True) (w_log w) (world.more (upd_why s w)) t"
    with assms(2) have "the_arena (p_arena p) t = Some a"
      by (simp add: the_arena_def sees_reg [OF t] upd_why_def)
    with tracksI [OF t] show "Q () t" by (intro that) simp_all
  qed
  have lookup: "wp (lookup token) Q w" if "Q (Some p) w" for Q
    using that assms(1) by (simp add: lookup_def the_pub_def)
  have arena: "wp (find_arena (p_arena p)) Q t" if "the_arena (p_arena p) t = Some a" "Q (Some a) t" for Q t
    using that by (simp add: find_arena_def the_arena_def)
  show ?thesis
    unfolding landin_publication_step_locked_def
    by (intro wp_seq lookup start) (simp, intro wp_seq arena, assumption, simp only: option.case, rule body)
qed

end
