(* ===== verification/PublicationSafety.thy ===== *)
theory PublicationSafety
  imports PublicationMachine
begin

text \<open>
  The invariant of the publication registry, kept by opening and by every step under every
  interleaving and every failure: tokens and arena numbers are distinct, every publication is in
  a sound phase and has its arena, and an arena counts at least its unfinished publications. The
  registries a process can reach are an inductive relation; the properties of the machine follow
  for them.
\<close>

definition unfinished :: "nat \<Rightarrow> publication list \<Rightarrow> nat" where
  "unfinished k ps = length (filter (\<lambda>p. p_arena p = k \<and> \<not> p_finished p) ps)"

definition registry_ok :: "'z pub_world_scheme \<Rightarrow> bool" where
  "registry_ok w \<longleftrightarrow> distinct (map p_token (g_publications w))
     \<and> list_all (\<lambda>p. p_token p < g_next_token w \<and> sound (phase_of p) \<and> the_arena (p_arena p) w \<noteq> None)
         (g_publications w)
     \<and> distinct (map ar_id (g_arenas w))
     \<and> list_all (\<lambda>a. ar_id a < g_next_id w \<and> unfinished (ar_id a) (g_publications w) \<le> ar_refs a)
         (g_arenas w)"

lemma count_update:
  assumes "distinct (map p_token ps)" and "p \<in> set ps" and "\<forall>q. p_token (f q) = p_token q"
  shows "length (filter U (map (\<lambda>q. if p_token q = p_token p then f q else q) ps)) + (if U p then 1 else 0)
    = length (filter U ps) + (if U (f p) then 1 else 0)"
  using assms(1,2)
proof (induction ps)
  case (Cons q ps)
  show ?case
  proof (cases "q = p")
    case True
    with Cons.prems(1) have "p_token r \<noteq> p_token p" if "r \<in> set ps" for r
      using that by (auto simp: image_iff)
    then have "map (\<lambda>q. if p_token q = p_token p then f q else q) ps = ps"
      by (auto intro: map_idI)
    with True show ?thesis by simp
  next
    case False
    with Cons show ?thesis by (auto simp: image_iff split: if_splits)
  qed
qed simp

lemma the_pub_in: "the_pub k w = Some p \<Longrightarrow> p \<in> set (g_publications w) \<and> p_token p = k"
  by (auto simp: the_pub_def dest: find_SomeD)

lemma the_arena_in: "the_arena k w = Some a \<Longrightarrow> a \<in> set (g_arenas w) \<and> ar_id a = k"
  by (auto simp: the_arena_def dest: find_SomeD)

lemma find_distinct:
  "distinct (map key xs) \<Longrightarrow> x \<in> set xs \<Longrightarrow> find (\<lambda>y. key y = key x) xs = Some x"
  by (induction xs) (auto simp: image_iff)

lemma the_pub_of: "distinct (map p_token (g_publications w)) \<Longrightarrow> p \<in> set (g_publications w) \<Longrightarrow>
    the_pub (p_token p) w = Some p"
  by (simp add: the_pub_def find_distinct)

lemma registry_more:
  assumes "world.more t = world.more v"
  shows "registry_ok t = registry_ok v" "the_pub k t = the_pub k v" "the_arena k t = the_arena k v"
  using more_pub [OF assms] by (simp_all add: registry_ok_def the_arena_def the_pub_def)

lemma registry_tracks:
  assumes ok: "registry_ok v" and p: "the_pub tok v = Some p" and t: "tracks L v tok ph ae t"
    and sound: "sound (ph (phase_of p))" and count: "ae = (\<lambda>_ n. n) \<and> (x_finished (ph (phase_of p)) \<longleftrightarrow> p_finished p)
      \<or> \<not> p_finished p \<and> counted p ph ae"
  shows "registry_ok t"
proof -
  obtain v' f h where v': "tracked L v tok ph ae t v' f h" using t by (auto simp: tracks_def)
  let ?g = "\<lambda>q. if p_token q = tok then f q else q"
  have pubs: "g_publications t = map ?g (g_publications v)" and arenas: "g_arenas t = map h (g_arenas v)"
    and f: "\<forall>q. same_place (f q) q \<and> phase_of (f q) = ph (phase_of q)"
    and h: "\<forall>b. ar_id (h b) = ar_id b \<and> ar_refs (h b) = ae (ar_id b) (ar_refs b)"
    and next_: "g_next_token t = g_next_token v" "g_next_id t = g_next_id v"
    using v' by (auto simp: tracked_def sees_reg)
  from ok have dp: "distinct (map p_token (g_publications v))" and da: "distinct (map ar_id (g_arenas v))"
    and allp: "\<And>q. q \<in> set (g_publications v) \<Longrightarrow> p_token q < g_next_token v \<and> sound (phase_of q)
       \<and> the_arena (p_arena q) v \<noteq> None"
    and alla: "\<And>b. b \<in> set (g_arenas v) \<Longrightarrow> ar_id b < g_next_id v
       \<and> unfinished (ar_id b) (g_publications v) \<le> ar_refs b"
    by (auto simp: registry_ok_def list_all_iff)
  from the_pub_in [OF p] have pin: "p \<in> set (g_publications v)" and tok: "p_token p = tok" by auto
  have only: "q = p" if "q \<in> set (g_publications v)" "p_token q = tok" for q
    using the_pub_of [OF dp that(1)] that(2) p by simp
  have toks: "p_token \<circ> ?g = p_token" using f by (auto simp: same_place_def)
  have ids: "ar_id \<circ> h = ar_id" using h by auto
  have arena: "the_arena k t \<noteq> None \<longleftrightarrow> the_arena k v \<noteq> None" for k
    using tracks_arena(1) [OF t] by simp
  have fin: "p_finished (f p) \<longleftrightarrow> x_finished (ph (phase_of p))" and pa: "p_arena (f p) = p_arena p"
    using f by (auto simp: same_place_def) (metis phase_of_simps(8))+
  have cnt: "unfinished k (g_publications t) \<le> ae k n" if "unfinished k (g_publications v) \<le> n" for k n
  proof -
    let ?U = "\<lambda>q. p_arena q = k \<and> \<not> p_finished q"
    have "unfinished k (g_publications t) + (if ?U p then 1 else 0)
      = unfinished k (g_publications v) + (if ?U (f p) then 1 else 0)"
      using count_update [OF dp pin, of f ?U] f
      by (simp add: unfinished_def pubs tok same_place_def)
    with count that fin pa show ?thesis by (auto simp: counted_def split: if_splits)
  qed
  have item: "p_token (?g q) < g_next_token v \<and> sound (phase_of (?g q)) \<and> the_arena (p_arena (?g q)) t \<noteq> None"
    if "q \<in> set (g_publications v)" for q
  proof (cases "p_token q = tok")
    case True
    with only [OF that] f sound allp [OF that] arena show ?thesis by (auto simp: same_place_def)
  next
    case False
    with allp [OF that] arena show ?thesis by simp
  qed
  show ?thesis
    unfolding registry_ok_def
  proof (intro conjI)
    show "distinct (map p_token (g_publications t))" using dp toks by (simp add: pubs)
    show "distinct (map ar_id (g_arenas t))" using da ids by (simp add: arenas)
    show "list_all (\<lambda>p. p_token p < g_next_token t \<and> sound (phase_of p) \<and> the_arena (p_arena p) t \<noteq> None)
        (g_publications t)"
      unfolding list_all_iff pubs next_ set_map using item by blast
    show "list_all (\<lambda>a. ar_id a < g_next_id t \<and> unfinished (ar_id a) (g_publications t) \<le> ar_refs a)
        (g_arenas t)"
      using alla h cnt by (auto simp: list_all_iff arenas next_)
  qed
qed

lemma registry_drop:
  assumes "registry_ok v"
  shows "registry_ok (drop_arena k v)"
proof -
  have drop: "find (\<lambda>a. ar_id a = j) (filter (\<lambda>b. ar_id b \<noteq> k) as)
      = (if j = k then None else find (\<lambda>a. ar_id a = j) as)" for j as
    by (induction as) auto
  have arena: "the_arena j (drop_arena k v) = (if j = k then None else the_arena j v)" for j
    using drop [of j "g_arenas v"] by (simp add: the_arena_def drop_arena_def)
  have cnt: "j \<noteq> k \<Longrightarrow> unfinished j (filter (\<lambda>p. p_arena p \<noteq> k) ps) = unfinished j ps" for j ps
    by (induction ps) (auto simp: unfinished_def)
  from assms show ?thesis
    unfolding registry_ok_def list_all_iff
    by (auto simp: arena) (auto simp: drop_arena_def distinct_map_filter cnt)
qed

text \<open>What a step leaves in the registry.\<close>

lemma advance_finished_iff: "advance a s r s' \<Longrightarrow> a \<noteq> 4 \<Longrightarrow> x_finished s' = x_finished s"
  by (induction rule: advance.induct) auto

lemma registry_stepped:
  assumes "registry_ok w" and p: "the_pub token w = Some p" and "stepped action p L w r t"
  shows "registry_ok t"
proof -
  from assms(1) p have sound: "sound (phase_of p)"
    by (auto simp: registry_ok_def list_all_iff dest: the_pub_in)
  have tok: "the_pub (p_token p) w = Some p" using p find_pub_token by fastforce
  have settled: "registry_ok u" if u: "tracks L w (p_token p) ph ae u"
    and adv: "advance 4 (phase_of p) r' (ph (phase_of p))" and cnt: "counted p ph ae"
    and nf: "\<not> p_finished p" for u ph ae r'
    by (rule registry_tracks [OF assms(1) tok u])
      (use advance_sound [OF adv _ sound] nf cnt in simp_all)
  show ?thesis
  proof (cases "p_finished p")
    case True
    with assms(3) have "tracks L w (p_token p) (\<lambda>x. x) (\<lambda>_ n. n) t" by (simp add: stepped_def)
    from registry_tracks [OF assms(1) tok this sound] show ?thesis by simp
  next
    case nf: False
    show ?thesis
    proof (cases "action = 4")
      case False
      with nf assms(3) obtain ph where t: "tracks L w (p_token p) ph (\<lambda>_ n. n) t"
        and adv: "advance action (phase_of p) r (ph (phase_of p))"
        by (auto simp: stepped_def follows_def)
      from advance_sound [OF adv _ sound] advance_finished_iff [OF adv False] nf
      show ?thesis by (intro registry_tracks [OF assms(1) tok t]) simp_all
    next
      case True
      with nf assms(3) have "finishes p L w r t" by (simp add: stepped_def)
      then consider (kept) ph ae where "tracks L w (p_token p) ph ae t"
          "advance 4 (phase_of p) r (ph (phase_of p))" "counted p ph ae"
        | (gone) "retired p L w t"
        by (auto simp: finishes_def)
      then show ?thesis
      proof cases
        case kept
        with nf show ?thesis by (intro settled)
      next
        case gone
        then obtain u ph ae where u: "tracks L w (p_token p) ph ae u"
            "advance 4 (phase_of p) 0 (ph (phase_of p))" "counted p ph ae"
            and t: "world.more t = world.more (drop_arena (p_arena p) u)"
          by (auto simp: retired_def)
        from registry_drop [OF settled [OF u nf]] show ?thesis by (simp only: registry_more(1) [OF t])
      qed
    qed
  qed
qed

section \<open>Opening keeps the registry\<close>

text \<open>A registry with room for \<open>n\<close> more publications in the arena \<open>k\<close>.\<close>

definition room_in :: "nat \<Rightarrow> nat \<Rightarrow> 'z pub_world_scheme \<Rightarrow> bool" where
  "room_in k n w \<longleftrightarrow> registry_ok w
     \<and> (\<exists>a. the_arena k w = Some a \<and> unfinished k (g_publications w) + n \<le> ar_refs a)"

text \<open>Predicates of the registries alone.\<close>

definition of_registry :: "('z pub_world_scheme \<Rightarrow> bool) \<Rightarrow> bool" where
  "of_registry I \<longleftrightarrow> (\<forall>t v. world.more t = world.more v \<longrightarrow> I t = I v)"

lemma of_registry_ok [simp]: "of_registry registry_ok"
  unfolding of_registry_def using registry_more(1) by blast

lemma of_registry_room [simp]: "of_registry (room_in k n)"
  unfolding of_registry_def
proof (intro allI impI)
  fix t v :: "'a pub_world_scheme"
  assume e: "world.more t = world.more v"
  show "room_in k n t = room_in k n v"
    by (simp only: room_in_def registry_more [OF e] more_pub(3) [OF e])
qed

lemma inv_lift:
  assumes "I w" and "of_registry I"
    and "sees Map.empty (\<lambda>_. True) (w_log w) (world.more w) w \<Longrightarrow>
         wp m (\<lambda>r t. sees Map.empty (\<lambda>_. True) (w_log w) (world.more w) t) w"
    and "\<And>r t. I t \<Longrightarrow> Q r t"
  shows "wp m Q w"
proof (rule wp_weaken [OF assms(3) [OF sees_start]])
  fix r t
  assume "sees Map.empty (\<lambda>_. True) (w_log w) (world.more w) t"
  then have "world.more t = world.more w" by (simp add: sees_def)
  with assms(1,2) have "I t" unfolding of_registry_def by blast
  then show "Q r t" by (rule assms(4))
qed

text \<open>An invariant that the messages, the roots, the producer and retention marks of arenas and
  the fields of publications outside their phase do not matter to.\<close>

definition lenient :: "('z pub_world_scheme \<Rightarrow> bool) \<Rightarrow> bool" where
  "lenient I \<longleftrightarrow> of_registry I
     \<and> (\<forall>w s. I w \<longrightarrow> I (upd_why s w)) \<and> (\<forall>w f. I w \<longrightarrow> I (upd_roots f w))
     \<and> (\<forall>w. I w \<longrightarrow> I (w\<lparr>g_next_id := Suc (g_next_id w)\<rparr>))
     \<and> (\<forall>w. I w \<longrightarrow> I (w\<lparr>g_next_token := Suc (g_next_token w)\<rparr>))
     \<and> (\<forall>w k f. (\<forall>b. ar_id (f b) = ar_id b \<and> ar_refs b \<le> ar_refs (f b)) \<longrightarrow> I w \<longrightarrow> I (upd_arena k f w))
     \<and> (\<forall>w k f. (\<forall>q. same_place (f q) q \<and> phase_of (f q) = phase_of q) \<longrightarrow> I w \<longrightarrow> I (upd_pub k f w))"

lemma unfinished_map:
  assumes "\<forall>q. same_place (f q) q \<and> phase_of (f q) = phase_of q"
  shows "unfinished k (map (\<lambda>p. if p_token p = j then f p else p) ps) = unfinished k ps"
proof -
  have "p_arena (f q) = p_arena q \<and> p_finished (f q) = p_finished q" for q
    using assms by (metis phase_of_simps(8) same_place_def)
  then show ?thesis by (induction ps) (auto simp: unfinished_def)
qed

lemma the_arena_upd:
  assumes "\<forall>b. ar_id (f b) = ar_id b"
  shows "the_arena j (upd_arena k f w) = map_option (\<lambda>b. if ar_id b = k then f b else b) (the_arena j w)"
  unfolding the_arena_def upd_arena_def using assms by (simp add: find_map_id)

lemma lenient_registry [simp]: "lenient registry_ok"
  unfolding lenient_def
proof (intro conjI allI impI)
  fix w :: "'a pub_world_scheme" and k and f :: "arena \<Rightarrow> arena"
  assume f: "\<forall>b. ar_id (f b) = ar_id b \<and> ar_refs b \<le> ar_refs (f b)" and ok: "registry_ok w"
  have ids: "map ar_id (map (\<lambda>a. if ar_id a = k then f a else a) as) = map ar_id as" for as
    using f by (induction as) auto
  from ok f show "registry_ok (upd_arena k f w)"
    unfolding registry_ok_def list_all_iff
    by (auto simp: the_arena_upd) (auto simp: upd_arena_def ids simp del: map_map intro: le_trans [rotated])
next
  fix w :: "'a pub_world_scheme" and k and f :: "publication \<Rightarrow> publication"
  assume f: "\<forall>q. same_place (f q) q \<and> phase_of (f q) = phase_of q" and ok: "registry_ok w"
  have tok: "map p_token (map (\<lambda>a. if p_token a = k then f a else a) ps) = map p_token ps" for ps
    using f by (induction ps) (auto simp: same_place_def)
  have same: "the_arena j (upd_pub k f w) = the_arena j w" for j by (simp add: the_arena_def upd_pub_def)
  from ok f show "registry_ok (upd_pub k f w)"
    unfolding registry_ok_def list_all_iff same
    by (auto simp: upd_pub_def tok unfinished_map same_place_def simp del: map_map)
qed (auto simp: registry_ok_def list_all_iff the_arena_def upd_why_def upd_roots_def less_SucI)

lemma lenientD:
  assumes "lenient I"
  shows "of_registry I" "I w \<Longrightarrow> I (upd_why s w)" "I w \<Longrightarrow> I (upd_roots h w)"
    "I w \<Longrightarrow> I (w\<lparr>g_next_id := Suc (g_next_id w)\<rparr>)" "I w \<Longrightarrow> I (w\<lparr>g_next_token := Suc (g_next_token w)\<rparr>)"
    "(\<And>b. ar_id (f b) = ar_id b \<and> ar_refs b \<le> ar_refs (f b)) \<Longrightarrow> I w \<Longrightarrow> I (upd_arena k f w)"
    "(\<And>q. same_place (g q) q \<and> phase_of (g q) = phase_of q) \<Longrightarrow> I w \<Longrightarrow> I (upd_pub k g w)"
  using assms by (simp_all add: lenient_def)

lemma lenient_room [simp]: "lenient (room_in k n)"
  unfolding lenient_def
proof (intro conjI allI impI)
  fix w :: "'a pub_world_scheme" and j and f :: "arena \<Rightarrow> arena"
  assume f: "\<forall>b. ar_id (f b) = ar_id b \<and> ar_refs b \<le> ar_refs (f b)" and I: "room_in k n w"
  from I obtain a where a: "the_arena k w = Some a" "unfinished k (g_publications w) + n \<le> ar_refs a"
    by (auto simp: room_in_def)
  have "the_arena k (upd_arena j f w) = Some (if ar_id a = j then f a else a)"
    using f a(1) by (simp add: the_arena_upd)
  moreover have "unfinished k (g_publications (upd_arena j f w)) + n \<le> ar_refs (if ar_id a = j then f a else a)"
    using a(2) f by (auto simp: upd_arena_def intro: le_trans)
  ultimately show "room_in k n (upd_arena j f w)"
    using lenientD(6) [OF lenient_registry, of f w j] f I by (simp add: room_in_def)
next
  fix w :: "'a pub_world_scheme" and j and f :: "publication \<Rightarrow> publication"
  assume f: "\<forall>q. same_place (f q) q \<and> phase_of (f q) = phase_of q" and I: "room_in k n w"
  have "the_arena k (upd_pub j f w) = the_arena k w" by (simp add: the_arena_def upd_pub_def)
  moreover have "unfinished k (g_publications (upd_pub j f w)) = unfinished k (g_publications w)"
    using f by (simp add: upd_pub_def unfinished_map)
  ultimately show "room_in k n (upd_pub j f w)"
    using lenientD(7) [OF lenient_registry, of f w j] f I by (simp add: room_in_def)
qed (simp_all add: room_in_def lenientD [OF lenient_registry],
     auto simp: the_arena_def upd_why_def upd_roots_def)

named_theorems inv_rules \<open>operations that keep a lenient invariant\<close>

lemma inv_reason [inv_rules]:
  assumes "I w" and "lenient I" and "\<And>r t. I t \<Longrightarrow> Q r t"
  shows "wp (reason room msg) Q w"
proof (cases "room = 0")
  case False
  with lenientD(2) [OF assms(2,1)] show ?thesis
    by (simp add: reason_def assms(3) upd_why_def)
qed (simp add: reason_def assms)

lemma inv_update_arena [inv_rules]:
  assumes "I w" and "lenient I" and "\<And>b. ar_id (f b) = ar_id b \<and> ar_refs b \<le> ar_refs (f b)"
    and "\<And>r t. I t \<Longrightarrow> Q r t"
  shows "wp (update_arena k f) Q w"
  using assms(4) [OF lenientD(6) [OF assms(2,3,1)]] by (simp add: update_arena_def upd_arena_def)

lemma inv_update_publication [inv_rules]:
  assumes "I w" and "lenient I" and "\<And>q. same_place (f q) q \<and> phase_of (f q) = phase_of q"
    and "\<And>r t. I t \<Longrightarrow> Q r t"
  shows "wp (update_publication k f) Q w"
  using assms(4) [OF lenientD(7) [OF assms(2,3,1)]] by (simp add: update_publication_def upd_pub_def)

lemma inv_modify_roots [inv_rules]:
  assumes "I w" and "lenient I" and "\<And>r t. I t \<Longrightarrow> Q r t"
  shows "wp (modify (\<lambda>w. w\<lparr>g_roots := f (g_roots w)\<rparr>)) Q w"
  using assms(3) [OF lenientD(3) [OF assms(2,1), of f]] by (simp add: upd_roots_def)

lemma inv_find_arena [inv_rules]: "I w \<Longrightarrow> (\<And>r. Q r w) \<Longrightarrow> wp (find_arena k) Q w"
  by (simp add: find_arena_def)

lemma inv_quarantine [inv_rules]:
  assumes "I w" and "lenient I" and "\<And>r t. I t \<Longrightarrow> Q r t"
  shows "wp (quarantine k) Q w"
  unfolding quarantine_def using assms(1)
  by - (intro wp_intros inv_rules [where I = I] assms(3) | assumption | (simp add: assms(2); fail)
      | (rule inv_lift [where I = I], assumption, rule lenientD(1) [OF assms(2)],
          ((intro sees_rules | assumption | (simp; fail))+)[1]))+

lemma sees_arena_rooms [sees_rules]:
  assumes "sees F ok L M w" and "\<And>r t. sees F ok L M t \<Longrightarrow> Q r t"
    and "F root = None" and "\<And>d nm ob. ok (Made d nm ob)"
  shows "wp (arena_rooms root) Q w"
  unfolding arena_rooms_def using assms(1,3)
  by - (intro wp_intros sees_rules assms(2,4) | assumption | (simp; fail))+

lemma sees_seal_journal [sees_rules]:
  assumes "sees F ok L M w" and "\<And>r t. sees F ok L M t \<Longrightarrow> Q r t" and "\<And>e. ok e"
  shows "wp (seal_journal root building journal) Q w"
  unfolding seal_journal_def using assms(1)
  by - (intro wp_intros sees_rules assms(2,3) | assumption)+

lemma inv_prune_anchors [inv_rules]:
  assumes "I w" and "lenient I" and "\<And>r t. I t \<Longrightarrow> Q r t"
  shows "wp (prune_anchors) Q w"
  unfolding prune_anchors_def using assms(1)
  by - (intro wp_intros inv_rules [where I = I] assms(3)  | assumption | (simp add: assms(2); fail)
      | (rule inv_lift [where I = I], assumption, rule lenientD(1) [OF assms(2)],
          ((intro sees_rules | assumption | (simp; fail))+)[1]))+

lemma inv_release_anchor [inv_rules]:
  assumes "I w" and "lenient I" and "\<And>r t. I t \<Longrightarrow> Q r t"
  shows "wp (release_anchor p) Q w"
  unfolding release_anchor_def using assms(1)
  by - (intro wp_intros inv_rules [where I = I] assms(3)  | assumption | (simp add: assms(2) same_place_def phase_of_def; fail)
      | (rule inv_lift [where I = I], assumption, rule lenientD(1) [OF assms(2)],
          ((intro sees_rules | assumption | (simp; fail))+)[1]))+

lemma inv_new_root [inv_rules]:
  assumes "I w" and "lenient I" and "\<And>r t. I t \<Longrightarrow> Q r t"
  shows "wp (modify (\<lambda>x. x\<lparr>g_next_id := Suc (g_next_id w), g_roots := r # g_roots x\<rparr>)) Q w"
  using assms(3) [OF lenientD(3) [OF assms(2) lenientD(4) [OF assms(2,1)], of "\<lambda>rs. r # rs"]]
  by (simp add: upd_roots_def)

lemma inv_choose_anchor [inv_rules]:
  assumes "I w" and "lenient I" and "\<And>r t. I t \<Longrightarrow> Q r t"
  shows "wp (choose_anchor fd root) Q w"
  unfolding choose_anchor_def using assms(1)
  by - (intro wp_intros inv_rules [where I = I] assms(2,3) | assumption
      | (rule inv_lift [where I = I], assumption, rule lenientD(1) [OF assms(2)],
          ((intro sees_rules | assumption | (simp; fail))+)[1]))+

lemma inv_parent_below_root [inv_rules]:
  assumes "I w" and "lenient I" and "\<And>r t. I t \<Longrightarrow> Q r t"
  shows "wp (parent_below_root a r) Q w"
  unfolding parent_below_root_def Let_def using assms(1)
  by - (intro wp_intros inv_rules [where I = I] assms(3)  | assumption | (simp add: assms(2); fail)
      | (rule inv_lift [where I = I], assumption, rule lenientD(1) [OF assms(2)],
          ((intro sees_rules | assumption | (simp; fail))+)[1]))+

lemma inv_parent_done [inv_rules]:
  assumes "I w" and "lenient I" and "\<And>r t. I t \<Longrightarrow> Q r t"
  shows "wp (parent_done fd chosen) Q w"
  unfolding parent_done_def Let_def using assms(1)
  by - (intro wp_intros inv_rules [where I = I] assms(3)  | assumption | (simp add: assms(2); fail)
      | (rule inv_lift [where I = I], assumption, rule lenientD(1) [OF assms(2)],
          ((intro sees_rules | assumption | (simp; fail))+)[1]))+

lemma inv_select_parent [inv_rules]:
  assumes "I w" and "lenient I" and "\<And>r t. I t \<Longrightarrow> Q r t"
  shows "wp (select_parent path root absent) Q w"
  unfolding select_parent_def Let_def using assms(1)
  by - (intro wp_intros inv_rules [where I = I] assms(3)  | assumption | (simp add: assms(2); fail)
      | (rule inv_lift [where I = I], assumption, rule lenientD(1) [OF assms(2)],
          ((intro sees_rules | assumption | (simp; fail))+)[1]))+

lemma inv_parent_for [inv_rules]:
  assumes "I w" and "lenient I" and "\<And>r t. I t \<Longrightarrow> Q r t"
  shows "wp (parent_for path root absent) Q w"
  unfolding parent_for_def using assms(1)
  by - (intro wp_intros inv_rules [where I = I] assms(3)  | assumption | (simp add: assms(2); fail)
      | (rule inv_lift [where I = I], assumption, rule lenientD(1) [OF assms(2)],
          ((intro sees_rules | assumption | (simp; fail))+)[1]))+

lemma sees_reserved_by [sees_rules]:
  "sees F ok L M w \<Longrightarrow> (\<And>r t. sees F ok L M t \<Longrightarrow> Q r t) \<Longrightarrow> wp (reserved_by parent target i ps) Q w"
proof (induction ps arbitrary: w)
  case (Cons p ps)
  show ?case
    unfolding reserved_by.simps using Cons.prems(1)
    by - (intro wp_intros sees_rules Cons.IH Cons.prems(2) | assumption)+
qed simp

lemma inv_inspect_entry [inv_rules]:
  assumes "I w" and "lenient I" and "\<And>r t. I t \<Longrightarrow> Q r t"
  shows "wp (inspect_entry parent path target room name) Q w"
proof -
  have own: "wp (own_arena_name parent name) Q' t" if "I t" "\<And>r u. I u \<Longrightarrow> Q' r u" for t Q'
    unfolding own_arena_name_def using that(1)
    by - (intro wp_intros that(2) | assumption
        | (rule inv_lift [where I = I], assumption, rule lenientD(1) [OF assms(2)],
          ((intro sees_rules | assumption | (simp; fail))+)[1]))+
  have inspect: "wp (inspect_workspace parent target root rs) Q' t" if "I t" "\<And>r u. I u \<Longrightarrow> Q' r u" for t Q' root rs
    by (rule inv_lift [where I = I and w = t, OF that(1) lenientD(1) [OF assms(2)]])
      (rule sees_inspect_workspace, assumption, simp split: option.split, assumption, rule that(2))
  have records: "wp (workspace_records parent root name) Q' t" if "I t" "\<And>r u. I u \<Longrightarrow> Q' r u" for t Q' root
    by (rule inv_lift [where I = I and w = t, OF that(1) lenientD(1) [OF assms(2)]])
      (rule sees_workspace_records, assumption, assumption+, rule that(2))
  have sum: "wp (case x of Inl u \<Rightarrow> f u | Inr v \<Rightarrow> g v) Q' t" if "\<And>u. x = Inl u \<Longrightarrow> wp (f u) Q' t"
      "\<And>v. x = Inr v \<Longrightarrow> wp (g v) Q' t" for x :: "unit + (int \<times> cstring list) option" and f g Q' t
    using that by (cases x) auto
  show ?thesis
    unfolding inspect_entry_def using assms(1)
    by - (intro wp_intros inv_rules [where I = I] own inspect records sum assms(3) | assumption | (simp add: assms(2); fail)
      | (rule inv_lift [where I = I], assumption, rule lenientD(1) [OF assms(2)],
          ((intro sees_rules | assumption | (simp; fail))+)[1]))+

qed

lemma inv_inspect_parent [inv_rules]:
  "I w \<Longrightarrow> lenient I \<Longrightarrow> (\<And>r t. I t \<Longrightarrow> Q r t) \<Longrightarrow> wp (inspect_parent parent path target room ns) Q w"
proof (induction parent path target room ns arbitrary: w rule: inspect_parent.induct)
  case (1 parent path target room)
  note assms = "1.prems"
  show ?case
    unfolding inspect_parent.simps using assms(1)
    by - (intro wp_intros inv_rules [where I = I] assms(3) | assumption | (simp add: assms(2); fail)
      | (rule inv_lift [where I = I], assumption, rule lenientD(1) [OF assms(2)],
          ((intro sees_rules | assumption | (simp; fail))+)[1]))+

next
  case (2 parent path target room n ns)
  note assms = "2.prems"
  show ?case
    unfolding inspect_parent.simps using assms(1)
    by - (intro wp_intros inv_rules [where I = I] "2.IH" [OF _ _ assms(2,3)] assms(3) | assumption | (simp add: assms(2); fail)
      | (rule inv_lift [where I = I], assumption, rule lenientD(1) [OF assms(2)],
          ((intro sees_rules | assumption | (simp; fail))+)[1]))+

qed

lemma inv_retained_workspace [inv_rules]:
  assumes "I w" and "lenient I" and "\<And>r t. I t \<Longrightarrow> Q r t"
  shows "wp (retained_workspace parent path target room) Q w"
  unfolding retained_workspace_def using assms(1)
  by - (intro wp_intros inv_rules [where I = I] assms(3)  | assumption | (simp add: assms(2); fail)
      | (rule inv_lift [where I = I], assumption, rule lenientD(1) [OF assms(2)],
          ((intro sees_rules | assumption | (simp; fail))+)[1]))+

lemma inv_write_journal [inv_rules]:
  assumes "I w" and "lenient I" and "\<And>r t. I t \<Longrightarrow> Q r t"
  shows "wp (write_journal p) Q w"
  unfolding write_journal_def Let_def using assms(1)
  by - (intro wp_intros inv_rules [where I = I] assms(3)  | assumption | (simp add: assms(2); fail)
      | (rule inv_lift [where I = I], assumption, rule lenientD(1) [OF assms(2)],
          ((intro sees_rules | assumption | (simp; fail))+)[1]))+

lemma inv_open_fail [inv_rules]:
  assumes "I w" and "lenient I" and "\<And>r t. I t \<Longrightarrow> Q r t"
  shows "wp (open_fail p k fd parent conflict path room) Q w"
  unfolding open_fail_def using assms(1)
  by - (intro wp_intros inv_rules [where I = I] assms(3)  | assumption | (simp add: assms(2); fail)
      | (rule inv_lift [where I = I], assumption, rule lenientD(1) [OF assms(2)],
          ((intro sees_rules | assumption | (simp; fail))+)[1]))+

text \<open>Taking a place in an arena, new or shared.\<close>

lemma room_new_arena:
  assumes "registry_ok w" and "ar_id a = g_next_id w" and "ar_refs a = 1"
  shows "room_in (g_next_id w) 1 (w\<lparr>g_next_id := Suc (g_next_id w), g_arenas := a # g_arenas w\<rparr>)"
proof -
  let ?k = "g_next_id w"
  from assms(1) have arenas: "\<And>b. b \<in> set (g_arenas w) \<Longrightarrow> ar_id b < ?k"
    and pubs: "\<And>p. p \<in> set (g_publications w) \<Longrightarrow> the_arena (p_arena p) w \<noteq> None"
    by (auto simp: registry_ok_def list_all_iff)
  from arenas have new: "?k \<notin> ar_id ` set (g_arenas w)" by fastforce
  from arenas pubs have "p_arena p \<noteq> ?k" if "p \<in> set (g_publications w)" for p
    using that the_arena_in by fastforce
  then have none: "unfinished ?k (g_publications w) = 0"
    by (simp add: unfinished_def filter_empty_conv)
  with assms arenas pubs new show ?thesis
    by (auto simp: room_in_def registry_ok_def list_all_iff the_arena_def less_SucI)
qed

lemma room_shared_arena:
  assumes "registry_ok w" and "a \<in> set (g_arenas w)"
  shows "room_in (ar_id a) 1 (upd_arena (ar_id a) (\<lambda>b. b\<lparr>ar_refs := ar_refs b + 1\<rparr>) w)"
proof -
  let ?f = "\<lambda>b. b\<lparr>ar_refs := ar_refs b + 1\<rparr>"
  have "registry_ok (upd_arena (ar_id a) ?f w)"
    using lenientD(6) [OF lenient_registry, of ?f w "ar_id a"] assms(1) by simp
  moreover have "the_arena (ar_id a) w = Some a"
    using assms find_distinct [of ar_id "g_arenas w" a] by (simp add: registry_ok_def the_arena_def)
  then have "the_arena (ar_id a) (upd_arena (ar_id a) ?f w) = Some (?f a)"
    by (simp add: the_arena_upd)
  moreover have "unfinished (ar_id a) (g_publications (upd_arena (ar_id a) ?f w)) \<le> ar_refs a"
    using assms by (auto simp: upd_arena_def registry_ok_def list_all_iff)
  ultimately show ?thesis by (simp add: room_in_def)
qed

lemma registry_arena_new:
  assumes "registry_ok w" and "\<And>t. registry_ok t \<Longrightarrow> Q None t" and "\<And>k t. room_in k 1 t \<Longrightarrow> Q (Some k) t"
  shows "wp (arena_new parent st path) Q w"
proof -
  have fin: "wp (modify (\<lambda>x. x\<lparr>g_next_id := Suc (g_next_id t), g_arenas := b # g_arenas x\<rparr>)) Q' t"
    if "registry_ok t" "ar_id b = g_next_id t \<and> ar_refs b = 1" "\<And>r u. room_in (g_next_id t) 1 u \<Longrightarrow> Q' r u" for b t Q'
    using room_new_arena [OF that(1)] that(2,3) by simp
  note lift = inv_lift [where I = registry_ok, OF _ of_registry_ok]
  show ?thesis
    unfolding arena_new_def using assms(1)
    by - (intro wp_intros fin assms(2,3) | assumption | (simp; fail)
      | (rule lift, assumption, ((intro sees_rules | assumption | (simp; fail))+)[1]))+
qed

lemma registry_arena_for:
  assumes "registry_ok w" and "\<And>t. registry_ok t \<Longrightarrow> Q None t" and "\<And>k t. room_in k 1 t \<Longrightarrow> Q (Some k) t"
  shows "wp (arena_for parent path) Q w"
proof -
  let ?f = "\<lambda>b. b\<lparr>ar_refs := ar_refs b + 1\<rparr>"
  have reg: "of_registry (\<lambda>u. registry_ok u \<and> a \<in> set (g_arenas u))" for a
    unfolding of_registry_def using registry_more(1) more_pub(2) by metis
  have closing: "wp (close_fd parent) Q' t"
    if "registry_ok t" "a \<in> set (g_arenas t)" "\<And>r u. registry_ok u \<and> a \<in> set (g_arenas u) \<Longrightarrow> Q' r u" for a t Q'
    by (rule inv_lift [OF _ reg [of a]]) (use that in \<open>auto intro: sees_close_fd\<close>)
  have adding: "wp (update_arena (ar_id a) ?f) Q' t"
    if "registry_ok t \<and> a \<in> set (g_arenas t)" "\<And>r u. room_in (ar_id a) 1 u \<Longrightarrow> Q' r u" for a t Q'
    using room_shared_arena [of t a] that by (simp add: update_arena_def upd_arena_def)
  note lift = inv_lift [where I = registry_ok, OF _ of_registry_ok]
  show ?thesis
    unfolding arena_for_def using assms(1)
    by - (intro wp_intros adding registry_arena_new assms(2,3) | assumption
      | (rule closing, assumption, blast dest: find_SomeD)
      | (rule lift, assumption, ((intro sees_rules | assumption | (simp; fail))+)[1]))+
qed

text \<open>The record of a new publication, and its registration.\<close>

lemma wp_any: "(\<And>r t. Q r t) \<Longrightarrow> wp m Q w"
  by (simp add: wp_def split: prod.split)

definition pristine :: "publication \<Rightarrow> bool" where
  "pristine p \<longleftrightarrow> \<not> p_captured p \<and> \<not> p_installed p \<and> \<not> p_unchanged p \<and> \<not> p_finished p
     \<and> \<not> p_rollback_pending p \<and> \<not> p_capture_valid p \<and> \<not> p_finish_failed p"

lemma pristine_sound: "pristine p \<Longrightarrow> sound (phase_of p) \<and> \<not> p_finished p"
  by (simp add: pristine_def sound_def)

lemma pristine_zero: "pristine (publication_zero\<lparr>p_path := a, p_name := b, p_anchor := c\<rparr>)"
  by (simp add: pristine_def publication_zero_def)

lemma pristine_observed:
  assumes "pristine p"
  shows "wp (observe_expected p parent absent) (\<lambda>x t. pristine (snd (snd (snd x)))) w"
  unfolding observe_expected_def Let_def using assms
  by - (intro wp_intros | (simp add: pristine_def; fail) | rule wp_any)+

lemma journal_keeps:
  "wp (write_journal p) (\<lambda>x t. p_token (snd x) = p_token p \<and> p_arena (snd x) = p_arena p
     \<and> (pristine (snd x) \<longleftrightarrow> pristine p)) w"
  unfolding write_journal_def Let_def
  by - (intro wp_intros | (simp add: pristine_def split: option.split; fail) | rule wp_any)+

definition named_in :: "nat \<Rightarrow> nat \<Rightarrow> 'z pub_world_scheme \<Rightarrow> bool" where
  "named_in k token w \<longleftrightarrow> room_in k 1 w \<and> token < g_next_token w \<and> token \<notin> p_token ` set (g_publications w)"

lemma of_registry_named [simp]: "of_registry (named_in k token)"
  unfolding of_registry_def
proof (intro allI impI)
  fix t v :: "'a pub_world_scheme"
  assume e: "world.more t = world.more v"
  have "room_in k 1 t = room_in k 1 v" using of_registry_room e unfolding of_registry_def by blast
  then show "named_in k token t = named_in k token v"
    by (simp only: named_in_def more_pub [OF e])
qed

lemma lenient_named [simp]: "lenient (named_in k token)"
  unfolding lenient_def
proof (intro conjI allI impI of_registry_named)
  fix w :: "'a pub_world_scheme" and j and f :: "publication \<Rightarrow> publication"
  assume f: "\<forall>q. same_place (f q) q \<and> phase_of (f q) = phase_of q" and I: "named_in k token w"
  have "map p_token (g_publications (upd_pub j f w)) = map p_token (g_publications w)"
    using f by (auto simp: upd_pub_def same_place_def)
  then have "p_token ` set (g_publications (upd_pub j f w)) = p_token ` set (g_publications w)"
    by (metis list.set_map)
  moreover have "room_in k 1 (upd_pub j f w)"
    using lenientD(7) [OF lenient_room, of f k 1 w j] f I by (simp add: named_in_def)
  ultimately show "named_in k token (upd_pub j f w)"
    using I by (simp add: named_in_def) (simp add: upd_pub_def)
next
  fix w :: "'a pub_world_scheme" and j and f :: "arena \<Rightarrow> arena"
  assume f: "\<forall>b. ar_id (f b) = ar_id b \<and> ar_refs b \<le> ar_refs (f b)" and I: "named_in k token w"
  have "room_in k 1 (upd_arena j f w)"
    using lenientD(6) [OF lenient_room, of f k 1 w j] f I by (simp add: named_in_def)
  then show "named_in k token (upd_arena j f w)"
    using I by (simp add: named_in_def) (simp add: upd_arena_def)
qed (simp_all add: named_in_def lenientD [OF lenient_room] less_SucI, simp_all add: upd_why_def upd_roots_def)

lemma registry_push:
  assumes "named_in k token w" and "p_token p = token" and "p_arena p = k" and "pristine p"
  shows "registry_ok (w\<lparr>g_publications := p # g_publications w\<rparr>)"
proof -
  from assms(1) obtain a where ok: "registry_ok w" and a: "the_arena k w = Some a"
      "unfinished k (g_publications w) + 1 \<le> ar_refs a"
    by (auto simp: named_in_def room_in_def)
  have only: "b = a" if "b \<in> set (g_arenas w)" "ar_id b = k" for b
    using ok a(1) find_distinct [of ar_id "g_arenas w" b] that
    by (simp add: registry_ok_def the_arena_def)
  have "unfinished (ar_id b) (p # g_publications w) \<le> ar_refs b" if "b \<in> set (g_arenas w)" for b
    using that only [OF that] a(2) ok assms(3)
    by (cases "ar_id b = k") (auto simp: registry_ok_def list_all_iff unfinished_def)
  then show ?thesis
    using ok assms a(1) pristine_sound [OF assms(4)]
    by (auto simp: registry_ok_def list_all_iff named_in_def the_arena_def)
qed

lemma named_room: "named_in k token w \<Longrightarrow> room_in k 1 w"
  by (simp add: named_in_def)

lemma room_registry: "room_in k n w \<Longrightarrow> registry_ok w"
  by (simp add: room_in_def)

lemma registry_enter_arena:
  assumes "room_in k 1 w" and "pristine p" and "\<And>r t. registry_ok t \<Longrightarrow> Q r t"
  shows "wp (enter_arena p k deletion path stage_room room) Q w"
proof -
  have take: "wp (modify (\<lambda>w. w\<lparr>g_next_token := Suc (g_next_token t)\<rparr>)) Q' t"
    if "room_in k 1 t" "\<And>r u. named_in k (g_next_token t) u \<Longrightarrow> Q' r u" for t Q'
  proof -
    have "g_next_token t \<notin> p_token ` set (g_publications t)"
      using room_registry [OF that(1)] by (auto simp: registry_ok_def list_all_iff)
    then have "named_in k (g_next_token t) (t\<lparr>g_next_token := Suc (g_next_token t)\<rparr>)"
      using lenientD(5) [OF lenient_room that(1)] by (simp add: named_in_def)
    with that(2) show ?thesis by simp
  qed
  have failed: "wp (open_fail q (Some k) fd parent conflict path room) Q t" if "named_in k token t" for q fd parent conflict t token
    by (rule inv_open_fail [where I = registry_ok])
      (use named_room [OF that] room_registry in \<open>auto intro: assms(3)\<close>)
  have journal: "wp (write_journal q) Q' t"
    if "named_in k token t" "pristine q \<and> p_token q = token \<and> p_arena q = k"
      "\<And>x y u. named_in k token u \<Longrightarrow> pristine y \<and> p_token y = token \<and> p_arena y = k \<Longrightarrow> Q' (x, y) u"
    for q t token Q'
  proof -
    have "wp (write_journal q) (\<lambda>_ u. named_in k token u) t"
      by (rule inv_write_journal [where I = "named_in k token"]) (use that(1) in auto)
    from wp_conj [OF this journal_keeps] show ?thesis
      by (rule wp_weaken) (use that(2,3) in auto)
  qed
  have push: "wp (modify (\<lambda>w. w\<lparr>g_publications := q # g_publications w\<rparr>)) Q' t"
    if "named_in k token t" "pristine q \<and> p_token q = token \<and> p_arena q = k" "\<And>r u. registry_ok u \<Longrightarrow> Q' r u" for q t token Q'
    using registry_push [of k token t q] that by simp
  note lift = inv_lift [where I = "named_in k token" for token, OF _ of_registry_named]
    inv_lift [where I = "room_in k 1", OF _ of_registry_room]
  show ?thesis
    unfolding enter_arena_def Let_def using assms(1)
    by - (intro wp_intros take failed journal push inv_reason [where I = registry_ok] inv_find_arena assms(3)
        | assumption | (use assms(2) in \<open>simp add: pristine_def; fail\<close>)
        | (rule lift, assumption, ((intro sees_rules | assumption | (simp; fail))+)[1]))+
qed

lemma registry_open:
  assumes "registry_ok w"
  shows "wp (landin_publication_open_locked path flags root stage_room room) (\<lambda>_ t. registry_ok t) w"
proof -
  have failed: "wp (open_fail q None fd parent conflict path room) (\<lambda>_ t. registry_ok t) t"
    if "registry_ok t" for q fd parent conflict t
    by (rule inv_open_fail [where I = registry_ok, OF that]) simp_all
  have observe: "wp (observe_expected q parent absent) Q t"
    if "registry_ok t" "pristine q" "\<And>b c fd y u. registry_ok u \<Longrightarrow> pristine y \<Longrightarrow> Q (b, c, fd, y) u" for q parent absent t Q
  proof -
    have "wp (observe_expected q parent absent) (\<lambda>_ u. registry_ok u) t"
      by (rule inv_lift [where I = registry_ok, OF that(1) of_registry_ok]) (auto intro: sees_observe_expected)
    from wp_conj [OF this pristine_observed [OF that(2)]] show ?thesis
      by (rule wp_weaken) (auto intro: that(3) split: prod.split)
  qed
  note inv = inv_parent_for inv_retained_workspace inv_release_anchor inv_reason
  note rules = inv [where I = registry_ok, OF _ lenient_registry]
  show ?thesis
    unfolding landin_publication_open_locked_def Let_def using assms
    by - (intro wp_intros failed observe rules registry_arena_for registry_enter_arena pristine_zero
        | assumption | (simp; fail)
        | (rule inv_lift [where I = registry_ok, OF _ of_registry_ok], assumption,
            ((intro sees_rules | assumption | (simp; fail))+)[1]))+
qed

lemma registry_step:
  assumes "registry_ok w"
  shows "wp (landin_publication_step_locked token action paths ids room) (\<lambda>_ t. registry_ok t) w"
proof (cases "the_pub token w")
  case None
  have "wp (reason room []) (\<lambda>_. wp (ret (0 :: int)) (\<lambda>_. registry_ok)) w"
    by (rule inv_reason [where I = registry_ok, OF assms]) simp_all
  with None show ?thesis
    by (simp add: landin_publication_step_locked_def lookup_def the_pub_def)
next
  case (Some p)
  with assms obtain a where "the_arena (p_arena p) w = Some a"
    by (auto simp: registry_ok_def list_all_iff dest!: the_pub_in)
  from step_effect [OF Some this] registry_stepped [OF assms Some] show ?thesis
    by (rule wp_weaken)
qed

section \<open>Reachable registries\<close>

text \<open>
  The registry starts empty; the process opens publications and steps them in any order, with any
  arguments; between two calls everything outside the registries may change.
\<close>

inductive reachable :: "'z pub_world_scheme \<Rightarrow> bool" where
  start: "g_publications w = [] \<Longrightarrow> g_arenas w = [] \<Longrightarrow> reachable w"
| opened: "reachable w \<Longrightarrow>
    run_state (landin_publication_open_locked path flags root stage_room room) w = (r, t) \<Longrightarrow> reachable t"
| stepped: "reachable w \<Longrightarrow>
    run_state (landin_publication_step_locked token action paths ids room) w = (r, t) \<Longrightarrow> reachable t"
| outside: "reachable w \<Longrightarrow> world.more t = world.more w \<Longrightarrow> reachable t"

lemma reachable_ok: "reachable w \<Longrightarrow> registry_ok w"
proof (induction rule: reachable.induct)
  case (start w)
  then show ?case by (simp add: registry_ok_def)
next
  case (opened w path flags root stage_room room r t)
  from wpD [OF registry_open [OF opened.IH] opened.hyps(2)] show ?case .
next
  case (stepped w token action paths ids room r t)
  from wpD [OF registry_step [OF stepped.IH] stepped.hyps(2)] show ?case .
next
  case (outside w t)
  then show ?case by (simp only: registry_more(1) [OF outside.hyps(2)])
qed

end
