(* ===== verification/Samples.thy ===== *)
theory Samples
  imports PublicationSafety
begin

text \<open>
  A concrete host for the witnesses: the root directory holds the output \<^verbatim>\<open>out\<close> and an arena's
  workspace with its stage, its recovery directory and its journal; the stage holds the new
  \<^verbatim>\<open>out\<close>. The process runs alone, unless a schedule is given.
\<close>

definition sample_fs :: fs where
  "sample_fs = [
     ((1, 1), new_inode (Dir [(''out'', (1, 5)), (''.refine-publication-00'', (1, 2))]) 493 0 0),
     ((1, 2), new_inode (Dir [(''stage'', (1, 3)), (''recovery'', (1, 4)), (''destination-1'', (1, 6))]) 448 0 0),
     ((1, 3), new_inode (Dir [(''out'', (1, 7))]) 448 0 0),
     ((1, 4), new_inode (Dir []) 448 0 0),
     ((1, 5), new_inode (Reg ''old'') 420 0 0),
     ((1, 6), new_inode (Reg ''record'') 384 0 0),
     ((1, 7), new_inode (Reg ''new'') 420 0 0)]"

definition sample_desc :: "nat \<Rightarrow> desc" where
  "sample_desc n = \<lparr>d_obj = (1, n), d_pos = 0, d_read = True, d_write = False, d_cloexec = False\<rparr>"

definition sample_stat :: "nat \<Rightarrow> kind \<Rightarrow> stat" where
  "sample_stat n k = \<lparr>st_dev = 1, st_ino = n, st_kind = k, st_perm = 420, st_uid = 0, st_gid = 0,
     st_nlink = 1\<rparr>"

definition sample_arena :: arena where
  "sample_arena = \<lparr>ar_id = 1, ar_parent = 3, ar_private_fd = 4, ar_recovery_fd = 5, ar_root_fd = 6,
     ar_producer_fd = -1, ar_parent_id = sample_stat 1 KDir, ar_path = ''/.refine-publication-00/stage'',
     ar_name = ''.refine-publication-00'', ar_recovery_path = ''/.refine-publication-00/recovery'',
     ar_refs = 1, ar_retained = False\<rparr>"

definition sample_publication :: publication where
  "sample_publication = publication_zero\<lparr>p_token := 1, p_arena := 1, p_path := ''/out'', p_name := ''out'',
     p_stage := ''/.refine-publication-00/stage/out'', p_recovery := ''.previous-1'',
     p_rollback := Some ''.rollback-1'', p_expected := sample_stat 5 KReg, p_fresh := sample_stat 7 KReg,
     p_bytes := Some ''old'', p_journal := ''destination-1'', p_journal_id := sample_stat 6 KReg\<rparr>"

definition sample_world :: pub_world where
  "sample_world = \<lparr>w_fs = sample_fs,
     w_fds = [(3, sample_desc 1), (4, sample_desc 3), (5, sample_desc 4), (6, sample_desc 2)],
     w_errno = EOK, w_turns = [], w_cancel = 0, w_hook = None, w_log = [], w_host = Linux,
     w_root = (1, 1), w_cwd = ''/'', w_uid = 0, w_gid = 0, w_groups = [], w_pid = 7,
     w_volumes = (\<lambda>_. \<lparr>v_type = TMPFS, v_case = 1\<rparr>), w_tmpdir = None, w_nofile = 64,
     w_strerror = (\<lambda>_. ''error''), r_roots = [], r_reason = [], g_roots = [],
     g_arenas = [sample_arena], g_publications = [sample_publication], g_next_token = 2,
     g_next_id = 2, g_why = []\<rparr>"

definition empty_world :: pub_world where
  "empty_world = sample_world\<lparr>g_arenas := [], g_publications := [], g_next_token := 1\<rparr>"

lemma sample_registry: "registry_ok sample_world"
  by (simp add: registry_ok_def sample_world_def sample_arena_def sample_publication_def
      publication_zero_def the_arena_def unfinished_def sound_def)

lemma sample_pub: "the_pub 1 sample_world = Some sample_publication"
  by (simp add: the_pub_def sample_world_def sample_publication_def)

end
