(* ===== verification/PublicationClaims.thy ===== *)
theory PublicationClaims
  imports Samples
begin

text \<open>
  The properties of the publication registry and of its state machine: refinement of the abstract
  machine, isolation of the publications from each other, and the invariant of every reachable
  registry.
\<close>

section \<open>What a step leaves of each publication\<close>

lemma tracks_other_pub:
  assumes "tracks L v tok ph ae t" and "k \<noteq> tok"
  shows "the_pub k t = the_pub k v"
proof -
  obtain v' f h where v': "tracked L v tok ph ae t v' f h" using assms(1) by (auto simp: tracks_def)
  have "find (\<lambda>q. p_token q = k) (map (\<lambda>q. if p_token q = tok then f q else q) ps)
      = find (\<lambda>q. p_token q = k) ps" for ps
    using v' assms(2) by (induction ps) (auto simp: tracked_def same_place_def)
  with v' show ?thesis by (auto simp: the_pub_def tracked_def sees_reg)
qed

lemma find_filter_distinct:
  assumes "distinct (map key xs)" and "find (\<lambda>x. key x = k) xs = Some x"
  shows "find (\<lambda>x. key x = k) (filter P xs) = (if P x then Some x else None)"
  using assms by (induction xs) (auto simp: find_None_iff image_iff split: if_splits)

lemma the_pub_drop:
  assumes "registry_ok u" and "the_pub k u = Some q"
  shows "the_pub k (drop_arena a u) = (if p_arena q = a then None else Some q)"
  using assms find_filter_distinct [of p_token "g_publications u" k q "\<lambda>p. p_arena p \<noteq> a"]
  by (simp add: registry_ok_def the_pub_def drop_arena_def)

lemma retired_registry:
  assumes "registry_ok w" and p: "the_pub token w = Some p" and "\<not> p_finished p"
    and t: "tracks L w (p_token p) ph ae u" and adv: "advance 4 (phase_of p) r (ph (phase_of p))" and "counted p ph ae"
  shows "registry_ok u"
proof (rule registry_tracks [OF assms(1) _ t])
  from assms(1) p have "sound (phase_of p)"
    by (auto simp: registry_ok_def list_all_iff dest: the_pub_in)
  with advance_sound [OF adv] assms(3) show "sound (ph (phase_of p))" by simp
  show "the_pub (p_token p) w = Some p" using p find_pub_token by fastforce
qed (use assms(3,6) in simp)

lemma emptied_arena:
  assumes "registry_ok u" and "the_arena k u = Some b" and "ar_refs b = 0"
    and "q \<in> set (g_publications u)" and "p_arena q = k"
  shows "p_finished q"
proof -
  from assms(1,2) have "unfinished k (g_publications u) \<le> ar_refs b"
    using the_arena_in by (fastforce simp: registry_ok_def list_all_iff)
  with assms(3-5) show ?thesis by (auto simp: unfinished_def filter_empty_conv)
qed

lemma stepped_frame:
  assumes "registry_ok w" and p: "the_pub token w = Some p" and s: "stepped action p L w r t"
    and "k \<noteq> token" and q: "the_pub k w = Some q"
  shows "the_pub k t = Some q \<or> the_pub k t = None \<and> p_finished q \<and> action = 4 \<and> r = 0"
proof -
  have tok: "p_token p = token" using find_pub_token [OF p] .
  consider ph ae where "tracks L w (p_token p) ph ae t" | "\<not> p_finished p" "action = 4" "r = 0" "retired p L w t"
    using s by (auto simp: stepped_def follows_def finishes_def split: if_splits)
  then show ?thesis
  proof cases
    case 1
    with tracks_other_pub [OF 1] assms(4) q tok show ?thesis by simp
  next
    case 2
    then obtain u ph ae b where u: "tracks L w (p_token p) ph ae u"
        "advance 4 (phase_of p) 0 (ph (phase_of p))" "counted p ph ae"
      and b: "the_arena (p_arena p) u = Some b" "ar_refs b = 0"
      and t: "world.more t = world.more (drop_arena (p_arena p) u)"
      by (auto simp: retired_def)
    have ok: "registry_ok u" by (rule retired_registry [OF assms(1) p 2(1) u])
    have qu: "the_pub k u = Some q" using tracks_other_pub [OF u(1)] assms(4) q tok by simp
    have "the_pub k t = (if p_arena q = p_arena p then None else Some q)"
      unfolding registry_more(2) [OF t] by (rule the_pub_drop [OF ok qu])
    with emptied_arena [OF ok b] the_pub_in [OF qu] 2 show ?thesis by auto
  qed
qed

lemma stepped_own:
  assumes "registry_ok w" and p: "the_pub token w = Some p" and s: "stepped action p L w r t"
  shows "case the_pub token t of Some q \<Rightarrow> permitted action (phase_of p) r (phase_of q)
     | None \<Rightarrow> action = 4 \<and> r = 0 \<and> \<not> p_finished p"
proof -
  have tok: "p_token p = token" using find_pub_token [OF p] .
  consider (kept) ph ae where "tracks L w (p_token p) ph ae t" "permitted action (phase_of p) r (ph (phase_of p))"
    | (gone) "\<not> p_finished p" "action = 4" "r = 0" "retired p L w t"
    using s by (fastforce simp: stepped_def follows_def finishes_def permitted_def split: if_splits)
  then show ?thesis
  proof cases
    case kept
    from tracks_pub [OF kept(1)] p tok kept(2) show ?thesis by auto
  next
    case gone
    then obtain u ph ae where u: "tracks L w (p_token p) ph ae u"
        "advance 4 (phase_of p) 0 (ph (phase_of p))" "counted p ph ae"
      and t: "world.more t = world.more (drop_arena (p_arena p) u)"
      by (auto simp: retired_def)
    have ok: "registry_ok u" by (rule retired_registry [OF assms(1) p gone(1) u])
    obtain q where q: "the_pub token u = Some q" "p_arena q = p_arena p"
      using tracks_pub [OF u(1)] p tok by (auto simp: same_place_def)
    have "the_pub token t = None"
      unfolding registry_more(2) [OF t] using the_pub_drop [OF ok q(1)] q(2) by simp
    with gone show ?thesis by simp
  qed
qed

lemma step_result:
  assumes "registry_ok w" and "the_pub token w = Some p"
    and "run_state (landin_publication_step_locked token action paths ids room) w = (r, t)"
  shows "stepped action p (w_log w) w r t"
proof -
  from assms(1,2) obtain a where "the_arena (p_arena p) w = Some a"
    by (auto simp: registry_ok_def list_all_iff dest!: the_pub_in)
  from wpD [OF step_effect [OF assms(2) this] assms(3)] show ?thesis .
qed


section \<open>Properties\<close>

text \<open>
  C1. Refinement. Whatever the environment does and whichever calls fail, a step of a registered
  publication with any action and any arguments is a step of the abstract machine with the
  result the machine gives; the record only leaves the registry by a Finish that succeeds.
\<close>

theorem publication_step_refines:
  assumes "registry_ok w" and "the_pub token w = Some p"
    and "run_state (landin_publication_step_locked token action paths ids room) w = (r, t)"
  shows "case the_pub token t of Some q \<Rightarrow> permitted action (phase_of p) r (phase_of q)
     | None \<Rightarrow> action = 4 \<and> r = 0 \<and> \<not> p_finished p"
  by (rule stepped_own [OF assms(1,2) step_result [OF assms]])

lemma publication_step_refines_witness:
  "case run_state (landin_publication_step_locked 1 2 [] [] 100) sample_world of (r, t) \<Rightarrow>
     (case the_pub 1 t of Some q \<Rightarrow> permitted 2 (phase_of sample_publication) r (phase_of q)
      | None \<Rightarrow> (2 :: int) = 4 \<and> r = 0 \<and> \<not> p_finished sample_publication)"
  using publication_step_refines [OF sample_registry sample_pub surjective_pairing,
    of 2 "[]" "[]" 100] by (simp only: case_prod_beta)

text \<open>
  C5. Isolation. A step of one publication leaves the record of every other publication as it
  is; the only record it may drop is a finished one, and only when a Finish that succeeds
  retires the arena of both. An unfinished publication is never lost.
\<close>

theorem publication_step_isolated:
  assumes "registry_ok w" and "the_pub token w = Some p" and "k \<noteq> token" and "the_pub k w = Some q"
    and "run_state (landin_publication_step_locked token action paths ids room) w = (r, t)"
  shows "the_pub k t = Some q \<or> the_pub k t = None \<and> p_finished q \<and> action = 4 \<and> r = 0"
  by (rule stepped_frame [OF assms(1,2) step_result [OF assms(1,2,5)] assms(3,4)])

definition pair_world :: pub_world where
  "pair_world = sample_world\<lparr>g_publications := [sample_publication, sample_publication\<lparr>p_token := 2, p_name := ''map''\<rparr>],
     g_arenas := [sample_arena\<lparr>ar_refs := 2\<rparr>], g_next_token := 3\<rparr>"

lemma pair_registry: "registry_ok pair_world"
  by (simp add: registry_ok_def pair_world_def sample_world_def sample_arena_def sample_publication_def
      publication_zero_def the_arena_def unfinished_def sound_def)

lemma pair_pubs: "the_pub 1 pair_world = Some sample_publication"
    "the_pub 2 pair_world = Some (sample_publication\<lparr>p_token := 2, p_name := ''map''\<rparr>)"
  by (simp_all add: the_pub_def pair_world_def sample_publication_def)

lemma publication_step_isolated_witness:
  "case run_state (landin_publication_step_locked 1 4 [] [] 100) pair_world of (r, t) \<Rightarrow>
     the_pub 2 t = Some (sample_publication\<lparr>p_token := 2, p_name := ''map''\<rparr>)"
proof -
  have "\<not> p_finished (sample_publication\<lparr>p_token := 2, p_name := ''map''\<rparr>)"
    by (simp add: sample_publication_def publication_zero_def)
  with publication_step_isolated [OF pair_registry pair_pubs(1) _ pair_pubs(2) surjective_pairing,
      of 4 "[]" "[]" 100] show ?thesis
    by (auto simp: case_prod_beta)
qed

text \<open>
  C17. The invariant of the registry. After any sequence of openings and steps, with any
  arguments, interleaved with anything outside the registries, tokens and arena numbers are
  distinct and below the counters, every publication is in a sound phase (a valid capture had
  something to capture, a pending rollback is of an installed output, a deletion installs
  nothing, a finished publication holds no capture) and has its arena, and every arena counts
  at least its unfinished publications, so that it is not retired under one of them.
\<close>

theorem publication_registry_invariant:
  assumes "reachable w"
  shows "registry_ok w"
  by (rule reachable_ok [OF assms])

lemma publication_registry_invariant_witness:
  "registry_ok (snd (run_state (landin_publication_open_locked ''/out'' 0 [] 100 100) empty_world))"
proof -
  have "reachable empty_world" by (rule reachable.start) (simp_all add: empty_world_def)
  then have "reachable (snd (run_state (landin_publication_open_locked ''/out'' 0 [] 100 100) empty_world))"
    by (rule reachable.opened [OF _ surjective_pairing])
  then show ?thesis by (rule publication_registry_invariant)
qed

end
