(* ===== verification/TransferLoops.thy ===== *)
theory TransferLoops
  imports HostServices FormatReplace HostRules
begin

text \<open>
  The three loops that write everything: of the channel, of staged and private files, and the
  positioned one of the format replacement. The locale \<open>sender\<close> is the contract of the call they
  repeat; what a loop delivers is proved there once. For files the schedule may interrupt, shorten
  and fail any call, but other processes leave the file alone.
\<close>

section \<open>The contract\<close>

text \<open>A run of such a loop: a failed or partial call goes on, or gives up.\<close>

inductive sends :: "(bytes \<Rightarrow> 's \<Rightarrow> int \<times> 's) \<Rightarrow> bytes \<Rightarrow> 's \<Rightarrow> bool \<Rightarrow> 's \<Rightarrow> bool"
  for put :: "bytes \<Rightarrow> 's \<Rightarrow> int \<times> 's" where
  all: "sends put [] s True s"
| again: "put data s = (n, t) \<Longrightarrow> n < 0 \<Longrightarrow> sends put data t ok u \<Longrightarrow> sends put data s ok u"
| more: "put data s = (n, t) \<Longrightarrow> 0 \<le> n \<Longrightarrow> sends put (drop (nat n) data) t ok u \<Longrightarrow>
    sends put data s ok u"
| stop: "put data s = (n, t) \<Longrightarrow> n \<le> 0 \<Longrightarrow> sends put data s False t"

inductive_cases sends_NilE: "sends put [] s False t"

locale sender =
  fixes put :: "bytes \<Rightarrow> 's \<Rightarrow> int \<times> 's"
    and sent :: "'s \<Rightarrow> bytes"
    and good :: "'s \<Rightarrow> bool"
  assumes put_failed: "good s \<Longrightarrow> put data s = (n, t) \<Longrightarrow> n < 0 \<Longrightarrow> good t \<and> sent t = sent s"
    and put_some: "good s \<Longrightarrow> put data s = (n, t) \<Longrightarrow> 0 \<le> n \<Longrightarrow>
      good t \<and> nat n \<le> length data \<and> sent t = sent s @ take (nat n) data"
begin

lemma sends_prefix:
  "sends put data s ok t \<Longrightarrow> good s \<Longrightarrow>
   good t \<and> (\<exists>k \<le> length data. sent t = sent s @ take k data \<and> (ok \<longrightarrow> k = length data))"
proof (induction rule: sends.induct)
  case (all s)
  then show ?case by simp
next
  case (again data s n t ok u)
  with put_failed [OF again.prems again.hyps(1,2)] show ?case by simp
next
  case (more data s n t ok u)
  from put_some [OF more.prems more.hyps(1,2)]
  have t: "good t" "nat n \<le> length data" "sent t = sent s @ take (nat n) data" by auto
  with more.IH obtain k where k: "good u" "k \<le> length (drop (nat n) data)"
      "sent u = sent t @ take k (drop (nat n) data)" "ok \<longrightarrow> k = length (drop (nat n) data)" by auto
  have "take (nat n) data @ take k (drop (nat n) data) = take (nat n + k) data"
    by (simp add: take_add)
  with t k show ?case by (intro conjI exI [of _ "nat n + k"]) auto
next
  case (stop data s n t)
  show ?case
  proof (cases "n < 0")
    case True
    with put_failed [OF stop.prems stop.hyps(1)] show ?thesis by (intro conjI exI [of _ 0]) auto
  next
    case False
    with put_some [OF stop.prems stop.hyps(1)] stop.hyps(2) show ?thesis
      by (intro conjI exI [of _ 0]) auto
  qed
qed

lemma sends_all: "sends put data s True t \<Longrightarrow> good s \<Longrightarrow> good t \<and> sent t = sent s @ data"
  using sends_prefix by fastforce

end

section \<open>The channel\<close>

lemma channel_put:
  "sys_write_stream fd data c = (n, c') \<Longrightarrow>
   (if n < 0 then c_sent c' = c_sent c
    else nat n \<le> length data \<and> c_sent c' = (c_sent c)(fd := c_sent c fd @ take (nat n) data))"
  by (auto simp: sys_write_stream_def next_cturn_def short_write_def Let_def
      split: list.splits option.splits prod.splits)

interpretation channel: sender "sys_write_stream fd" "\<lambda>c. c_sent c fd" "\<lambda>c. \<forall>g. g \<noteq> fd \<longrightarrow> c_sent c g = S g"
  for fd :: int and S :: "int \<Rightarrow> bytes"
  by unfold_locales (auto dest!: channel_put)

lemma channel_write_sends:
  "channel_write_from fd data c = (r, c') \<Longrightarrow> (r = 0 \<or> r = -1) \<and> sends (sys_write_stream fd) data c (r = 0) c'"
proof (induction fd data c rule: channel_write_from.induct)
  case (1 fd data c)
  obtain n c1 where one: "sys_write_stream fd data c = (n, c1)" by fastforce
  consider "data = []" | "data \<noteq> []" "n < 0" "c_errno c1 = EINTR"
    | "data \<noteq> []" "n < 0" "c_errno c1 \<noteq> EINTR" | "data \<noteq> []" "0 \<le> n" by force
  then show ?case
  proof cases
    case 1
    with "1.prems" show ?thesis by (simp add: channel_write_from.simps sends.all)
  next
    case 2
    with "1.prems" one "1.IH" (1) [OF _ one [symmetric]] show ?thesis
      by (subst (asm) (1) channel_write_from.simps) (auto intro: sends.again)
  next
    case 3
    with "1.prems" one show ?thesis
      by (subst (asm) (1) channel_write_from.simps) (auto intro: sends.stop)
  next
    case 4
    with "1.prems" one "1.IH" (2) [OF _ one [symmetric]] show ?thesis
      by (subst (asm) (1) channel_write_from.simps) (auto intro: sends.more)
  qed
qed


section \<open>A file nobody else touches\<close>

text \<open>
  \<open>alone w\<close>: no other process and no test hook changes the file system. \<open>quiet F C N w\<close> says
  besides which objects the descriptors of \<open>F\<close> are open on, what the files of \<open>C\<close> contain, and
  which objects the names of \<open>N\<close> stand for.
\<close>

definition alone :: "'z world_scheme \<Rightarrow> bool" where
  "alone w \<longleftrightarrow> list_all (\<lambda>t. t_peer t = (\<lambda>f. f)) (w_turns w) \<and> w_hook w = None"

definition quiet :: "(int \<rightharpoonup> oid) \<Rightarrow> (oid \<rightharpoonup> bytes) \<Rightarrow> (oid \<times> cstring \<rightharpoonup> oid) \<Rightarrow> 'z world_scheme \<Rightarrow> bool" where
  "quiet F C N w \<longleftrightarrow> alone w \<and> F \<subseteq>\<^sub>m fd_objs w \<and> C \<subseteq>\<^sub>m content_of (w_fs w)
     \<and> N \<subseteq>\<^sub>m (\<lambda>(d, n). fs_lookup (w_fs w) d n)"

lemma alone_cong: "w_turns t = w_turns w \<Longrightarrow> w_hook t = w_hook w \<Longrightarrow> alone t \<longleftrightarrow> alone w"
  by (simp add: alone_def)

lemma alone_updates [simp]:
  "alone (w\<lparr>w_errno := e\<rparr>) \<longleftrightarrow> alone w" "alone (w\<lparr>w_fs := f\<rparr>) \<longleftrightarrow> alone w"
  "alone (w\<lparr>w_fds := ds\<rparr>) \<longleftrightarrow> alone w" "alone (w\<lparr>w_log := es\<rparr>) \<longleftrightarrow> alone w"
  "alone (log ev w) \<longleftrightarrow> alone w"
  by (simp_all add: alone_def log_def)

lemma alone_turn:
  assumes "alone w" and "next_turn w = (t, w1)"
  shows "alone w1 \<and> w_fs w1 = w_fs w \<and> w_fds w1 = w_fds w"
  using assms by (auto simp: alone_def next_turn_def split: list.splits)

lemma quiet_cong:
  assumes "w_turns t = w_turns w" and "w_hook t = w_hook w" and "w_fds t = w_fds w" and "w_fs t = w_fs w"
  shows "quiet F C N t \<longleftrightarrow> quiet F C N w"
  using assms by (simp add: quiet_def alone_def fd_objs_def)

lemma quiet_turn: "quiet F C N w \<Longrightarrow> next_turn w = (t, w1) \<Longrightarrow> quiet F C N w1"
  using alone_turn [of w t w1] by (simp add: quiet_def fd_objs_def)

lemma quiet_errno [simp]: "quiet F C N (w\<lparr>w_errno := e\<rparr>) \<longleftrightarrow> quiet F C N w"
  by (rule quiet_cong) simp_all

lemma quiet_alone: "quiet F C N w \<Longrightarrow> alone w"
  by (simp add: quiet_def)

lemma map_le_Some: "f \<subseteq>\<^sub>m g \<Longrightarrow> f x = Some y \<Longrightarrow> g x = Some y"
  unfolding map_le_def by (metis domI)

lemma quiet_fd:
  assumes "quiet F C N w" and "F fd = Some ob"
  shows "\<exists>ds. map_of (w_fds w) fd = Some ds \<and> d_obj ds = ob"
proof -
  have "fd_objs w fd = Some ob" using assms by (auto simp: quiet_def intro: map_le_Some)
  then show ?thesis by (auto simp: fd_objs_def)
qed

lemma quiet_content: "quiet F C N w \<Longrightarrow> C ob = Some b \<Longrightarrow> content_of (w_fs w) ob = Some b"
  by (auto simp: quiet_def intro: map_le_Some)

lemma quiet_name: "quiet F C N w \<Longrightarrow> N (d, n) = Some ob \<Longrightarrow> fs_lookup (w_fs w) d n = Some ob"
  unfolding quiet_def by (drule conjunct2, drule conjunct2, drule conjunct2, drule (1) map_le_Some) simp

text \<open>What a write does to the contents.\<close>

lemma content_write_obj:
  assumes "content_of f ob = Some b"
  shows "content_of (write_obj ob c f) x = (if x = ob then Some c else content_of f x)"
  using assms by (auto simp: content_of_def write_obj_def option.map_comp split: option.splits node.splits)

lemma dir_write_obj:
  assumes "content_of f ob = Some b"
  shows "dir_of (write_obj ob c f) = dir_of f"
  using assms
  by (auto simp: content_of_def dir_of_def write_obj_def fun_eq_iff split: option.splits node.splits)

lemma lookup_write_obj: "content_of f ob = Some b \<Longrightarrow> fs_lookup (write_obj ob c f) = fs_lookup f"
  by (simp add: fs_lookup_def dir_write_obj fun_eq_iff)

lemma take_splice:
  "off \<le> length b \<Longrightarrow> take (off + length x) (splice off x b) = take off b @ x"
  by (simp add: splice_def)

lemma splice_length: "off \<le> length b \<Longrightarrow> length (splice off x b) = max (length b) (off + length x)"
  by (auto simp: splice_def)

lemma drop_splice: "off \<le> length b \<Longrightarrow> drop (off + length x) (splice off x b) = drop (off + length x) b"
  by (simp add: splice_def)

text \<open>A positioned write: it fails without effect, or puts a part of the data at its place.\<close>

lemma pwrite_alone:
  assumes "alone w" and "run_state (sys_pwrite fd data off) w = (n, t)"
    and fd: "map_of (w_fds w) fd = Some ds" and b: "content_of (w_fs w) (d_obj ds) = Some b"
  shows "alone t \<and> w_fds t = w_fds w \<and>
    (n < 0 \<and> w_fs t = w_fs w \<or> 0 \<le> n \<and> nat n \<le> length data
      \<and> w_fs t = write_obj (d_obj ds) (splice off (take (nat n) data) b) (w_fs w))"
proof -
  obtain tn w1 where n: "next_turn w = (tn, w1)" by fastforce
  from alone_turn [OF assms(1) n] have w1: "alone w1" "w_fs w1 = w_fs w" "w_fds w1 = w_fds w" by auto
  from assms(2) n w1 fd b show ?thesis
    by (cases "t_fault tn")
      (auto simp: sys_pwrite_def call_def Let_def short_write_def log_def split: if_splits option.splits)
qed


section \<open>Positioned writes\<close>

text \<open>The loop's state is its position and the host; nothing but the file itself changes.\<close>

definition only_file :: "oid \<Rightarrow> fs \<Rightarrow> fs \<Rightarrow> bool" where
  "only_file ob f g \<longleftrightarrow> (\<forall>x. x \<noteq> ob \<longrightarrow> content_of g x = content_of f x) \<and> fs_lookup g = fs_lookup f"

definition pput :: "int \<Rightarrow> bytes \<Rightarrow> nat \<times> 'z world_scheme \<Rightarrow> int \<times> nat \<times> 'z world_scheme" where
  "pput fd data s = (case s of (at, w) \<Rightarrow> (case run_state (sys_pwrite fd data at) w of
     (n, t) \<Rightarrow> (n, at + nat n, t)))"

definition psent :: "oid \<Rightarrow> nat \<times> 'z world_scheme \<Rightarrow> bytes" where
  "psent ob s = (case s of (at, w) \<Rightarrow> (case content_of (w_fs w) ob of None \<Rightarrow> [] | Some b \<Rightarrow> take at b))"

definition pgood :: "int \<Rightarrow> desc \<Rightarrow> bytes \<Rightarrow> 'z world_scheme \<Rightarrow> nat \<times> 'z world_scheme \<Rightarrow> bool" where
  "pgood fd ds b0 w0 s \<longleftrightarrow> (case s of (at, w) \<Rightarrow> alone w \<and> map_of (w_fds w) fd = Some ds
     \<and> w_fds w = w_fds w0 \<and> only_file (d_obj ds) (w_fs w0) (w_fs w)
     \<and> (\<exists>b. content_of (w_fs w) (d_obj ds) = Some b \<and> at \<le> length b \<and> drop at b = drop at b0))"

lemma pput_step:
  assumes "pgood fd ds b0 w0 s" and "pput fd data s = (n, t)"
  shows "pgood fd ds b0 w0 t \<and> psent (d_obj ds) t = psent (d_obj ds) s @ take (nat n) data
    \<and> nat n \<le> length data"
proof -
  obtain at w u where s: "s = (at, w)" and u: "run_state (sys_pwrite fd data at) w = (n, u)"
      and t: "t = (at + nat n, u)"
    using assms(2) by (cases s) (auto simp: pput_def split: prod.splits)
  from assms(1) s obtain b where w: "alone w" "map_of (w_fds w) fd = Some ds" "w_fds w = w_fds w0"
      "only_file (d_obj ds) (w_fs w0) (w_fs w)"
    and b: "content_of (w_fs w) (d_obj ds) = Some b" "at \<le> length b" "drop at b = drop at b0"
    by (auto simp: pgood_def)
  from pwrite_alone [OF w(1) u w(2) b(1)] have a: "alone u" "w_fds u = w_fds w" by auto
  consider (failed) "n < 0" "w_fs u = w_fs w"
    | (wrote) "0 \<le> n" "nat n \<le> length data"
        "w_fs u = write_obj (d_obj ds) (Host.splice at (take (nat n) data) b) (w_fs w)"
    using pwrite_alone [OF w(1) u w(2) b(1)] by auto
  then show ?thesis
  proof cases
    case failed
    with a w b s t show ?thesis by (auto simp: pgood_def psent_def)
  next
    case wrote
    let ?c = "Host.splice at (take (nat n) data) b"
    have len: "length (take (nat n) data) = nat n" using wrote(2) by simp
    have "drop (at + nat n) ?c = drop (at + nat n) b"
      using drop_splice [OF b(2), of "take (nat n) data"] len by simp
    also have "\<dots> = drop (at + nat n) b0" using b(3) by (metis add.commute drop_drop)
    finally have d: "drop (at + nat n) ?c = drop (at + nat n) b0" .
    have k: "take (at + nat n) ?c = take at b @ take (nat n) data"
      using take_splice [OF b(2), of "take (nat n) data"] len by simp
    have l: "at + nat n \<le> length ?c" using splice_length [OF b(2), of "take (nat n) data"] len by simp
    have c: "content_of (w_fs u) x = (if x = d_obj ds then Some ?c else content_of (w_fs w) x)" for x
      unfolding wrote(3) by (rule content_write_obj [OF b(1)])
    have "fs_lookup (w_fs u) = fs_lookup (w_fs w)"
      unfolding wrote(3) by (rule lookup_write_obj [OF b(1)])
    with a w b s t c d k l wrote(2) show ?thesis
      by (simp add: pgood_def psent_def only_file_def)
  qed
qed

interpretation placed: sender "pput fd" "psent (d_obj ds)" "pgood fd ds b0 w0"
  for fd :: int and ds :: desc and b0 :: bytes and w0 :: "'z world_scheme"
  by unfold_locales (auto dest: pput_step)

lemma write_all_from_sends:
  "write_all_from fd data at w = (r, t) \<Longrightarrow> (r = 0 \<or> r = -1) \<and>
   (\<exists>at' u. sends (pput fd) data (at, w) (r = 0) (at', u)
      \<and> (t = u \<or> r = -1 \<and> t = u\<lparr>w_errno := EIO\<rparr>))"
proof (induction fd data at w rule: write_all_from.induct)
  case (1 fd data at w)
  obtain n w1 where one: "run_state (sys_pwrite fd data at) w = (n, w1)" by fastforce
  then have put: "pput fd data (at, w) = (n, at + nat n, w1)" by (simp add: pput_def)
  consider "data = []" | "data \<noteq> []" "n < 0" "w_errno w1 = EINTR"
    | "data \<noteq> []" "n < 0" "w_errno w1 \<noteq> EINTR" | "data \<noteq> []" "n = 0" | "data \<noteq> []" "0 < n" by force
  then show ?case
  proof cases
    case 1
    with "1.prems" show ?thesis by (auto simp: write_all_from.simps intro: sends.all)
  next
    case 2
    with "1.prems" one have r: "write_all_from fd data at w1 = (r, t)"
      by (subst (asm) (1) write_all_from.simps) simp
    from "1.IH" (1) [OF 2(1) one [symmetric] _ r] 2 obtain at' u where u: "r = 0 \<or> r = -1"
      "sends (pput fd) data (at, w1) (r = 0) (at', u)" "t = u \<or> r = -1 \<and> t = u\<lparr>w_errno := EIO\<rparr>" by blast
    have "sends (pput fd) data (at, w) (r = 0) (at', u)"
      by (rule sends.again [of "pput fd", OF put 2(2)]) (use u(2) 2(2) in simp)
    with u(1,3) show ?thesis by blast
  next
    case 3
    with "1.prems" one have "r = -1" "t = w1" by (subst (asm) (1) write_all_from.simps; simp)+
    then show ?thesis using sends.stop [of "pput fd", OF put] 3(2) by auto
  next
    case 4
    with "1.prems" one have "r = -1" "t = w1\<lparr>w_errno := EIO\<rparr>"
      by (subst (asm) (1) write_all_from.simps; simp)+
    then show ?thesis using sends.stop [of "pput fd", OF put] 4(2) by auto
  next
    case 5
    with "1.prems" one have r: "write_all_from fd (drop (nat n) data) (at + nat n) w1 = (r, t)"
      by (subst (asm) (1) write_all_from.simps) simp
    from "1.IH" (2) [OF 5(1) one [symmetric] _ _ _ r] 5 obtain at' u where u: "r = 0 \<or> r = -1"
      "sends (pput fd) (drop (nat n) data) (at + nat n, w1) (r = 0) (at', u)"
      "t = u \<or> r = -1 \<and> t = u\<lparr>w_errno := EIO\<rparr>" by force
    have "sends (pput fd) data (at, w) (r = 0) (at', u)"
      by (rule sends.more [of "pput fd", OF put _ u(2)]) (use 5(2) in simp)
    with u(1,3) show ?thesis by blast
  qed
qed

lemma quiet_change_objs:
  assumes "quiet F C N w" and "alone t" and "fd_objs t = fd_objs w" and "only_file ob (w_fs w) (w_fs t)"
    and "content_of (w_fs t) ob = Some b"
  shows "quiet F (C(ob \<mapsto> b)) N t"
proof -
  have "C(ob \<mapsto> b) \<subseteq>\<^sub>m content_of (w_fs t)"
    unfolding map_le_def using assms(1,4,5) by (auto simp: quiet_def only_file_def dest: map_le_Some)
  with assms show ?thesis by (simp add: quiet_def only_file_def)
qed

lemma quiet_change:
  assumes "quiet F C N w" and "alone t" and "w_fds t = w_fds w" and "only_file ob (w_fs w) (w_fs t)"
    and "content_of (w_fs t) ob = Some b"
  shows "quiet F (C(ob \<mapsto> b)) N t"
  using assms by (auto intro: quiet_change_objs simp: fd_objs_def)

text \<open>Writing everything from the start of a file: all of it stands there, or a prefix of it.\<close>

lemma quiet_write_all:
  assumes q: "quiet F C N w" and F: "F fd = Some ob" and C: "C ob = Some b"
    and failed: "\<And>t k. k \<le> length data \<Longrightarrow>
      quiet F (C(ob \<mapsto> take k data @ drop k b)) N t \<Longrightarrow> Q (-1) t"
    and wrote: "\<And>t. quiet F (C(ob \<mapsto> data @ drop (length data) b)) N t \<Longrightarrow> Q 0 t"
  shows "wp (write_all fd data) Q w"
proof (rule wpI)
  fix r t
  assume "run_state (write_all fd data) w = (r, t)"
  then have "write_all_from fd data 0 w = (r, t)" by (simp add: write_all_def)
  from write_all_from_sends [OF this] obtain at' u where r: "r = 0 \<or> r = -1"
    and s: "sends (pput fd) data (0, w) (r = 0) (at', u)" and t: "t = u \<or> t = u\<lparr>w_errno := EIO\<rparr>" by auto
  obtain ds where ds: "map_of (w_fds w) fd = Some ds" "d_obj ds = ob" using quiet_fd [OF q F] by auto
  have b: "content_of (w_fs w) ob = Some b" by (rule quiet_content [OF q C])
  have g: "pgood fd ds b w (0, w)"
    using ds b quiet_alone [OF q] by (simp add: pgood_def only_file_def)
  from placed.sends_prefix [OF s g] obtain k where u: "pgood fd ds b w (at', u)"
    and k: "k \<le> length data" "r = 0 \<longrightarrow> k = length data" "psent ob (at', u) = take k data"
    using ds(2) by (auto simp: psent_def [of ob "(0, w)"] split: option.splits)
  from u ds(2) obtain c where au: "alone u" "w_fds u = w_fds w" "only_file ob (w_fs w) (w_fs u)"
    and c: "content_of (w_fs u) ob = Some c" "at' \<le> length c" "drop at' c = drop at' b"
    by (auto simp: pgood_def)
  have at': "take at' c = take k data" using k(3) c by (simp add: psent_def)
  then have "length (take at' c) = length (take k data)" by simp
  with c(2) k(1) have "at' = k" by simp
  then have "c = take k data @ drop k b" using at' c(3) by (metis append_take_drop_id)
  with quiet_change [OF q au c(1)] t have "quiet F (C(ob \<mapsto> take k data @ drop k b)) N t" by auto
  with r k failed wrote show "Q r t" by auto
qed


section \<open>Reading everything\<close>

lemma pread_alone:
  assumes "alone w" and "run_state (sys_pread fd n off) w = (r, t)"
    and fd: "map_of (w_fds w) fd = Some ds" and b: "content_of (w_fs w) (d_obj ds) = Some b"
  shows "alone t \<and> w_fds t = w_fds w \<and> w_fs t = w_fs w
    \<and> (\<forall>got. r = Some got \<longrightarrow> (\<exists>k \<le> n. got = take k (drop off b) \<and> (0 < n \<longrightarrow> 0 < k)))"
proof -
  obtain tn w1 where n: "next_turn w = (tn, w1)" by fastforce
  from alone_turn [OF assms(1) n] have w1: "alone w1" "w_fs w1 = w_fs w" "w_fds w1 = w_fds w" by auto
  have node: "map_option i_node (map_of (w_fs w) (d_obj ds)) = Some (Reg b)"
    using b by (auto simp: content_of_def split: option.splits node.splits)
  have "short_read a n \<le> n \<and> (0 < n \<longrightarrow> 0 < short_read a n)" for a
    by (auto simp: short_read_def split: option.splits)
  with assms(2) n w1 fd node show ?thesis
    by (cases "t_fault tn") (auto simp: sys_pread_def call_def fd_obj_def)
qed

lemma alloc_alone:
  assumes "alone w" and "run_state (if c then alloc else ret True) w = (r, t)"
  shows "alone t \<and> w_fds t = w_fds w \<and> w_fs t = w_fs w"
proof -
  obtain tn w1 where n: "next_turn w = (tn, w1)" by fastforce
  from alone_turn [OF assms(1) n] assms n show ?thesis
    by (cases "t_fault tn") (auto simp: alloc_def call_def split: if_splits)
qed

text \<open>The loop reads exactly the file, whatever the sizes of the single transfers.\<close>

lemma pread_loop_alone:
  "pread_loop e fd used cap w = (r, t) \<Longrightarrow> alone w \<Longrightarrow> map_of (w_fds w) fd = Some ds \<Longrightarrow>
   content_of (w_fs w) (d_obj ds) = Some b \<Longrightarrow> used = take (length used) b \<Longrightarrow>
   length used \<le> cap \<Longrightarrow> 0 < cap \<Longrightarrow>
   alone t \<and> w_fds t = w_fds w \<and> w_fs t = w_fs w \<and> (\<forall>bs c. r = Some (bs, c) \<longrightarrow> bs = b)"
proof (induction e fd used cap w rule: pread_loop.induct)
  case (1 e fd used cap w)
  obtain room w1 where a: "run_state (if length used = cap then alloc else ret True) w = (room, w1)"
    by fastforce
  let ?cap = "if length used = cap then 2 * cap else cap"
  obtain got w2 where p: "run_state (sys_pread fd (?cap - length used) (length used)) w1 = (got, w2)"
    by fastforce
  from alloc_alone [OF "1.prems"(2) a] "1.prems"(3,4) have w1: "alone w1" "w_fds w1 = w_fds w" "w_fs w1 = w_fs w"
    "map_of (w_fds w1) fd = Some ds" "content_of (w_fs w1) (d_obj ds) = Some b" by auto
  from pread_alone [OF w1(1) p w1(4,5)] w1 have w2: "alone w2" "w_fds w2 = w_fds w" "w_fs w2 = w_fs w"
    by auto
  have pos: "0 < ?cap - length used" using "1.prems"(6,7) by auto
  consider "length used = cap \<and> SIZE_MAX div 2 < cap"
    | "\<not> (length used = cap \<and> SIZE_MAX div 2 < cap)" "\<not> room"
    | "\<not> (length used = cap \<and> SIZE_MAX div 2 < cap)" room "got = None" "w_errno w2 \<noteq> EINTR"
    | "\<not> (length used = cap \<and> SIZE_MAX div 2 < cap)" room "got = None" "w_errno w2 = EINTR"
    | bs where "\<not> (length used = cap \<and> SIZE_MAX div 2 < cap)" room "got = Some bs" by fastforce
  then show ?case
  proof cases
    case 1
    with "1.prems" show ?thesis by (subst (asm) (1) pread_loop.simps) auto
  next
    case 2
    with "1.prems"(1) a have "r = None" "t = w1" by (subst (asm) (1) pread_loop.simps; simp)+
    with w1 show ?thesis by simp
  next
    case 3
    with "1.prems"(1) a p have "r = None" "t = w2"
      by (subst (asm) (1) pread_loop.simps; simp add: Let_def split: if_splits)+
    with w2 show ?thesis by simp
  next
    case 4
    with "1.prems"(1) a p have r: "pread_loop e fd used ?cap w2 = (r, t)"
      by (subst (asm) (1) pread_loop.simps) (simp add: Let_def split: if_splits)
    from "1.IH"(1) [OF _ a [symmetric] _ refl p [symmetric] _ _ r] 4 w2 "1.prems"(3-7)
    show ?thesis by auto
  next
    case 5
    from pread_alone [OF w1(1) p w1(4,5)] 5(3) pos obtain k where
      k: "bs = take k (drop (length used) b)" "0 < k" "k \<le> ?cap - length used" by auto
    have app: "used @ bs = take (length used + k) b"
      using "1.prems"(5) k(1) by (metis take_add)
    show ?thesis
    proof (cases "bs = []")
      case True
      with 5 "1.prems"(1) a p have "r = Some (used, ?cap)" "t = w2"
        by (subst (asm) (1) pread_loop.simps; simp add: Let_def split: if_splits)+
      moreover have "used = b" using True k "1.prems"(5) by simp
      ultimately show ?thesis using w2 by simp
    next
      case False
      with 5 "1.prems"(1) a p have r: "pread_loop e fd (used @ bs) ?cap w2 = (r, t)"
        by (subst (asm) (1) pread_loop.simps) (simp add: Let_def split: if_splits)
      have len: "used @ bs = take (length (used @ bs)) b" "length (used @ bs) \<le> ?cap"
        using app k pos by (auto simp: min_def split: if_splits)
      from "1.IH"(2) [OF _ a [symmetric] _ refl p [symmetric] 5(3) False r] 5 w2 "1.prems"(3,4,7) len
      show ?thesis by auto
    qed
  qed
qed


section \<open>The buffer of the reading loop\<close>

lemma sys_pread_length: "run_state (sys_pread fd n off) w = (Some got, t) \<Longrightarrow> length got \<le> n"
  by (auto simp: sys_pread_def call_def short_read_def
      split: prod.splits option.splits sum.splits node.splits)

lemma pread_loop_room:
  "pread_loop e fd used cap w = (Some (bs, c), t) \<Longrightarrow> length used \<le> cap \<Longrightarrow> 0 < cap \<Longrightarrow>
   cap \<le> SIZE_MAX \<Longrightarrow> length bs < c \<and> c \<le> SIZE_MAX"
proof (induction e fd used cap w rule: pread_loop.induct)
  case (1 e fd used cap w)
  obtain room w1 where a: "run_state (if length used = cap then alloc else ret True) w = (room, w1)"
    by fastforce
  let ?cap = "if length used = cap then 2 * cap else cap"
  obtain got w2 where p: "run_state (sys_pread fd (?cap - length used) (length used)) w1 = (got, w2)"
    by fastforce
  have small: "\<not> (length used = cap \<and> SIZE_MAX div 2 < cap)"
    using "1.prems"(1) by (subst (asm) (1) pread_loop.simps) (auto split: if_splits)
  then have cap: "length used < ?cap" "0 < ?cap" "?cap \<le> SIZE_MAX" using "1.prems"(2-4) by auto
  have room: "room" using "1.prems"(1) a small
    by (subst (asm) (1) pread_loop.simps) (auto split: if_splits)
  show ?case
  proof (cases got)
    case None
    with "1.prems"(1) a p small room have e: "w_errno w2 = EINTR"
        and r: "pread_loop e fd used ?cap w2 = (Some (bs, c), t)"
      by (subst (asm) (1) pread_loop.simps; simp add: Let_def split: if_splits)+
    from "1.IH"(1) [OF small a [symmetric] _ refl p [symmetric] None e r] room cap
    show ?thesis by linarith
  next
    case (Some x)
    show ?thesis
    proof (cases "x = []")
      case True
      with Some "1.prems"(1) a p small room have "bs = used" "c = ?cap"
        by (subst (asm) (1) pread_loop.simps; simp add: Let_def split: if_splits)+
      with cap show ?thesis by simp
    next
      case False
      with Some "1.prems"(1) a p small room
      have r: "pread_loop e fd (used @ x) ?cap w2 = (Some (bs, c), t)"
        by (subst (asm) (1) pread_loop.simps) (simp add: Let_def split: if_splits)
      have "length (used @ x) \<le> ?cap"
        using sys_pread_length [OF p [unfolded Some]] cap(1) by (simp split: if_splits)
      from "1.IH"(2) [OF small a [symmetric] _ refl p [symmetric] Some False r this] room cap
      show ?thesis by simp
    qed
  qed
qed

end
