(* ===== verification/FormatFacts.thy ===== *)
theory FormatFacts
  imports TransferLoops Samples
begin

text \<open>
  What a format replacement does to the file it replaces, when no other process touches the files
  but any call may fail, be interrupted or transfer a part: rules for \<open>quiet\<close> and the property that
  the original bytes are never lost.
\<close>

named_theorems quiet_rules \<open>rules of the calls on files nobody else touches\<close>

section \<open>Calls\<close>

lemma quiet_weaken: "quiet F C N w \<Longrightarrow> G \<subseteq>\<^sub>m F \<Longrightarrow> D \<subseteq>\<^sub>m C \<Longrightarrow> M \<subseteq>\<^sub>m N \<Longrightarrow> quiet G D M w"
  unfolding quiet_def by (blast intro: map_le_trans)

lemma quiet_open_fd:
  assumes "quiet F C N w" and "open_fd k ds w = (n, t)"
  shows "0 \<le> n" and "F n = None" and "quiet (F(n \<mapsto> d_obj ds)) C N t" and "w_fs t = w_fs w"
proof -
  from assms(2) have n: "n = free_fd k (w_fds w)" and t: "t = w\<lparr>w_fds := (n, ds) # w_fds w\<rparr>"
    by (auto simp: open_fd_def Let_def)
  from n free_fd_fresh [of "w_fds w" k] have fresh: "map_of (w_fds w) n = None" and "int k \<le> n"
    by auto
  then show "0 \<le> n" by linarith
  have le: "F \<subseteq>\<^sub>m fd_objs w" using assms(1) by (simp add: quiet_def)
  show Fn: "F n = None"
  proof (rule ccontr)
    assume "F n \<noteq> None"
    then obtain ob where "F n = Some ob" by auto
    from map_le_Some [OF le this] fresh show False by (simp add: fd_objs_def)
  qed
  have "fd_objs t = (fd_objs w)(n \<mapsto> d_obj ds)" using t by (auto simp: fd_objs_def)
  with le have "F(n \<mapsto> d_obj ds) \<subseteq>\<^sub>m fd_objs t" by (simp add: map_le_upd)
  with assms(1) t show "quiet (F(n \<mapsto> d_obj ds)) C N t" by (simp add: quiet_def)
  show "w_fs t = w_fs w" using t by simp
qed

lemma quiet_opened:
  assumes "quiet F C N w" and "open_fd k ds w = (n, t)"
  shows "quiet F C N t"
  by (rule quiet_weaken [OF quiet_open_fd(3) [OF assms]])
    (use quiet_open_fd(2) [OF assms] in \<open>auto simp: map_le_def\<close>)

lemma quiet_del_fd:
  "quiet F C N w \<Longrightarrow> F fd = None \<Longrightarrow> quiet F C N (w\<lparr>w_fds := al_del fd (w_fds w)\<rparr>)"
  by (auto simp: quiet_def fd_objs_def map_le_def dom_def)

interpretation quietly: reading "quiet F C N" "\<lambda>fd. F fd = None"
  for F :: "int \<rightharpoonup> oid" and C :: "oid \<rightharpoonup> bytes" and N :: "oid \<times> cstring \<rightharpoonup> oid"
proof unfold_locales
  fix w u :: "'z world_scheme" and n k ds
  assume "quiet F C N w" and "open_fd k ds w = (n, u)"
  then show "0 \<le> n \<and> F n = None \<and> quiet F C N u"
    using quiet_open_fd [of F C N w k ds n u] quiet_opened [of F C N w k ds n u] by simp
next
  fix w v :: "'z world_scheme" and event path x
  assume "quiet F C N w" and "run_state (barrier event path) w = (x, v)"
  then show "quiet F C N v" by (simp add: barrier_def quiet_def alone_def)
qed (auto intro: quiet_turn quiet_del_fd)

lemmas quiet_calls [quiet_rules] = quietly.calls

lemma quiet_getgroups [quiet_rules]:
  "quiet F C N w \<Longrightarrow> (\<And>r t. quiet F C N t \<Longrightarrow> Q r t) \<Longrightarrow> wp sys_getgroups Q w"
  unfolding sys_getgroups_def by (rule quietly.pure_call) auto

lemma quiet_say [quiet_rules]:
  assumes "quiet F C N w" and "\<And>t. quiet F C N t \<Longrightarrow> f_leases t = f_leases w \<Longrightarrow> Q () t"
  shows "wp (say room msg) Q w"
proof -
  have "quiet F C N (w\<lparr>f_reason := s\<rparr>)" for s using assms(1) quiet_cong [of "w\<lparr>f_reason := s\<rparr>" w] by simp
  with assms show ?thesis by (simp add: say_def)
qed

lemma quiet_count [quiet_rules]:
  assumes "quiet F C N w" and "\<And>t. quiet F C N t \<Longrightarrow> Q () t"
  shows "wp (modify (\<lambda>w. w\<lparr>f_counter := g w\<rparr>)) Q w"
  using assms quiet_cong [of "w\<lparr>f_counter := g w\<rparr>" w] by simp

text \<open>Descriptors.\<close>

lemma quiet_close [quiet_rules]:
  assumes "quiet F C N w" and "\<And>r t. quiet (F(fd := None)) C N t \<Longrightarrow> Q r t"
  shows "wp (sys_close fd) Q w"
proof -
  obtain tn w1 where n: "next_turn w = (tn, w1)" by fastforce
  with assms(1) have q: "quiet F C N w1" by (blast intro: quiet_turn)
  have "F(fd := None) \<subseteq>\<^sub>m F" by (auto simp: map_le_def)
  then have w: "quiet (F(fd := None)) C N w1" by (rule quiet_weaken [OF q]) (simp_all add: map_le_def)
  have "F(fd := None) \<subseteq>\<^sub>m fd_objs (w1\<lparr>w_fds := al_del fd (w_fds w1)\<rparr>)"
    using q by (auto simp: quiet_def fd_objs_def map_le_def dom_def)
  with q have "quiet (F(fd := None)) C N (w1\<lparr>w_fds := al_del fd (w_fds w1)\<rparr>)"
    by (simp add: quiet_def)
  with w n assms(2) show ?thesis
    by (auto simp: wp_def sys_close_def Let_def split: option.splits)
qed

lemma quiet_dup [quiet_rules]:
  assumes "quiet F C N (w :: 'z world_scheme)" and "F fd = Some ob" and "\<And>t. quiet F C N t \<Longrightarrow> Q (-1) t"
    and "\<And>n t. 0 \<le> n \<Longrightarrow> F n = None \<Longrightarrow> quiet (F(n \<mapsto> ob)) C N t \<Longrightarrow> Q n t"
  shows "wp (sys_dup fd k) Q w"
  unfolding sys_dup_def using assms(1,3)
proof (rule quietly.on_call)
  fix tn r and t u :: "'z world_scheme"
  assume t: "quiet F C N t" and u: "(case map_of (w_fds t) fd of None \<Rightarrow> Inl EBADF
     | Some ds \<Rightarrow> Inr (open_fd k (ds\<lparr>d_cloexec := (k \<noteq> 0)\<rparr>) t)) = Inr (r, u)"
  obtain ds where "map_of (w_fds t) fd = Some ds" "d_obj ds = ob" using quiet_fd [OF t assms(2)] by auto
  with u quiet_open_fd [OF t, of k "ds\<lparr>d_cloexec := (k \<noteq> 0)\<rparr>" r u] assms(4) show "Q r u" by auto
qed

lemma quiet_open [quiet_rules]:
  assumes "quiet F C N (w :: 'z world_scheme)" and "\<And>n t. quiet F C N t \<Longrightarrow> n < 0 \<or> F n = None \<Longrightarrow> Q n t"
  shows "wp (sys_open p fl) Q w"
  unfolding sys_open_def using assms(1)
proof (rule quietly.on_call)
  fix tn r and t u :: "'z world_scheme"
  assume t: "quiet F C N t" and "(case resolve t (O_NOFOLLOW \<notin> set fl) p of Inl e \<Rightarrow> Inl e
     | Inr st \<Rightarrow> open_obj (top_obj (w_root t) st) fl t) = Inr (r, u)"
  then obtain ds where "open_fd 0 ds t = (r, u)"
    by (auto simp: open_obj_def split: sum.splits option.splits node.splits if_splits)
  from quiet_opened [OF t this] quiet_open_fd(2) [OF t this] assms(2) show "Q r u" by simp
qed (use assms(2) in simp)


section \<open>Names and contents\<close>

lemma content_set_dir:
  "dir_of f d = Some es \<Longrightarrow> content_of (set_node d (Dir es') f) = content_of f"
  by (auto simp: dir_of_def content_of_def set_node_def fun_eq_iff split: option.splits node.splits)

lemma dir_set_dir:
  "dir_of f d = Some es \<Longrightarrow> dir_of (set_node d (Dir es') f) = (dir_of f)(d \<mapsto> es')"
  by (auto simp: dir_of_def set_node_def fun_eq_iff split: option.splits node.splits)

lemma fold_max_le: "x \<in> set xs \<Longrightarrow> x \<le> fold max xs (a :: nat)"
proof (induction xs arbitrary: a)
  case (Cons y ys)
  have "b \<le> fold max ys b" for b :: nat
    by (induction ys arbitrary: b) (auto intro: order_trans [OF max.cobounded2])
  with Cons show ?case by (auto intro: order_trans [OF max.cobounded1])
qed simp

lemma fresh_oid_unused: "map_of f (fresh_oid f dev) = None"
proof (rule ccontr)
  assume "map_of f (fresh_oid f dev) \<noteq> None"
  then obtain i where "(fresh_oid f dev, i) \<in> set f" by (auto dest: map_of_SomeD)
  then have "snd (fst (fresh_oid f dev, i)) \<in> set (map (\<lambda>p. snd (fst p)) f)" by (metis image_eqI list.set_map)
  from fold_max_le [OF this, of 0] show False by (simp add: fresh_oid_def)
qed

lemma add_entry_effect:
  assumes "dir_of f d = Some es"
  shows "content_of (add_entry d n ob f) = content_of f"
    and "fs_lookup (add_entry d n ob f) d' n' = (if d' = d \<and> n' = n then Some ob else fs_lookup f d' n')"
  using assms content_set_dir [OF assms] dir_set_dir [OF assms] by (simp_all add: add_entry_def fs_lookup_def)

lemma del_entry_effect:
  assumes "dir_of f d = Some es"
  shows "content_of (del_entry d n f) = content_of f"
    and "fs_lookup (del_entry d n f) d' n' = (if d' = d \<and> n' = n then None else fs_lookup f d' n')"
  using assms content_set_dir [OF assms] dir_set_dir [OF assms] by (simp_all add: del_entry_def fs_lookup_def)

lemma drop_link_effect: "content_of (drop_link ob f) = content_of f" "fs_lookup (drop_link ob f) = fs_lookup f"
proof -
  have "dir_of (drop_link ob f) = dir_of f"
    by (auto simp: dir_of_def drop_link_def fun_eq_iff split: option.splits)
  then show "fs_lookup (drop_link ob f) = fs_lookup f" by (simp add: fs_lookup_def fun_eq_iff)
qed (auto simp: content_of_def drop_link_def fun_eq_iff split: option.splits)

lemma new_object_effect:
  assumes "map_of f ob = None"
  shows "content_of ((ob, new_inode (Reg b) p u g) # f) = (content_of f)(ob \<mapsto> b)"
    and "fs_lookup ((ob, new_inode (Reg b) p u g) # f) = fs_lookup f"
  using assms
  by (auto simp: content_of_def new_inode_def fs_lookup_def dir_of_def fun_eq_iff split: option.splits)

lemma map_of_add_entry: "map_of (add_entry d n x f) ob = None \<longleftrightarrow> map_of f ob = None"
  by (auto simp: add_entry_def set_node_def split: option.splits)

lemma map_le_upd_both: "f \<subseteq>\<^sub>m g \<Longrightarrow> f(x \<mapsto> y) \<subseteq>\<^sub>m g(x \<mapsto> y)"
  by (auto simp: map_le_def)

lemma quiet_create [quiet_rules]:
  assumes "quiet F C N (w :: 'z world_scheme)" and F: "F fd = Some d"
    and fl: "O_CREAT \<in> set fl" "O_EXCL \<in> set fl"
    and bad: "\<And>t. quiet F C N t \<Longrightarrow> Q (-1) t"
    and ok: "\<And>n ob t. 0 \<le> n \<Longrightarrow> F n = None \<Longrightarrow> C ob = None \<Longrightarrow> N (d, nm) = None \<Longrightarrow>
       quiet (F(n \<mapsto> ob)) (C(ob \<mapsto> [])) (N((d, nm) \<mapsto> ob)) t \<Longrightarrow> Q n t"
  shows "wp (sys_openat fd nm fl perm) Q w"
  unfolding sys_openat_def using assms(1) bad
proof (rule quietly.on_call)
  fix tn r and t u :: "'z world_scheme"
  let ?ob = "fresh_oid (w_fs t) (fst d)"
  let ?i = "new_inode (Reg []) perm (w_uid t) (w_gid t)"
  let ?f = "(?ob, ?i) # add_entry d nm ?ob (w_fs t)"
  let ?t = "log (Made d nm ?ob) (t\<lparr>w_fs := ?f\<rparr>)"
  assume t: "quiet F C N t" and act: "(case fd_dir t fd of Inl e \<Rightarrow> Inl e
     | Inr (d, es) \<Rightarrow> (case map_of es nm of
         Some ob \<Rightarrow> if O_CREAT \<in> set fl \<and> O_EXCL \<in> set fl then Inl EEXIST else open_obj ob fl t
       | None \<Rightarrow> if O_CREAT \<notin> set fl \<or> \<not> dir_live (w_fs t) d then Inl ENOENT
           else (let ob = fresh_oid (w_fs t) (fst d);
                     i = new_inode (Reg []) perm (w_uid t) (w_gid t);
                     w1 = log (Made d nm ob) (t\<lparr>w_fs := (ob, i) # add_entry d nm ob (w_fs t)\<rparr>)
                 in Inr (open_fd 0 (flag_desc ob fl) w1)))) = Inr (r, u)"
  obtain ds where ds: "map_of (w_fds t) fd = Some ds" "d_obj ds = d" using quiet_fd [OF t F] by auto
  from act fl ds obtain es where es: "dir_of (w_fs t) d = Some es" "map_of es nm = None"
    and u: "open_fd 0 (flag_desc ?ob fl) ?t = (r, u)"
    by (auto simp: fd_dir_def fd_obj_def Let_def split: option.splits if_splits)
  have fresh: "map_of (add_entry d nm ?ob (w_fs t)) ?ob = None"
    by (simp add: map_of_add_entry fresh_oid_unused)
  have c: "content_of ?f = (content_of (w_fs t))(?ob \<mapsto> [])"
    and n: "(\<lambda>(x, y). fs_lookup ?f x y) = (\<lambda>(x, y). fs_lookup (w_fs t) x y)((d, nm) \<mapsto> ?ob)"
    using new_object_effect [OF fresh] add_entry_effect [OF es(1)] by (auto simp: fun_eq_iff)
  have "quiet F (C(?ob \<mapsto> [])) (N((d, nm) \<mapsto> ?ob)) ?t"
    using t unfolding quiet_def by (simp add: log_def fd_objs_def c n map_le_upd_both alone_def)
  moreover have "C ?ob = None"
  proof (rule ccontr)
    assume "C ?ob \<noteq> None"
    then obtain b where "C ?ob = Some b" by auto
    from quiet_content [OF t this] fresh_oid_unused [of "w_fs t" "fst d"] show False
      by (simp add: content_of_def)
  qed
  moreover have "N (d, nm) = None"
  proof (rule ccontr)
    assume "N (d, nm) \<noteq> None"
    then obtain x where "N (d, nm) = Some x" by auto
    from quiet_name [OF t this] es show False by (simp add: fs_lookup_def)
  qed
  ultimately show "Q r u" using ok quiet_open_fd [OF _ u] by (simp add: flag_desc_def)
qed

lemma quiet_unlinkat [quiet_rules]:
  assumes "quiet F C N (w :: 'z world_scheme)" and F: "F fd = Some d"
    and bad: "\<And>t. quiet F C N t \<Longrightarrow> Q (-1) t"
    and ok: "\<And>t. quiet F C (N((d, nm) := None)) t \<Longrightarrow> Q 0 t"
  shows "wp (sys_unlinkat fd nm rmdir) Q w"
  unfolding sys_unlinkat_def using assms(1) bad
proof (rule quietly.on_call)
  fix tn r and t u :: "'z world_scheme"
  assume t: "quiet F C N t" and act: "(case fd_dir t fd of Inl e \<Rightarrow> Inl e
     | Inr (d, es) \<Rightarrow> remove_entry rmdir d es nm t) = Inr (r, u)"
  obtain ds where ds: "map_of (w_fds t) fd = Some ds" "d_obj ds = d" using quiet_fd [OF t F] by auto
  from act ds obtain es ob where es: "dir_of (w_fs t) d = Some es" "r = 0"
    and u: "u = log (Unlinked d nm ob) (t\<lparr>w_fs := drop_link ob (del_entry d nm (w_fs t))\<rparr>)"
    by (auto simp: fd_dir_def fd_obj_def remove_entry_def split: option.splits if_splits)
  have n: "(\<lambda>(x, y). fs_lookup (w_fs u) x y) = (\<lambda>(x, y). fs_lookup (w_fs t) x y)((d, nm) := None)"
    using del_entry_effect(2) [OF es(1)] drop_link_effect(2) by (auto simp: u log_def fun_eq_iff)
  have c: "content_of (w_fs u) = content_of (w_fs t)"
    using del_entry_effect(1) [OF es(1)] drop_link_effect(1) by (simp add: u log_def)
  have "alone u" "w_fds u = w_fds t" using t by (simp_all add: u quiet_def log_def)
  with t have "quiet F C (N((d, nm) := None)) u"
    unfolding quiet_def by (auto simp: n c fd_objs_def map_le_def)
  with ok es(2) show "Q r u" by simp
qed


section \<open>Contents and modes\<close>

lemma quiet_ftruncate:
  assumes "quiet F C N (w :: 'z world_scheme)" and F: "F fd = Some ob" and C: "C ob = Some b"
    and bad: "\<And>t. quiet F C N t \<Longrightarrow> Q (-1) t"
    and ok: "\<And>t. quiet F (C(ob \<mapsto> take n (b @ replicate (n - length b) (CHR 0x00)))) N t \<Longrightarrow> Q 0 t"
  shows "wp (sys_ftruncate fd n) Q w"
  unfolding sys_ftruncate_def using assms(1) bad
proof (rule quietly.on_call)
  fix tn and r :: int and t u :: "'z world_scheme"
  assume t: "quiet F C N t" and act: "(case map_of (w_fds t) fd of None \<Rightarrow> Inl EBADF
     | Some ds \<Rightarrow> if \<not> d_write ds then Inl EINVAL
       else (case content_of (w_fs t) (d_obj ds) of None \<Rightarrow> Inl EINVAL
         | Some b \<Rightarrow> Inr (0, log (Truncated (d_obj ds))
             (t\<lparr>w_fs := write_obj (d_obj ds)
                  (take n (b @ replicate (n - length b) (CHR 0x00))) (w_fs t)\<rparr>)))) = Inr (r, u)"
  obtain ds where ds: "map_of (w_fds t) fd = Some ds" "d_obj ds = ob" using quiet_fd [OF t F] by auto
  have b: "content_of (w_fs t) ob = Some b" by (rule quiet_content [OF t C])
  let ?c = "take n (b @ replicate (n - length b) (CHR 0x00))"
  from act ds b have u: "r = 0" "u = log (Truncated ob) (t\<lparr>w_fs := write_obj ob ?c (w_fs t)\<rparr>)"
    by (auto split: if_splits)
  have fs: "w_fs u = write_obj ob ?c (w_fs t)" by (simp add: u log_def)
  have "only_file ob (w_fs t) (w_fs u)" "content_of (w_fs u) ob = Some ?c"
    unfolding fs only_file_def using content_write_obj [OF b] lookup_write_obj [OF b] by auto
  moreover have "alone u" "w_fds u = w_fds t" using t by (simp_all add: u quiet_def log_def)
  ultimately show "Q r u" using quiet_change [OF t] ok u(1) by blast
qed (use bad in simp)

lemma quiet_fchmod [quiet_rules]:
  assumes "quiet F C N (w :: 'z world_scheme)" and "\<And>r t. quiet F C N t \<Longrightarrow> Q r t"
  shows "wp (sys_fchmod fd perm) Q w"
  unfolding sys_fchmod_def using assms
proof (rule quietly.on_call)
  fix tn and r :: int and t u :: "'z world_scheme"
  assume t: "quiet F C N t" and act: "(case fd_obj t fd of Inl e \<Rightarrow> Inl e
     | Inr ob \<Rightarrow> Inr (0, log (Moded ob)
         (t\<lparr>w_fs := al_adjust ob (\<lambda>i. i\<lparr>i_perm := perm\<rparr>) (w_fs t)\<rparr>))) = Inr (r, u)"
  then obtain ob where u: "u = log (Moded ob) (t\<lparr>w_fs := al_adjust ob (\<lambda>i. i\<lparr>i_perm := perm\<rparr>) (w_fs t)\<rparr>)"
    by (auto split: sum.splits)
  have "content_of (w_fs u) = content_of (w_fs t)" "dir_of (w_fs u) = dir_of (w_fs t)"
    by (auto simp: u log_def content_of_def dir_of_def fun_eq_iff split: option.splits)
  then have "quiet F C N u" using t by (simp add: quiet_def u log_def fd_objs_def fs_lookup_def)
  then show "Q r u" by (rule assms(2))
qed

lemma quiet_read_all [quiet_rules]:
  assumes "quiet F C N (w :: 'z world_scheme)" and F: "F fd = Some ob" and C: "C ob = Some b"
    and Q: "\<And>r t. quiet F C N t \<Longrightarrow> r = None \<or> r = Some b \<Longrightarrow> Q r t"
  shows "wp (read_all fd) Q w"
  unfolding read_all_def
proof (intro wp_seq quietly.on_alloc [OF assms(1)] wp_if wp_ret)
  fix room and t :: "'z world_scheme"
  assume t: "quiet F C N t"
  show "wp (State (pread_loop EFBIG fd [] 4096)) (\<lambda>r t. wp (ret (map_option fst r)) Q t) t"
  proof (rule wpI)
    fix r u
    assume "run_state (State (pread_loop EFBIG fd [] 4096)) t = (r, u)"
    then have loop: "pread_loop EFBIG fd [] 4096 t = (r, u)" by simp
    obtain ds where ds: "map_of (w_fds t) fd = Some ds" "d_obj ds = ob" using quiet_fd [OF t F] by auto
    have b: "content_of (w_fs t) (d_obj ds) = Some b" using quiet_content [OF t C] ds(2) by simp
    from pread_loop_alone [OF loop quiet_alone [OF t] ds(1) b]
    have u: "alone u" "w_fds u = w_fds t" "w_fs u = w_fs t" and r: "\<forall>bs c. r = Some (bs, c) \<longrightarrow> bs = b"
      by simp_all
    have "quiet F C N u" using t u by (simp add: quiet_def fd_objs_def)
    moreover have "map_option fst r = None \<or> map_option fst r = Some b" using r by (cases r) auto
    ultimately show "wp (ret (map_option fst r)) Q u" using Q by simp
  qed
qed (use Q in simp)

text \<open>Writing in place: a failure leaves something in the file, a success exactly the data.\<close>

lemma quiet_sync_file [quiet_rules]:
  "quiet F C N w \<Longrightarrow> (\<And>r t. quiet F C N t \<Longrightarrow> Q r t) \<Longrightarrow> wp (sync_file fd) Q w"
  unfolding sync_file_def by (intro wp_intros quiet_rules | assumption | simp)+

lemma quiet_rewrite [quiet_rules]:
  assumes q: "quiet F C N (w :: 'z world_scheme)" and F: "F fd = Some ob" and C: "C ob = Some b"
    and bad: "\<And>t c. quiet F (C(ob \<mapsto> c)) N t \<Longrightarrow> Q False t"
    and ok: "\<And>t. quiet F (C(ob \<mapsto> data)) N t \<Longrightarrow> Q True t"
  shows "wp (rewrite fd data) Q w"
  unfolding rewrite_def
proof (rule wp_seq, rule quiet_write_all [OF q F C])
  fix t :: "'z world_scheme" and k
  assume "quiet F (C(ob \<mapsto> take k data @ drop k b)) N t"
  with bad show "wp (do { cut \<leftarrow> (if (-1 :: int) \<noteq> 0 then ret (-1) else sys_ftruncate fd (length data));
     synced \<leftarrow> (if cut \<noteq> 0 then ret (-1) else sync_file fd); ret (synced = 0) }) Q t" by simp
next
  fix t :: "'z world_scheme"
  let ?b = "data @ drop (length data) b"
  assume t: "quiet F (C(ob \<mapsto> ?b)) N t"
  have cut: "take (length data) (?b @ replicate (length data - length ?b) (CHR 0x00)) = data" by simp
  show "wp (do { cut \<leftarrow> (if (0 :: int) \<noteq> 0 then ret (-1) else sys_ftruncate fd (length data));
     synced \<leftarrow> (if cut \<noteq> 0 then ret (-1) else sync_file fd); ret (synced = 0) }) Q t"
  proof (simp, rule quiet_ftruncate [OF t F])
    show "(C(ob \<mapsto> ?b)) ob = Some ?b" by simp
  next
    fix u :: "'z world_scheme"
    assume "quiet F (C(ob \<mapsto> ?b)) N u"
    with bad show "wp (if (-1 :: int) \<noteq> 0 then ret (-1) else sync_file fd) (\<lambda>r. Q (r = 0)) u" by simp
  next
    fix u :: "'z world_scheme"
    assume u: "quiet F ((C(ob \<mapsto> ?b))(ob \<mapsto> take (length data) (?b @ replicate (length data - length ?b) (CHR 0x00)))) N u"
    with cut have "quiet F (C(ob \<mapsto> data)) N u" by simp
    then show "wp (if (0 :: int) \<noteq> 0 then ret (-1) else sync_file fd) (\<lambda>r. Q (r = 0)) u"
      using bad ok by (simp, elim quiet_sync_file) (metis (full_types))
  qed
qed


section \<open>The replacement\<close>

lemma quiet_close_other:
  "quiet F C N w \<Longrightarrow> fd < 0 \<or> F fd = None \<Longrightarrow> (\<And>t. quiet F C N t \<Longrightarrow> Q () t) \<Longrightarrow> wp (close_if_open fd) Q w"
  unfolding close_if_open_def close_fd_def
  by (intro wp_intros quiet_close | assumption | simp add: fun_upd_idem)+

lemma quiet_describe_copy [quiet_rules]:
  "quiet F C N w \<Longrightarrow> (\<And>r t. quiet F C N t \<Longrightarrow> Q r t) \<Longrightarrow> wp (describe_copy lease nm room) Q w"
  unfolding describe_copy_def landin_publication_describe_entry_def
  by (intro wp_intros quiet_rules quiet_close_other | assumption | (simp; fail))+

text \<open>
  The outcome: the file holds its old or the new bytes completely, or a copy of the old bytes stands
  under a name in its directory; a success means the new bytes.
\<close>

definition kept :: "oid \<Rightarrow> oid \<Rightarrow> bytes \<Rightarrow> bytes \<Rightarrow> int \<Rightarrow> 'z world_scheme \<Rightarrow> bool" where
  "kept d ob b data r t \<longleftrightarrow> (\<exists>c. content_of (w_fs t) ob = Some c \<and> (c = b \<or> c = data
       \<or> (\<exists>nm copy. fs_lookup (w_fs t) d nm = Some copy \<and> content_of (w_fs t) copy = Some b)))
     \<and> (r = 0 \<longrightarrow> content_of (w_fs t) ob = Some data)"

lemma kept_whole:
  "quiet F C N t \<Longrightarrow> C ob = Some c \<Longrightarrow> c = data \<or> c = b \<and> r \<noteq> 0 \<Longrightarrow> kept d ob b data r t"
  by (auto simp: kept_def dest: quiet_content)

lemma kept_copy:
  "quiet F C N t \<Longrightarrow> C ob = Some c \<Longrightarrow> N (d, nm) = Some cp \<Longrightarrow> C cp = Some b \<Longrightarrow> r \<noteq> 0 \<Longrightarrow>
   kept d ob b data r t"
  unfolding kept_def using quiet_content quiet_name by blast

lemma quiet_replace_done:
  assumes "quiet F C N (w :: 'z fmt_world_scheme)" and d: "F (l_parent lease) = Some d"
    and other: "l_parent lease \<noteq> k" "l_parent lease \<noteq> fd"
    and none: "\<And>F t. copy = None \<Longrightarrow> quiet F C N t \<Longrightarrow> Q result t"
    and some: "\<And>nm r F M t. copy = Some nm \<Longrightarrow> r = result \<or> r = -1 \<Longrightarrow> quiet F C M t \<Longrightarrow> Q r t"
  shows "wp (replace_done lease k fd copy result room) Q w"
proof -
  let ?G = "[l_parent lease \<mapsto> d]"
  have "?G \<subseteq>\<^sub>m F" using d by (auto simp: map_le_def)
  with assms(1) have w: "quiet ?G C N w" by (rule quiet_weaken) simp_all
  show ?thesis
    unfolding replace_done_def using other
    by - (intro wp_seq wp_if wp_ret wp_get wp_case_option quiet_close_other quiet_rules | rule w | assumption | (simp; fail)
        | (rule none, assumption, assumption) | (rule some, assumption, simp, assumption))+
qed


lemma quiet_in_group [quiet_rules]:
  "quiet F C N w \<Longrightarrow> (\<And>r t. quiet F C N t \<Longrightarrow> Q r t) \<Longrightarrow> wp (in_group g) Q w"
  unfolding in_group_def
  by (intro wp_intros quiet_rules | assumption | (simp; fail) | (split list.split, intro conjI allI impI))+

lemma quiet_refuse_write [quiet_rules]:
  "quiet F C N w \<Longrightarrow> (\<And>r t. quiet F C N t \<Longrightarrow> Q r t) \<Longrightarrow> wp (refuse_write lease fd st) Q w"
  unfolding refuse_write_def by (intro wp_intros quiet_rules | assumption | (simp; fail))+

lemma quiet_still_named [quiet_rules]:
  "quiet F C N w \<Longrightarrow> (\<And>r t. quiet F C N t \<Longrightarrow> Q r t) \<Longrightarrow> wp (still_named target st) Q w"
  unfolding still_named_def by (intro wp_intros quiet_rules | assumption | (simp; fail))+

lemma quiet_restore_mode [quiet_rules]:
  "quiet F C N w \<Longrightarrow> (\<And>r t. quiet F C N t \<Longrightarrow> Q r t) \<Longrightarrow> wp (restore_mode fd st) Q w"
  unfolding restore_mode_def by (intro wp_intros quiet_rules | assumption | (simp; fail))+

lemma quiet_say_unopened [quiet_rules]:
  "quiet F C N w \<Longrightarrow> (\<And>t. quiet F C N t \<Longrightarrow> Q () t) \<Longrightarrow> wp (say_unopened lease room) Q w"
  unfolding say_unopened_def by (intro wp_intros quiet_rules | assumption | (simp; fail))+

text \<open>The copy is a new object under a name that was free.\<close>

lemma quiet_copy_attempt:
  assumes "quiet F C N w" and d: "F parent = Some d"
    and bad: "\<And>n nm t. n < 0 \<Longrightarrow> quiet F C N t \<Longrightarrow> Q (n, nm) t"
    and ok: "\<And>n ob nm t. 0 \<le> n \<Longrightarrow> F n = None \<Longrightarrow> C ob = None \<Longrightarrow>
       quiet (F(n \<mapsto> ob)) (C(ob \<mapsto> [])) (N((d, nm) \<mapsto> ob)) t \<Longrightarrow> Q (n, nm) t"
  shows "wp (copy_attempt k parent nm) Q w"
  using assms(1)
proof (induction k arbitrary: nm w)
  case 0
  then show ?case by (simp add: bad)
next
  case (Suc k)
  show ?case
    unfolding copy_attempt.simps Let_def
    by (intro wp_intros quiet_rules | rule Suc.prems | assumption | rule d | (simp; fail)
        | (rule bad, simp, assumption) | (rule ok; assumption) | (rule Suc.IH, assumption))+
qed

text \<open>Without a refusal the copy holds the original bytes; its descriptor is closed or handed back.\<close>

lemma quiet_keep_copy:
  assumes q: "quiet F C N (w :: 'z fmt_world_scheme)" and k: "F k = Some cp" and cp: "C cp = Some []"
    and bad: "\<And>msg k' c t. k' = k \<or> k' = -1 \<Longrightarrow> quiet (F(k := None)) (C(cp \<mapsto> c)) N t \<Longrightarrow> Q (Some msg, k') t"
    and ok: "\<And>t. quiet (F(k := None)) (C(cp \<mapsto> original)) N t \<Longrightarrow> Q (None, -1) t"
  shows "wp (keep_copy lease k original) Q w"
proof -
  have less: "quiet (F(k := None)) C' N t" if "quiet F C' N t" for C' and t :: "'z fmt_world_scheme"
    by (rule quiet_weaken [OF that]) (auto simp: map_le_def)
  show ?thesis
    unfolding keep_copy_def
  proof (intro wp_seq wp_get, rule quiet_write_all [OF q k cp], goal_cases)
    case (1 t n)
    then show ?case
      by - (intro wp_intros quiet_rules | assumption | (simp; fail) | (rule bad, simp, rule less, assumption))+
  next
    case (2 t)
    then have t: "quiet F (C(cp \<mapsto> original)) N t" by simp
    show ?case
      by (intro wp_intros quiet_rules | rule t | assumption | (simp; fail) | (rule bad, simp, rule less, assumption)
          | (rule bad, simp, assumption) | (rule ok, assumption))+
  qed
qed


lemma quiet_write_in_place:
  assumes q: "quiet F C N (w :: 'z fmt_world_scheme)" and fd: "F fd = Some ob"
    and d: "F (l_parent lease) = Some d" and other: "l_parent lease \<noteq> fd" "0 \<le> l_parent lease"
    and ob: "C ob = Some b" and nm: "N (d, nm) = Some cp" and cp: "C cp = Some b" "cp \<noteq> ob"
  shows "wp (write_in_place lease fd st b data nm room) (kept d ob b data) w"
proof -
  have neg: "l_parent lease \<noteq> -1" using other(2) by simp
  have again: "wp (rewrite fd x) Q t" if "quiet F (C(ob \<mapsto> c)) N t"
      "\<And>t c. quiet F (C(ob \<mapsto> c)) N t \<Longrightarrow> Q False t" "\<And>t. quiet F (C(ob \<mapsto> x)) N t \<Longrightarrow> Q True t"
    for x c Q and t :: "'z fmt_world_scheme"
    by (rule quiet_rewrite [OF that(1) fd]) (use that(2,3) in simp_all)
  have whole: "kept d ob b data r t" if "quiet F' (C(ob \<mapsto> c)) N' t" "c = data \<or> c = b \<and> r \<noteq> 0"
    for F' N' c r and t :: "'z fmt_world_scheme" by (rule kept_whole [OF that(1) _ that(2)]) simp
  have copy: "kept d ob b data (-1) t" if "quiet F' (C(ob \<mapsto> c)) N t" for F' c and t :: "'z fmt_world_scheme"
    by (rule kept_copy [OF that _ nm]) (use cp in simp_all)
  show ?thesis
    unfolding write_in_place_def
    by (intro wp_seq wp_get wp_if wp_case_option quietly.on_get_errno quiet_say quietly.on_barrier
          quiet_still_named quiet_describe_copy quiet_restore_mode
        | (rule quiet_rewrite [OF q fd ob]) | assumption
        | (rule again, assumption) | (rule quiet_replace_done, assumption, rule d, rule neg, rule other(1))
        | (rule whole, assumption, (simp; fail)) | (rule copy, assumption) | (simp; fail))+
qed


text \<open>Refusals before the write leave the file alone; then the copy, and the write.\<close>

lemma quiet_replace_with_copy:
  assumes q: "quiet F C N (w :: 'z fmt_world_scheme)" and fd: "F fd = Some ob"
    and d: "F (l_parent lease) = Some d" and other: "l_parent lease \<noteq> fd" "0 \<le> l_parent lease"
    and ob: "C ob = Some b"
  shows "wp (replace_with_copy lease fd st b data room) (kept d ob b data) w"
proof -
  have neg: "l_parent lease \<noteq> -1" using other(2) by simp
  have stop: "wp (replace_done lease k fd copy (-1) room) (kept d ob b data) t"
    if "quiet F' C' N' t" "F' (l_parent lease) = Some d" "C' ob = Some b" "l_parent lease \<noteq> k"
    for F' C' N' k copy and t :: "'z fmt_world_scheme"
    by (rule quiet_replace_done [OF that(1,2,4) other(1)]; (rule kept_whole, assumption, rule that(3), force))
  have go: "wp (write_in_place lease fd st b data nm room) (kept d ob b data) t"
    if "quiet (F(n := None)) (C(cp \<mapsto> b)) (N((d, nm) \<mapsto> cp)) t" "F n = None" "C cp = None"
    for n cp nm and t :: "'z fmt_world_scheme"
    by (rule quiet_write_in_place [OF that(1) _ _ other]) (use that fd d ob in auto)
  show ?thesis
    unfolding replace_with_copy_def
  proof (intro wp_seq wp_get wp_if quietly.on_alloc [OF q] wp_case_prod, goal_cases)
    case (1 memory t)
    then show ?case
      by - (intro wp_seq quiet_say | assumption | (rule stop, assumption, rule d, rule ob, rule neg))+
  next
    case (2 memory t)
    show ?case
    proof (rule quiet_copy_attempt [OF 2(1) d], goal_cases)
      case (1 n nm u)
      then show ?case
        by - (intro wp_intros quietly.on_get_errno quiet_say | assumption | (simp; fail)
          | (rule stop, assumption, rule d, rule ob, rule neg))+
    next
      case (2 n cp nm u)
      have ne: "cp \<noteq> ob" "n \<noteq> fd" "n \<noteq> l_parent lease" using 2 fd d ob by auto
      have F: "((F(n \<mapsto> cp))(n := None)) (l_parent lease) = Some d" using ne d by simp
      have C: "((C(cp \<mapsto> []))(cp \<mapsto> c)) ob = Some b" for c using ne ob by simp
      have k': "l_parent lease \<noteq> k" if "k = n \<or> k = -1" for k using that ne neg by auto
      have go': "wp (write_in_place lease fd st b data nm room) (kept d ob b data) t"
        if "quiet ((F(n \<mapsto> cp))(n := None)) ((C(cp \<mapsto> []))(cp \<mapsto> b)) (N((d, nm) \<mapsto> cp)) t"
        for t :: "'z fmt_world_scheme" using go [of n cp nm t] that 2 by simp
      have keep: "wp (keep_copy lease n b) Q t"
        if "quiet (F(n \<mapsto> cp)) (C(cp \<mapsto> [])) (N((d, nm) \<mapsto> cp)) t"
          "\<And>msg k' c t. l_parent lease \<noteq> k' \<Longrightarrow>
             quiet ((F(n \<mapsto> cp))(n := None)) ((C(cp \<mapsto> []))(cp \<mapsto> c)) (N((d, nm) \<mapsto> cp)) t \<Longrightarrow> Q (Some msg, k') t"
          "\<And>t. quiet ((F(n \<mapsto> cp))(n := None)) ((C(cp \<mapsto> []))(cp \<mapsto> b)) (N((d, nm) \<mapsto> cp)) t \<Longrightarrow> Q (None, -1) t"
        for Q and t :: "'z fmt_world_scheme"
        by (rule quiet_keep_copy [OF that(1)]) (use that(2,3) k' in auto)
      from 2(1,4) show ?case
        by - ((erule Pair_inject, hypsubst) | intro wp_seq wp_get wp_if wp_case_option wp_case_prod
            quietly.on_get_errno quiet_say quietly.on_barrier quiet_still_named quietly.on_cancellation_requested | (rule keep, assumption) | assumption | (simp; fail)
            | (rule stop, assumption, rule F, rule C, (assumption | rule neg | (simp; fail)))
            | (rule go', assumption))+
    qed
  qed
qed


lemma quiet_replace_update:
  assumes q: "quiet F C N (w :: 'z fmt_world_scheme)"
    and lease: "find (\<lambda>l. l_token l = token) (f_leases w) = Some lease"
    and ob: "F (l_fd lease) = Some ob" and d: "F (l_parent lease) = Some d" "0 \<le> l_parent lease"
    and b: "C ob = Some b"
  shows "wp (landin_replace_update_locked token data room) (kept d ob b data) w"
proof -
  have fresh: "l_parent lease \<noteq> n" "l_parent lease \<noteq> -1" "(F(n \<mapsto> ob)) (l_parent lease) = Some d"
    if "F n = None" for n
    using that d by auto
  have stop: "kept d ob b data (-1) t" if "quiet F' C N t" for F' and t :: "'z fmt_world_scheme"
    by (rule kept_whole [OF that b]) simp
  have over: "wp (replace_done lease (-1) n None (-1) room) (kept d ob b data) t"
    if "quiet (F(n \<mapsto> ob)) C N t" "F n = None" for n and t :: "'z fmt_world_scheme"
    by (rule quiet_replace_done [OF that(1) fresh(3,2,1) [OF that(2)]];
        (rule kept_whole, assumption, rule b, force))
  have go: "wp (replace_with_copy lease n st x data room) (kept d ob b data) t"
    if "quiet (F(n \<mapsto> ob)) C N t" "F n = None" "r = None \<or> r = Some b" "r = Some x"
    for n st r x and t :: "'z fmt_world_scheme"
  proof -
    have "x = b" using that(3,4) by auto
    then show ?thesis using quiet_replace_with_copy [OF that(1) _ fresh(3,1) [OF that(2)] d(2) b] by simp
  qed
  have rd: "wp (read_all n) Q t" if "quiet (F(n \<mapsto> ob)) C N t"
      "\<And>r t. quiet (F(n \<mapsto> ob)) C N t \<Longrightarrow> r = None \<or> r = Some b \<Longrightarrow> Q r t"
    for n Q and t :: "'z fmt_world_scheme"
    by (rule quiet_read_all [OF that(1) _ b that(2)]) simp_all
  have l: "l = lease" if "find (\<lambda>l. l_token l = token) (f_leases w) = Some l" for l
    using that lease by simp
  show ?thesis
    unfolding landin_replace_update_locked_def find_lease_def
    by (intro wp_seq wp_get wp_if wp_ret wp_case_option quietly.on_cancellation_requested quietly.on_alloc quiet_say
          quiet_say_unopened quietly.on_fstat quietly.on_get_errno quiet_refuse_write
        | rule q | assumption | (drule l, hypsubst) | (rule quiet_dup, assumption, rule ob) | (simp add: lease; fail)
        | (rule stop, assumption) | (rule over, assumption, assumption) | (rule rd, assumption)
        | (rule go, assumption, assumption, assumption, assumption))+
qed


section \<open>Property\<close>

text \<open>
  C7. A format replacement never loses the original bytes. Whichever of its calls fail, are
  interrupted or transfer a part (and as long as no other process touches the files), the leased
  file afterwards holds its old bytes or the new ones completely, or else a copy of the old bytes
  stands under a name in its directory; a success means that the file holds the new bytes.
\<close>

theorem format_replace_keeps_original:
  assumes "alone w" and "find (\<lambda>l. l_token l = token) (f_leases w) = Some lease"
    and "fd_objs w (l_fd lease) = Some ob" and "fd_objs w (l_parent lease) = Some d"
    and "0 \<le> l_parent lease" and "content_of (w_fs w) ob = Some old"
    and "run_state (landin_replace_update_locked token data room) w = (r, t)"
  shows "(\<exists>c. content_of (w_fs t) ob = Some c \<and> (c = old \<or> c = data
       \<or> (\<exists>name copy. fs_lookup (w_fs t) d name = Some copy \<and> content_of (w_fs t) copy = Some old)))
     \<and> (r = 0 \<longrightarrow> content_of (w_fs t) ob = Some data)"
proof -
  have "quiet (fd_objs w) [ob \<mapsto> old] Map.empty w"
    using assms(1,6) by (simp add: quiet_def map_le_def)
  from wpD [OF quiet_replace_update [OF this assms(2-5)] assms(7)] show ?thesis
    by (simp add: kept_def)
qed

definition lease_world :: fmt_world where
  "lease_world = \<lparr>w_fs = sample_fs, w_fds = [(3, sample_desc 1), (4, sample_desc 5\<lparr>d_write := True\<rparr>)],
     w_errno = EOK, w_turns = [], w_cancel = 0, w_hook = None, w_log = [], w_host = Linux,
     w_root = (1, 1), w_cwd = ''/'', w_uid = 0, w_gid = 0, w_groups = [], w_pid = 7,
     w_volumes = (\<lambda>_. \<lparr>v_type = TMPFS, v_case = 1\<rparr>), w_tmpdir = None, w_nofile = 64,
     w_strerror = (\<lambda>_. ''error''),
     f_leases = [\<lparr>l_token = 1, l_fd = 4, l_parent = 3, l_write_error = None, l_target = ''/out'',
       l_name = ''out'', l_original = ''old'', l_before = sample_stat 5 KReg\<rparr>],
     f_next_lease = 2, f_counter = 0, f_reason = []\<rparr>"

lemma format_replace_keeps_original_witness:
  "case run_state (landin_replace_update_locked 1 ''new text'' 100) lease_world of (r, t) \<Rightarrow>
     r = 0 \<longrightarrow> content_of (w_fs t) (1, 5) = Some ''new text''"
proof -
  have "alone lease_world" "find (\<lambda>l. l_token l = 1) (f_leases lease_world) = Some (hd (f_leases lease_world))"
    "fd_objs lease_world (l_fd (hd (f_leases lease_world))) = Some (1, 5)"
    "fd_objs lease_world (l_parent (hd (f_leases lease_world))) = Some (1, 1)"
    "0 \<le> l_parent (hd (f_leases lease_world))"
    "content_of (w_fs lease_world) (1, 5) = Some ''old''"
    by (simp_all add: alone_def lease_world_def fd_objs_def sample_desc_def content_of_def sample_fs_def
        new_inode_def)
  from format_replace_keeps_original [OF this surjective_pairing, of "''new text''" 100]
  show ?thesis by (simp add: case_prod_beta)
qed

end
