(* ===== verification/LoopClaims.thy ===== *)
theory LoopClaims
  imports FormatFacts
begin

text \<open>
  Properties of the loops every component reads and writes with: what the channel delivers, the
  buffer of the reading loop, and what it reads.
\<close>

section \<open>Properties\<close>

text \<open>
  C15. What the channel delivers. A write to the channel appends a prefix of the item to what the
  descriptor has taken, all of it when the result is 0, and nothing to any other descriptor,
  however often it is interrupted and however the host splits it.
\<close>

theorem channel_write_delivers:
  assumes "landin_channel_write fd item len c = (r, t)"
  shows "(r = 0 \<or> r = -1) \<and> (\<exists>k \<le> length (take (nat len) item).
     c_sent t = (c_sent c)(fd := c_sent c fd @ take k (take (nat len) item))
     \<and> (r = 0 \<longrightarrow> k = length (take (nat len) item)))"
proof (cases "len \<le> 0")
  case True
  with assms show ?thesis by (auto simp: landin_channel_write_def)
next
  case False
  with assms have "channel_write_from fd (take (nat len) item) c = (r, t)"
    by (simp add: landin_channel_write_def)
  from channel_write_sends [OF this] have r: "r = 0 \<or> r = -1"
    and s: "sends (sys_write_stream fd) (take (nat len) item) c (r = 0) t" by auto
  from channel.sends_prefix [OF s, of "c_sent c"] r show ?thesis by (auto simp: fun_eq_iff)
qed

lemma channel_write_delivers_witness:
  "case landin_channel_write 1 ''hello'' 5 \<lparr>c_input = [], c_sent = (\<lambda>_. []), c_errno = EOK, c_turns = []\<rparr> of
     (r, t) \<Rightarrow> r = 0 \<longrightarrow> c_sent t 1 = ''hello''"
  using channel_write_delivers [OF surjective_pairing, of 1 "''hello''" 5
      "\<lparr>c_input = [], c_sent = (\<lambda>_. []), c_errno = EOK, c_turns = []\<rparr>"]
  by (auto simp: case_prod_beta)

text \<open>
  C12. The buffer of the reading loop. Whatever the host returns, the bytes read and their final NUL
  fit the buffer, and its size never passes \<open>SIZE_MAX\<close>: the doubling does not wrap around.
\<close>

theorem read_buffer_bounds:
  assumes "pread_loop overflow fd [] capacity w = (Some (bs, room), t)"
    and "0 < capacity" and "capacity \<le> SIZE_MAX"
  shows "length bs < room \<and> room \<le> SIZE_MAX"
  by (rule pread_loop_room [OF assms(1) _ assms(2,3)]) simp

text \<open>
  C13. Reading a file. When no other process changes the file, the bytes read are exactly its
  contents, although reads may be interrupted, fail, or return less than was asked for.
\<close>

theorem read_bytes_exact:
  assumes "alone w" and "map_of (w_fds w) fd = Some ds" and "content_of (w_fs w) (d_obj ds) = Some b"
    and "run_state (read_bytes fd) w = (Some bs, t)"
  shows "bs = b"
proof -
  obtain made w1 where made: "run_state alloc w = (made, w1)" by fastforce
  then have w1: "alone w1" "w_fds w1 = w_fds w" "w_fs w1 = w_fs w"
    using alloc_alone [OF assms(1), of True made w1] by simp_all
  obtain got u where loop: "pread_loop EFBIG fd [] 4096 w1 = (got, u)" by fastforce
  with assms(4) made have got: "map_option fst got = Some bs" by (auto simp: read_bytes_def split: if_splits)
  from pread_loop_alone [OF loop w1(1)] w1 assms(2,3) got show ?thesis by auto
qed

text \<open>The sample's file, read from its descriptor.\<close>

lemma lease_read:
  "pread_loop EFBIG 4 [] 4096 lease_world = (Some (''old'', 4096), lease_world)"
proof -
  have turns: "w_turns lease_world = []" by (simp add: lease_world_def)
  have rd: "run_state (sys_pread 4 n k) lease_world = (Some (take n (drop k ''old'')), lease_world)" for n k
    unfolding sys_pread_def call_no_turn [OF turns]
    by (simp add: lease_world_def fd_obj_def sample_desc_def sample_fs_def new_inode_def short_read_def idle_turn_def)
  show ?thesis by (simp add: pread_loop.simps rd Let_def)
qed

lemma read_buffer_bounds_witness: "length ''old'' < (4096 :: nat) \<and> (4096 :: nat) \<le> SIZE_MAX"
  by (rule read_buffer_bounds [OF lease_read]) (simp_all add: SIZE_MAX_def)

lemma read_bytes_exact_witness: "fst (run_state (read_bytes 4) lease_world) = Some ''old''"
proof -
  have turns: "w_turns lease_world = []" by (simp add: lease_world_def)
  have run: "run_state (read_bytes 4) lease_world = (Some ''old'', lease_world)"
    by (simp add: read_bytes_def alloc_def call_no_turn [OF turns] lease_read)
  have "alone lease_world" "map_of (w_fds lease_world) 4 = Some (sample_desc 5\<lparr>d_write := True\<rparr>)"
    "content_of (w_fs lease_world) (d_obj (sample_desc 5\<lparr>d_write := True\<rparr>)) = Some ''old''"
    by (simp_all add: alone_def lease_world_def sample_desc_def content_of_def sample_fs_def new_inode_def)
  from read_bytes_exact [OF this run] run show ?thesis by simp
qed

end
