(* ===== verification/WriteFacts.thy ===== *)
theory WriteFacts
  imports LoopClaims
begin

text \<open>
  The write of private and staged files: everything at the start, the file cut there, synced,
  closed. The loop is a third instance of the contract of \<open>TransferLoops\<close>, over the descriptor's
  own position.
\<close>

section \<open>Writes at the descriptor's position\<close>

definition fput :: "int \<Rightarrow> bytes \<Rightarrow> 'z world_scheme \<Rightarrow> int \<times> 'z world_scheme" where
  "fput fd data w = run_state (sys_write fd data) w"

definition fsent :: "int \<Rightarrow> 'z world_scheme \<Rightarrow> bytes" where
  "fsent fd w = (case map_of (w_fds w) fd of None \<Rightarrow> []
     | Some ds \<Rightarrow> (case content_of (w_fs w) (d_obj ds) of None \<Rightarrow> [] | Some b \<Rightarrow> take (d_pos ds) b))"

definition fgood :: "int \<Rightarrow> oid \<Rightarrow> bytes \<Rightarrow> 'z world_scheme \<Rightarrow> 'z world_scheme \<Rightarrow> bool" where
  "fgood fd ob b0 w0 w \<longleftrightarrow> alone w \<and> fd_objs w = fd_objs w0 \<and> only_file ob (w_fs w0) (w_fs w)
     \<and> (\<exists>ds b. map_of (w_fds w) fd = Some ds \<and> d_obj ds = ob \<and> content_of (w_fs w) ob = Some b
          \<and> d_pos ds \<le> length b \<and> drop (d_pos ds) b = drop (d_pos ds) b0)"

lemma write_alone:
  assumes "alone w" and "run_state (sys_write fd data) w = (n, t)"
    and fd: "map_of (w_fds w) fd = Some ds" and b: "content_of (w_fs w) (d_obj ds) = Some b"
  shows "alone t \<and> (n < 0 \<and> w_fs t = w_fs w \<and> w_fds t = w_fds w \<or> 0 \<le> n \<and> nat n \<le> length data
      \<and> w_fs t = write_obj (d_obj ds) (splice (d_pos ds) (take (nat n) data) b) (w_fs w)
      \<and> w_fds t = al_adjust fd (\<lambda>x. x\<lparr>d_pos := d_pos x + nat n\<rparr>) (w_fds w))"
proof -
  obtain tn w1 where n: "next_turn w = (tn, w1)" by fastforce
  from alone_turn [OF assms(1) n] have w1: "alone w1" "w_fs w1 = w_fs w" "w_fds w1 = w_fds w" by auto
  from assms(2) n w1 fd b show ?thesis
    by (cases "t_fault tn")
      (auto simp: sys_write_def call_def Let_def short_write_def log_def split: if_splits option.splits)
qed

text \<open>A write at a position within the file moves the position and keeps what follows.\<close>

lemma splice_step:
  assumes "p \<le> length b" and "k \<le> length data"
  shows "p + k \<le> length (Host.splice p (take k data) b)"
    and "take (p + k) (Host.splice p (take k data) b) = take p b @ take k data"
    and "drop (p + k) (Host.splice p (take k data) b) = drop (p + k) b"
  using splice_length [OF assms(1), of "take k data"] take_splice [OF assms(1), of "take k data"]
    drop_splice [OF assms(1), of "take k data"] assms(2) by simp_all

lemma fput_step:
  assumes "fgood fd ob b0 w0 w" and "fput fd data w = (n, t)"
  shows "fgood fd ob b0 w0 t \<and> fsent fd t = fsent fd w @ take (nat n) data \<and> nat n \<le> length data"
proof -
  from assms(1) obtain ds b where w: "alone w" "fd_objs w = fd_objs w0" "only_file ob (w_fs w0) (w_fs w)"
    and ds: "map_of (w_fds w) fd = Some ds" "d_obj ds = ob"
    and b: "content_of (w_fs w) ob = Some b" "d_pos ds \<le> length b" "drop (d_pos ds) b = drop (d_pos ds) b0"
    by (auto simp: fgood_def)
  have cw: "content_of (w_fs w) (d_obj ds) = Some b" using ds b by simp
  note step = write_alone [OF w(1) assms(2) [unfolded fput_def] ds(1) cw]
  then consider (failed) "n < 0" "w_fs t = w_fs w" "w_fds t = w_fds w"
    | (wrote) "0 \<le> n" "nat n \<le> length data"
        "w_fs t = write_obj ob (Host.splice (d_pos ds) (take (nat n) data) b) (w_fs w)"
        "w_fds t = al_adjust fd (\<lambda>x. x\<lparr>d_pos := d_pos x + nat n\<rparr>) (w_fds w)"
    using ds(2) by auto
  then show ?thesis
  proof cases
    case failed
    with step w ds b show ?thesis by (auto simp: fgood_def fsent_def fd_objs_def)
  next
    case wrote
    let ?c = "Host.splice (d_pos ds) (take (nat n) data) b"
    note s = splice_step [OF b(2) wrote(2)]
    have d: "drop (d_pos ds + nat n) b = drop (d_pos ds + nat n) b0"
      using b(3) by (metis add.commute drop_drop)
    have c: "content_of (w_fs t) x = (if x = ob then Some ?c else content_of (w_fs w) x)" for x
      unfolding wrote(3) by (rule content_write_obj [OF b(1)])
    have l: "fs_lookup (w_fs t) = fs_lookup (w_fs w)"
      unfolding wrote(3) by (rule lookup_write_obj [OF b(1)])
    have o: "fd_objs t = fd_objs w"
      by (auto simp: fd_objs_def wrote(4) fun_eq_iff option.map_comp comp_def)
    have f: "map_of (w_fds t) fd = Some (ds\<lparr>d_pos := d_pos ds + nat n\<rparr>)" by (simp add: wrote(4) ds)
    from step have "alone t" by simp
    with w ds b c l o f s d wrote(2) show ?thesis
      by (simp add: fgood_def fsent_def only_file_def)
  qed
qed

interpretation streamed: sender "fput fd" "fsent fd" "fgood fd ob b0 w0"
  for fd :: int and ob :: oid and b0 :: bytes and w0 :: "'z world_scheme"
  by unfold_locales (auto dest: fput_step)

lemma write_fully_sends:
  "write_fully True fd data w = (r, t) \<Longrightarrow> sends (fput fd) data w r t"
proof (induction "True" fd data w rule: write_fully.induct)
  case (1 fd data w)
  obtain n w1 where one: "run_state (sys_write fd data) w = (n, w1)" by fastforce
  then have put: "fput fd data w = (n, w1)" by (simp add: fput_def)
  consider "data = []" | "data \<noteq> []" "n < 0" "w_errno w1 = EINTR"
    | "data \<noteq> []" "n \<le> 0" "n < 0 \<longrightarrow> w_errno w1 \<noteq> EINTR" | "data \<noteq> []" "0 < n" by force
  then show ?case
  proof cases
    case 1
    with "1.prems" show ?thesis by (auto simp: write_fully.simps intro: sends.all)
  next
    case 2
    with "1.prems" one have "write_fully True fd data w1 = (r, t)"
      by (subst (asm) (1) write_fully.simps) simp
    with "1.hyps"(1) [OF 2(1) one [symmetric]] 2 have "sends (fput fd) data w1 r t" by simp
    then show ?thesis by (rule sends.again [of "fput fd", OF put 2(2)])
  next
    case 3
    with "1.prems" one have "\<not> r" "t = w1" by (subst (asm) (1) write_fully.simps; auto)+
    then show ?thesis using sends.stop [of "fput fd", OF put 3(2)] by simp
  next
    case 4
    with "1.prems" one have "write_fully True fd (drop (nat n) data) w1 = (r, t)"
      by (subst (asm) (1) write_fully.simps) simp
    with "1.hyps"(2) [OF 4(1) one [symmetric]] 4 have "sends (fput fd) (drop (nat n) data) w1 r t"
      by simp
    then show ?thesis using sends.more [of "fput fd", OF put] 4(2) by simp
  qed
qed

lemma quiet_write_fully:
  assumes q: "quiet F C N w" and fd: "map_of (w_fds w) fd = Some ds" "d_pos ds = 0"
    and F: "F fd = Some (d_obj ds)" and C: "C (d_obj ds) = Some b"
    and part: "\<And>t k. k \<le> length data \<Longrightarrow>
      quiet F (C(d_obj ds \<mapsto> take k data @ drop k b)) N t \<Longrightarrow> Q False t"
    and wrote: "\<And>t. quiet F (C(d_obj ds \<mapsto> data @ drop (length data) b)) N t \<Longrightarrow> Q True t"
  shows "wp (State (write_fully True fd data)) Q w"
proof (rule wpI)
  fix r t
  assume "run_state (State (write_fully True fd data)) w = (r, t)"
  then have s: "sends (fput fd) data w r t" by (simp add: write_fully_sends)
  have b: "content_of (w_fs w) (d_obj ds) = Some b" by (rule quiet_content [OF q C])
  have g: "fgood fd (d_obj ds) b w w"
    using fd b quiet_alone [OF q] by (simp add: fgood_def only_file_def)
  from streamed.sends_prefix [OF s g] obtain k where t: "fgood fd (d_obj ds) b w t"
    and k: "k \<le> length data" "r \<longrightarrow> k = length data" "fsent fd t = take k data"
    using fd by (auto simp: fsent_def [of fd w] split: option.splits)
  from t obtain dt c where at: "alone t" "fd_objs t = fd_objs w" "only_file (d_obj ds) (w_fs w) (w_fs t)"
    and dt: "map_of (w_fds t) fd = Some dt" "d_obj dt = d_obj ds"
    and c: "content_of (w_fs t) (d_obj ds) = Some c" "d_pos dt \<le> length c"
      "drop (d_pos dt) c = drop (d_pos dt) b"
    by (auto simp: fgood_def)
  have p: "take (d_pos dt) c = take k data" using k(3) dt c by (simp add: fsent_def)
  then have "length (take (d_pos dt) c) = length (take k data)" by simp
  with c(2) k(1) have "d_pos dt = k" by simp
  then have "c = take k data @ drop k b" using p c(3) by (metis append_take_drop_id)
  with quiet_change_objs [OF q at c(1)]
  have "quiet F (C(d_obj ds \<mapsto> take k data @ drop k b)) N t" by simp
  with k part wrote show "Q r t" by (cases r) auto
qed

section \<open>The whole write\<close>

lemma quiet_fstat_fds:
  assumes "quiet F C N w" and "\<And>r t. quiet F C N t \<Longrightarrow> w_fds t = w_fds w \<Longrightarrow> Q r t"
  shows "wp (sys_fstat fd) Q w"
proof -
  obtain tn w1 where n: "next_turn w = (tn, w1)" by fastforce
  from assms(1) n have q: "quiet F C N w1" by (rule quiet_turn)
  from alone_turn [OF quiet_alone [OF assms(1)] n] have "w_fds w1 = w_fds w" by simp
  with q n assms(2) show ?thesis
    by (auto simp: wp_def sys_fstat_def call_def split: option.splits sum.splits)
qed

lemma quiet_fsync:
  assumes "quiet F C N w" and "\<And>t. quiet F C N t \<Longrightarrow> Q (-1) t" and "\<And>t. quiet F C N t \<Longrightarrow> Q 0 t"
  shows "wp (sys_fsync fd) Q w"
  unfolding sys_fd_only_def using assms(1,2)
  by (rule quietly.on_call) (use assms(3) in \<open>auto split: sum.splits\<close>)

lemma quiet_cut_and_sync:
  assumes w: "quiet F (C(ob \<mapsto> bs @ rest)) N (w :: 'z world_scheme)" and F: "F fd = Some ob"
    and bad: "\<And>t :: 'z world_scheme. quiet (F(fd := None)) (C(ob \<mapsto> bs @ rest)) N t \<Longrightarrow> Q (-1) t"
    and cut: "\<And>r (t :: 'z world_scheme). r = 0 \<or> r = -1 \<Longrightarrow> quiet (F(fd := None)) (C(ob \<mapsto> bs)) N t \<Longrightarrow> Q r t"
  shows "wp (do { c \<leftarrow> sys_ftruncate fd (length bs);
      result \<leftarrow> (if c = 0 then sys_fsync fd else ret c); sys_close fd; ret result }) Q w"
proof (rule wp_seq, rule quiet_ftruncate [OF w F])
  show "(C(ob \<mapsto> bs @ rest)) ob = Some (bs @ rest)" by simp
next
  fix u :: "'z world_scheme"
  assume "quiet F (C(ob \<mapsto> bs @ rest)) N u"
  then have "wp (sys_close fd) (\<lambda>r. Q (-1)) u" using bad by (rule quiet_close)
  then show "wp (do { result \<leftarrow> (if (-1 :: int) = 0 then sys_fsync fd else ret (-1));
      sys_close fd; ret result }) Q u" by simp
next
  fix u :: "'z world_scheme"
  assume "quiet F (C(ob \<mapsto> bs @ rest, ob \<mapsto> take (length bs)
      ((bs @ rest) @ replicate (length bs - length (bs @ rest)) (CHR 0x00)))) N u"
  then have u: "quiet F (C(ob \<mapsto> bs)) N u" by simp
  have "wp (sys_close fd) (\<lambda>_. Q r) t" if "quiet F (C(ob \<mapsto> bs)) N t" "r = 0 \<or> r = -1"
    for t :: "'z world_scheme" and r using that(1) by (rule quiet_close) (rule cut [OF that(2)])
  then have "wp (sys_fsync fd) (\<lambda>r. wp (sys_close fd) (\<lambda>_. Q r)) u" by (intro quiet_fsync [OF u]) simp_all
  then show "wp (do { result \<leftarrow> (if (0 :: int) = 0 then sys_fsync fd else ret 0);
      sys_close fd; ret result }) Q u" by simp
qed

text \<open>The descriptor's file afterwards: a part written over the old content, or the new content.\<close>

lemma quiet_write_truncate_sync:
  assumes q: "quiet F C N (w :: 'z world_scheme)"
    and fd: "map_of (w_fds w) fd = Some ds" "d_pos ds = 0"
    and F: "F fd = Some (d_obj ds)" and C: "C (d_obj ds) = Some b"
    and part: "\<And>(t :: 'z world_scheme) k. k \<le> length bs \<Longrightarrow>
      quiet (F(fd := None)) (C(d_obj ds \<mapsto> take k bs @ drop k b)) N t \<Longrightarrow> Q (-1) t"
    and cut: "\<And>r (t :: 'z world_scheme). r = 0 \<or> r = -1 \<Longrightarrow>
      quiet (F(fd := None)) (C(d_obj ds \<mapsto> bs)) N t \<Longrightarrow> Q r t"
  shows "wp (write_truncate_sync fd bs) Q w"
  unfolding write_truncate_sync_def
proof (rule wp_seq, rule quiet_fstat_fds [OF q])
  fix st and t :: "'z world_scheme"
  assume t: "quiet F C N t" "w_fds t = w_fds w"
  have give_up: "wp (sys_close fd) (\<lambda>_. Q (-1)) u"
    if "k \<le> length bs" "quiet F (C(d_obj ds \<mapsto> take k bs @ drop k b)) N u" for u :: "'z world_scheme" and k
    using that(2) by (rule quiet_close) (rule part [OF that(1)])
  have finish: "wp (do { c \<leftarrow> sys_ftruncate fd (length bs);
      result \<leftarrow> (if c = 0 then sys_fsync fd else ret c); sys_close fd; ret result }) Q u"
    if "quiet F (C(d_obj ds \<mapsto> bs @ drop (length bs) b)) N u" for u :: "'z world_scheme"
    using that F by (rule quiet_cut_and_sync) (use part [of "length bs"] cut in simp_all)
  have "wp (State (write_fully True fd bs)) (\<lambda>r u. wp (if \<not> r then do { sys_close fd; ret (-1) }
      else do { c \<leftarrow> sys_ftruncate fd (length bs);
        result \<leftarrow> (if c = 0 then sys_fsync fd else ret c); sys_close fd; ret result }) Q u) t"
  proof (rule quiet_write_fully [OF t(1) _ fd(2) F C])
    show "map_of (w_fds t) fd = Some ds" using t(2) fd(1) by simp
  next
    fix u :: "'z world_scheme" and k
    assume "k \<le> length bs" "quiet F (C(d_obj ds \<mapsto> take k bs @ drop k b)) N u"
    then show "wp (if \<not> False then do { sys_close fd; ret (-1) } else do { c \<leftarrow> sys_ftruncate fd (length bs);
        result \<leftarrow> (if c = 0 then sys_fsync fd else ret c); sys_close fd; ret result }) Q u"
      using give_up by simp
  qed (use finish in simp)
  moreover have "wp (sys_close fd) (\<lambda>_ u. Q (-1) (u\<lparr>w_errno := EINVAL\<rparr>)) t"
    using t(1) by (rule quiet_close) (use part [of 0] C in \<open>simp add: fun_upd_idem\<close>)
  ultimately show "wp (if case st of None \<Rightarrow> True | Some s \<Rightarrow> \<not> S_ISREG s
      then do { sys_close fd; fail_with EINVAL }
      else do { wrote \<leftarrow> State (write_fully True fd bs);
        if \<not> wrote then do { sys_close fd; ret (-1) }
        else do { c \<leftarrow> sys_ftruncate fd (length bs);
          result \<leftarrow> (if c = 0 then sys_fsync fd else ret c); sys_close fd; ret result } }) Q t"
    by (simp add: fail_with_def set_errno_def)
qed

text \<open>Without interference nothing fails: the result is then 0.\<close>

lemma write_unhindered:
  assumes "w_turns w = []" and "map_of (w_fds w) fd = Some ds" and "d_write ds"
    and "content_of (w_fs w) (d_obj ds) = Some b"
  shows "\<exists>t. write_fully True fd data w = (True, t) \<and> w_turns t = []
    \<and> map_of (w_fds t) fd = Some (ds\<lparr>d_pos := d_pos ds + length data\<rparr>)
    \<and> content_of (w_fs t) (d_obj ds) \<noteq> None"
proof (cases "data = []")
  case True
  with assms show ?thesis by (simp add: write_fully.simps)
next
  case False
  let ?t = "log (Wrote (d_obj ds)) (w\<lparr>w_fs := write_obj (d_obj ds) (Host.splice (d_pos ds) data b) (w_fs w),
    w_fds := al_adjust fd (\<lambda>x. x\<lparr>d_pos := d_pos x + length data\<rparr>) (w_fds w)\<rparr>)"
  have one: "run_state (sys_write fd data) w = (int (length data), ?t)"
    using assms by (simp add: sys_write_def call_no_turn Let_def short_write_def idle_turn_def)
  have "write_fully True fd data w = (True, ?t)"
    using False one by (subst write_fully.simps) (simp add: write_fully.simps)
  moreover have "w_turns ?t = []" "map_of (w_fds ?t) fd = Some (ds\<lparr>d_pos := d_pos ds + length data\<rparr>)"
    "content_of (w_fs ?t) (d_obj ds) \<noteq> None"
    using assms by (simp_all add: log_def content_write_obj)
  ultimately show ?thesis by blast
qed

lemma cut_and_sync_unhindered:
  assumes "w_turns w = []" and "map_of (w_fds w) fd = Some ds" and "d_write ds"
    and "content_of (w_fs w) (d_obj ds) = Some b"
  shows "fst (run_state (do { c \<leftarrow> sys_ftruncate fd n;
      result \<leftarrow> (if c = 0 then sys_fsync fd else ret c); sys_close fd; ret result }) w) = 0"
proof -
  let ?t = "log (Truncated (d_obj ds)) (w\<lparr>w_fs := write_obj (d_obj ds)
    (take n (b @ replicate (n - length b) (CHR 0x00))) (w_fs w)\<rparr>)"
  have t: "w_turns ?t = []" "map_of (w_fds ?t) fd = Some ds" using assms by (simp_all add: log_def)
  have "run_state (sys_ftruncate fd n) w = (0, ?t)"
    using assms by (simp add: sys_ftruncate_def call_no_turn)
  moreover have "run_state (sys_fsync fd) ?t = (0, ?t)"
    using t by (simp add: sys_fd_only_def call_no_turn fd_obj_def)
  ultimately show ?thesis by (simp add: case_prod_beta)
qed

lemma write_truncate_sync_unhindered:
  assumes w: "w_turns w = []" and fd: "map_of (w_fds w) fd = Some ds" and ok: "d_write ds"
    and b: "content_of (w_fs w) (d_obj ds) = Some b"
  shows "fst (run_state (write_truncate_sync fd bs) w) = 0"
proof -
  obtain st where st: "stat_of (w_fs w) (d_obj ds) = Some st" "S_ISREG st"
    using b by (auto simp: content_of_def stat_of_def S_ISREG_def split: option.splits node.splits)
  then have stat: "run_state (sys_fstat fd) w = (Some st, w)"
    using w fd by (simp add: sys_fstat_def call_no_turn fd_obj_def)
  from write_unhindered [OF w fd ok b, of bs] obtain t c where
    t: "write_fully True fd bs w = (True, t)" "w_turns t = []"
      "map_of (w_fds t) fd = Some (ds\<lparr>d_pos := d_pos ds + length bs\<rparr>)"
      "content_of (w_fs t) (d_obj ds) = Some c" by auto
  then have "fst (run_state (do { c \<leftarrow> sys_ftruncate fd (length bs);
      result \<leftarrow> (if c = 0 then sys_fsync fd else ret c); sys_close fd; ret result }) t) = 0"
    by (intro cut_and_sync_unhindered [OF t(2,3)]) (simp_all add: ok)
  with stat st t(1) show ?thesis by (simp add: write_truncate_sync_def)
qed


section \<open>Property\<close>

text \<open>
  C14. Writing a private or staged file. When no other process changes the files, the write through a
  fresh descriptor returns 0 only with exactly the given bytes in the file; a failure leaves them
  there or a prefix of them over the old content. It changes no other file and no name, keeps every
  other descriptor, and succeeds where the host lets every call through.
\<close>

theorem file_write_exact:
  assumes "alone w" and fd: "map_of (w_fds w) fd = Some ds" "d_pos ds = 0"
    and b: "content_of (w_fs w) (d_obj ds) = Some b"
    and run: "run_state (write_truncate_sync fd bs) w = (r, t)"
  shows "(r = 0 \<or> r = -1)
    \<and> (content_of (w_fs t) (d_obj ds) = Some bs \<or> r = -1 \<and> (\<exists>k \<le> length bs.
         content_of (w_fs t) (d_obj ds) = Some (take k bs @ drop k b)))
    \<and> (content_of (w_fs w))(d_obj ds := None) \<subseteq>\<^sub>m content_of (w_fs t)
    \<and> (\<lambda>(d, n). fs_lookup (w_fs w) d n) \<subseteq>\<^sub>m (\<lambda>(d, n). fs_lookup (w_fs t) d n)
    \<and> (fd_objs w)(fd := None) \<subseteq>\<^sub>m fd_objs t
    \<and> (w_turns w = [] \<and> d_write ds \<longrightarrow> r = 0)"
proof -
  let ?F = "fd_objs w" and ?C = "content_of (w_fs w)" and ?N = "\<lambda>(d, n). fs_lookup (w_fs w) d n"
  let ?after = "\<lambda>c t. quiet (?F(fd := None)) (?C(d_obj ds \<mapsto> c)) ?N t"
  have q: "quiet ?F ?C ?N w" using assms(1) by (simp add: quiet_def)
  have F: "?F fd = Some (d_obj ds)" using fd by (simp add: fd_objs_def)
  have "wp (write_truncate_sync fd bs) (\<lambda>r t. (r = 0 \<or> r = -1) \<and> (\<exists>c. ?after c t
      \<and> (c = bs \<or> r = -1 \<and> (\<exists>k \<le> length bs. c = take k bs @ drop k b)))) w"
    by (rule quiet_write_truncate_sync [OF q fd F b]) blast+
  with run obtain c where c: "r = 0 \<or> r = -1" "?after c t"
      "c = bs \<or> r = -1 \<and> (\<exists>k \<le> length bs. c = take k bs @ drop k b)"
    by (auto simp: wp_def)
  have "content_of (w_fs t) (d_obj ds) = Some c" by (rule quiet_content [OF c(2)]) simp
  moreover have "?C(d_obj ds := None) \<subseteq>\<^sub>m ?C(d_obj ds \<mapsto> c)" by (auto simp: map_le_def)
  with c(2) have "?C(d_obj ds := None) \<subseteq>\<^sub>m content_of (w_fs t)"
    unfolding quiet_def by (blast intro: map_le_trans)
  moreover have "w_turns w = [] \<and> d_write ds \<longrightarrow> r = 0"
    using write_truncate_sync_unhindered [OF _ fd(1) _ b, of bs] run by (metis fst_conv)
  ultimately show ?thesis using c by (auto simp: quiet_def)
qed

theorem file_write_exact_witness:
  "case run_state (write_truncate_sync 4 ''new'') lease_world of
     (r, t) \<Rightarrow> r = 0 \<and> content_of (w_fs t) (1, 5) = Some ''new''"
proof -
  have "alone lease_world" "map_of (w_fds lease_world) 4 = Some (sample_desc 5\<lparr>d_write := True\<rparr>)"
    "d_pos (sample_desc 5\<lparr>d_write := True\<rparr>) = 0"
    "content_of (w_fs lease_world) (d_obj (sample_desc 5\<lparr>d_write := True\<rparr>)) = Some ''old''"
    "w_turns lease_world = []"
    by (simp_all add: alone_def lease_world_def sample_desc_def content_of_def sample_fs_def new_inode_def)
  with file_write_exact [OF this(1-4) surjective_pairing, of "''new''"]
  show ?thesis by (auto simp: case_prod_beta sample_desc_def)
qed

end
