(* ===== verification/CustodyRules.thy ===== *)
theory CustodyRules
  imports PublicationSafety FormatFacts
begin

text \<open>
  Rules of the publication's calls on a host where no other process interferes: where its names
  lead and what its files hold, with the registries. Any call may still fail or be interrupted.
\<close>

named_theorems still_rules \<open>rules of the calls under an undisturbed file system\<close>

section \<open>Calls\<close>

definition still :: "(int \<rightharpoonup> oid) \<Rightarrow> (oid \<rightharpoonup> bytes) \<Rightarrow> (oid \<times> cstring \<rightharpoonup> oid) \<Rightarrow> 'z \<Rightarrow> 'z world_scheme \<Rightarrow> bool" where
  "still F C N M w \<longleftrightarrow> quiet F C N w \<and> world.more w = M"

lemma still_quiet: "still F C N M w \<Longrightarrow> quiet F C N w"
  by (simp add: still_def)

lemma still_errno [simp]: "still F C N M (w\<lparr>w_errno := e\<rparr>) \<longleftrightarrow> still F C N M w"
  by (simp add: still_def)

lemma still_turn: "still F C N M w \<Longrightarrow> next_turn w = (t, w1) \<Longrightarrow> still F C N M w1"
  using quiet_turn [of F C N w t w1] by (auto simp: still_def next_turn_def split: list.splits)

lemma still_weaken: "still F C N M w \<Longrightarrow> G \<subseteq>\<^sub>m F \<Longrightarrow> D \<subseteq>\<^sub>m C \<Longrightarrow> K \<subseteq>\<^sub>m N \<Longrightarrow> still G D K M w"
  unfolding still_def by (blast intro: quiet_weaken)

interpretation stilled: reading "still F C N M" "\<lambda>fd. F fd = None"
  for F :: "int \<rightharpoonup> oid" and C :: "oid \<rightharpoonup> bytes" and N :: "oid \<times> cstring \<rightharpoonup> oid" and M :: 'z
proof unfold_locales
  fix w u :: "'z world_scheme" and n k ds
  assume "still F C N M w" and o: "open_fd k ds w = (n, u)"
  moreover have "world.more u = world.more w" using o by (auto simp: open_fd_def Let_def)
  ultimately show "0 \<le> n \<and> F n = None \<and> still F C N M u"
    using quietly.opened [OF _ o, of F C N] by (simp add: still_def)
next
  fix w v :: "'z world_scheme" and event path x
  assume "still F C N M w" and "run_state (barrier event path) w = (x, v)"
  then show "still F C N M v" by (simp add: barrier_def still_def quiet_def alone_def)
qed (auto simp: still_turn, simp add: still_def quiet_del_fd)

lemmas still_calls [still_rules] = stilled.calls stilled.descriptors stilled.reads

section \<open>Changes of the name space\<close>

lemma add_link_effect: "content_of (add_link ob f) = content_of f" "fs_lookup (add_link ob f) = fs_lookup f"
proof -
  have "dir_of (add_link ob f) = dir_of f"
    by (auto simp: dir_of_def add_link_def fun_eq_iff split: option.splits)
  then show "fs_lookup (add_link ob f) = fs_lookup f" by (simp add: fs_lookup_def fun_eq_iff)
qed (auto simp: content_of_def add_link_def fun_eq_iff split: option.splits)

lemma still_same_host:
  assumes "still F C N M t" and "w_turns u = w_turns t" and "w_hook u = w_hook t" and "w_fds u = w_fds t"
    and "world.more u = world.more t" and "content_of (w_fs u) = content_of (w_fs t)"
    and "K \<subseteq>\<^sub>m (\<lambda>(d, n). fs_lookup (w_fs u) d n)"
  shows "still F C K M u"
  using assms by (simp add: still_def quiet_def alone_def fd_objs_def)

lemma map_le_lookups: "still F C N M t \<Longrightarrow> N \<subseteq>\<^sub>m (\<lambda>(d, n). fs_lookup (w_fs t) d n)"
  by (simp add: still_def quiet_def)

lemma still_known:
  assumes "still F C N M t" and "fs_lookup (w_fs t) d n = x"
  shows "N (d, n) = None \<or> N (d, n) = x"
proof (cases "N (d, n)")
  case (Some ob)
  with quiet_name [OF still_quiet [OF assms(1)] Some] assms(2) show ?thesis by simp
qed simp

lemma still_dir:
  assumes "still F C N M t" and "F fd = Some d"
  shows "fd_dir t fd = (case dir_of (w_fs t) d of None \<Rightarrow> Inl ENOTDIR | Some es \<Rightarrow> Inr (d, es))"
  using quiet_fd [OF still_quiet [OF assms(1)] assms(2)] by (auto simp: fd_dir_def fd_obj_def)

lemma map_le_learn: "f \<subseteq>\<^sub>m g \<Longrightarrow> g x = Some y \<Longrightarrow> f(x \<mapsto> y) \<subseteq>\<^sub>m g"
  by (auto simp: map_le_def)

lemma still_learn: "still F C N M t \<Longrightarrow> fs_lookup (w_fs t) d n = Some ob \<Longrightarrow> still F C (N((d, n) \<mapsto> ob)) M t"
  unfolding still_def quiet_def by (elim conjE, intro conjI map_le_learn) simp_all

text \<open>A status names the object the entry leads to.\<close>

lemma still_fstatat:
  assumes "still F C N M (w :: 'z world_scheme)" and F: "F fd = Some d"
    and none: "\<And>t. still F C N M t \<Longrightarrow> Q None t"
    and some: "\<And>s t. N (d, nm) = None \<or> N (d, nm) = Some (st_id s) \<Longrightarrow>
      still F C (N((d, nm) \<mapsto> st_id s)) M t \<Longrightarrow> Q (Some s) t"
  shows "wp (sys_fstatat fd nm) Q w"
  unfolding sys_fstatat_def using assms(1) none
proof (rule stilled.on_call)
  fix tn r and t u :: "'z world_scheme"
  assume t: "still F C N M t" and act: "(case fd_dir t fd of Inl e \<Rightarrow> Inl e
     | Inr (d, es) \<Rightarrow> (case map_of es nm of None \<Rightarrow> Inl ENOENT
         | Some ob \<Rightarrow> (case stat_of (w_fs t) ob of None \<Rightarrow> Inl ENOENT | Some s \<Rightarrow> Inr (Some s, t)))) = Inr (r, u)"
  note dir = still_dir [OF t F]
  from act dir obtain es where es: "dir_of (w_fs t) d = Some es" by (cases "dir_of (w_fs t) d") simp_all
  with act dir obtain ob where ob: "map_of es nm = Some ob" by (cases "map_of es nm") simp_all
  with act dir es obtain s where s: "stat_of (w_fs t) ob = Some s" by (cases "stat_of (w_fs t) ob") simp_all
  with act dir es ob have r: "r = Some s" "u = t" by simp_all
  have "st_id s = ob" using s by (auto simp: stat_of_def st_id_def)
  with es ob have l: "fs_lookup (w_fs t) d nm = Some (st_id s)" by (simp add: fs_lookup_def)
  have "N (d, nm) = None \<or> N (d, nm) = Some (st_id s)" by (rule still_known [OF t l])
  moreover have "still F C (N((d, nm) \<mapsto> st_id s)) M t" by (rule still_learn [OF t l])
  ultimately show "Q r u" using some r by blast
qed

lemma map_le_same: "m y = Some z \<Longrightarrow> m(x := None, y \<mapsto> z) \<subseteq>\<^sub>m m"
  by (simp add: map_le_def)

lemma lookups_eq:
  assumes "\<And>d n. fs_lookup g d n = (if d = d2 \<and> n = n2 then Some ob
      else if d = d1 \<and> n = n1 then None else fs_lookup f d n)"
  shows "(\<lambda>(d, n). fs_lookup g d n) = (\<lambda>(d, n). fs_lookup f d n)((d1, n1) := None, (d2, n2) \<mapsto> ob)"
proof (rule ext)
  fix x :: "oid \<times> cstring"
  obtain d n where "x = (d, n)" by fastforce
  then show "(\<lambda>(d, n). fs_lookup g d n) x = ((\<lambda>(d, n). fs_lookup f d n)((d1, n1) := None, (d2, n2) \<mapsto> ob)) x"
    by (auto simp: assms)
qed

lemma move_entry_effect:
  assumes "dir_of f d1 = Some es1" and "dir_of f d2 = Some es2"
  shows "content_of (move_entry d1 n1 d2 n2 ob f) = content_of f"
    and "fs_lookup (move_entry d1 n1 d2 n2 ob f) d n = (if d = d2 \<and> n = n2 then Some ob
      else if d = d1 \<and> n = n1 then None else fs_lookup f d n)"
proof -
  have "\<exists>es. dir_of (del_entry d1 n1 f) d2 = Some es"
    using assms dir_set_dir [OF assms(1)] by (simp add: del_entry_def)
  then obtain es where es: "dir_of (del_entry d1 n1 f) d2 = Some es" by auto
  show "content_of (move_entry d1 n1 d2 n2 ob f) = content_of f"
    using add_entry_effect(1) [OF es] del_entry_effect(1) [OF assms(1)] by (simp add: move_entry_def)
  show "fs_lookup (move_entry d1 n1 d2 n2 ob f) d n = (if d = d2 \<and> n = n2 then Some ob
      else if d = d1 \<and> n = n1 then None else fs_lookup f d n)"
    using add_entry_effect(2) [OF es] del_entry_effect(2) [OF assms(1)] by (simp add: move_entry_def)
qed

lemma rename_act_effect:
  assumes "rename_act excl fd1 n1 fd2 n2 t = Inr (r, u)"
    and "fd_obj t fd1 = Inr d1" and "fd_obj t fd2 = Inr d2"
  shows "\<exists>ob. r = 0 \<and> fs_lookup (w_fs t) d1 n1 = Some ob \<and> (excl \<longrightarrow> fs_lookup (w_fs t) d2 n2 = None)
    \<and> w_turns u = w_turns t \<and> w_hook u = w_hook t \<and> w_fds u = w_fds t \<and> world.more u = world.more t
    \<and> content_of (w_fs u) = content_of (w_fs t)
    \<and> (\<lambda>(d, n). fs_lookup (w_fs t) d n)((d1, n1) := None, (d2, n2) \<mapsto> ob)
        \<subseteq>\<^sub>m (\<lambda>(d, n). fs_lookup (w_fs u) d n)"
proof -
  from assms obtain es1 es2 ob where es: "dir_of (w_fs t) d1 = Some es1" "dir_of (w_fs t) d2 = Some es2"
      "map_of es1 n1 = Some ob"
    by (auto simp: rename_act_def fd_dir_def split: option.splits sum.splits)
  note c = move_entry_effect(1) [OF es(1,2), of n1 n2 ob]
  note m = lookups_eq [OF move_entry_effect(2) [OF es(1,2), of n1 n2 ob]]
  have l: "fs_lookup (w_fs t) d1 n1 = Some ob" "fs_lookup (w_fs t) d2 n2 = map_of es2 n2"
    using es by (simp_all add: fs_lookup_def)
  show ?thesis
  proof (cases "map_of es2 n2")
    case None
    with assms es have "r = 0" "u = log (Moved d1 n1 d2 n2 ob None) (t\<lparr>w_fs := move_entry d1 n1 d2 n2 ob (w_fs t)\<rparr>)"
      by (auto simp: rename_act_def fd_dir_def split: if_splits)
    with l None show ?thesis by (intro exI [of _ ob]) (simp add: log_def c m)
  next
    case (Some x)
    with assms es have r: "r = 0" "\<not> excl" and u: "x = ob \<and> u = t \<or> x \<noteq> ob \<and>
        u = log (Moved d1 n1 d2 n2 ob (Some x)) (t\<lparr>w_fs := drop_link x (move_entry d1 n1 d2 n2 ob (w_fs t))\<rparr>)"
      by (auto simp: rename_act_def fd_dir_def split: if_splits option.splits)
    from u show ?thesis
    proof
      assume "x = ob \<and> u = t"
      with r l Some show ?thesis
        by (intro exI [of _ ob]) (simp add: map_le_same)
    next
      assume "x \<noteq> ob \<and> u = log (Moved d1 n1 d2 n2 ob (Some x))
        (t\<lparr>w_fs := drop_link x (move_entry d1 n1 d2 n2 ob (w_fs t))\<rparr>)"
      with r l show ?thesis by (intro exI [of _ ob]) (simp add: log_def c m drop_link_effect)
    qed
  qed
qed

lemma still_rename:
  assumes "still F C N M (w :: 'z world_scheme)" and F: "F fd1 = Some d1" "F fd2 = Some d2"
    and bad: "\<And>t. still F C N M t \<Longrightarrow> Q (-1) t"
    and ok: "\<And>ob t. N (d1, n1) = None \<or> N (d1, n1) = Some ob \<Longrightarrow> (excl \<Longrightarrow> N (d2, n2) = None) \<Longrightarrow>
      still F C (N((d1, n1) := None, (d2, n2) \<mapsto> ob)) M t \<Longrightarrow> Q 0 t"
  shows "wp (sys_rename excl fd1 n1 fd2 n2) Q w"
  unfolding sys_rename_call using assms(1) bad
proof (rule stilled.on_call)
  fix tn and r :: int and t u :: "'z world_scheme"
  assume t: "still F C N M t" and act: "rename_act excl fd1 n1 fd2 n2 t = Inr (r, u)"
  have "fd_obj t fd1 = Inr d1" "fd_obj t fd2 = Inr d2"
    using quiet_fd [OF still_quiet [OF t] F(1)] quiet_fd [OF still_quiet [OF t] F(2)]
    by (auto simp: fd_obj_def)
  from rename_act_effect [OF act this] obtain ob where r: "r = 0"
    and l: "fs_lookup (w_fs t) d1 n1 = Some ob" "excl \<longrightarrow> fs_lookup (w_fs t) d2 n2 = None"
    and u: "w_turns u = w_turns t" "w_hook u = w_hook t" "w_fds u = w_fds t" "world.more u = world.more t"
      "content_of (w_fs u) = content_of (w_fs t)"
    and m: "(\<lambda>(d, n). fs_lookup (w_fs t) d n)((d1, n1) := None, (d2, n2) \<mapsto> ob)
        \<subseteq>\<^sub>m (\<lambda>(d, n). fs_lookup (w_fs u) d n)" by blast
  have "N((d1, n1) := None, (d2, n2) \<mapsto> ob)
      \<subseteq>\<^sub>m (\<lambda>(d, n). fs_lookup (w_fs t) d n)((d1, n1) := None, (d2, n2) \<mapsto> ob)"
    using map_le_lookups [OF t] by (auto simp: map_le_def)
  then have "N((d1, n1) := None, (d2, n2) \<mapsto> ob) \<subseteq>\<^sub>m (\<lambda>(d, n). fs_lookup (w_fs u) d n)"
    using m by (rule map_le_trans)
  then have after: "still F C (N((d1, n1) := None, (d2, n2) \<mapsto> ob)) M u" by (rule still_same_host [OF t u])
  have "excl \<Longrightarrow> N (d2, n2) = None" using still_known [OF t, of d2 n2 None] l(2) by simp
  from ok [OF still_known [OF t l(1)] this after] r show "Q r u" by simp
qed

lemma still_more:
  assumes "still F C N M w" and "wp m (\<lambda>r t. quiet (G r) (D r) (K r) t \<and> P r) w"
    and "wp m (\<lambda>r t. sees Map.empty (\<lambda>_. True) (w_log w) M t) w"
    and "\<And>r t. P r \<Longrightarrow> still (G r) (D r) (K r) M t \<Longrightarrow> Q r t"
  shows "wp m Q w"
  using assms(2-4) by (auto simp: wp_def sees_def still_def split: prod.splits)

lemma still_start: "still F C N M w \<Longrightarrow> sees Map.empty (\<lambda>_. True) (w_log w) M w"
  by (simp add: still_def sees_def)

lemma still_unlinkat:
  assumes "still F C N M (w :: 'z world_scheme)" and F: "F fd = Some d"
    and bad: "\<And>t. still F C N M t \<Longrightarrow> Q (-1) t"
    and ok: "\<And>t. still F C (N((d, nm) := None)) M t \<Longrightarrow> Q 0 t"
  shows "wp (sys_unlinkat fd nm rmdir) Q w"
proof (rule still_more [OF assms(1)])
  let ?K = "\<lambda>r. if r = 0 then N((d, nm) := None) else N"
  show "wp (sys_unlinkat fd nm rmdir) (\<lambda>r t. quiet F C (?K r) t \<and> (r = 0 \<or> r = -1)) w"
    by (rule quiet_unlinkat [OF still_quiet [OF assms(1)] F]) simp_all
  show "wp (sys_unlinkat fd nm rmdir) (\<lambda>r t. sees Map.empty (\<lambda>_. True) (w_log w) M t) w"
    by (rule sees_unlinkat [OF still_start [OF assms(1)]]) simp_all
qed (use bad ok in \<open>auto split: if_splits\<close>)

lemma still_linkat:
  assumes "still F C N M (w :: 'z world_scheme)" and F: "F fd1 = Some d1" "F fd2 = Some d2"
    and bad: "\<And>t. still F C N M t \<Longrightarrow> Q (-1) t"
    and ok: "\<And>ob t. N (d1, n1) = None \<or> N (d1, n1) = Some ob \<Longrightarrow> N (d2, n2) = None \<Longrightarrow>
      (d1, n1) \<noteq> (d2, n2) \<Longrightarrow> still F C (N((d2, n2) \<mapsto> ob)) M t \<Longrightarrow> Q 0 t"
  shows "wp (sys_linkat fd1 n1 fd2 n2) Q w"
  unfolding sys_linkat_def using assms(1) bad
proof (rule stilled.on_call)
  fix tn and r :: int and t u :: "'z world_scheme"
  assume t: "still F C N M t" and act: "(case fd_dir t fd1 of Inl e \<Rightarrow> Inl e
     | Inr (d1, es1) \<Rightarrow> (case map_of es1 n1 of None \<Rightarrow> Inl ENOENT
       | Some ob \<Rightarrow> (case fd_dir t fd2 of Inl e \<Rightarrow> Inl e
         | Inr (d2, es2) \<Rightarrow> link_entry ob d2 es2 n2 t))) = Inr (r, u)"
  note dirs = still_dir [OF t F(1)] still_dir [OF t F(2)]
  from act dirs(1) obtain es1 where es1: "dir_of (w_fs t) d1 = Some es1"
    by (cases "dir_of (w_fs t) d1") simp_all
  with act dirs(1) obtain ob where ob: "map_of es1 n1 = Some ob" by (cases "map_of es1 n1") simp_all
  with act dirs es1 obtain es2 where es2: "dir_of (w_fs t) d2 = Some es2"
    by (cases "dir_of (w_fs t) d2") simp_all
  with act dirs es1 ob have "link_entry ob d2 es2 n2 t = Inr (r, u)" by simp
  then have free: "map_of es2 n2 = None" and r: "r = 0"
    and u: "u = log (Linked d2 n2 ob) (t\<lparr>w_fs := add_link ob (add_entry d2 n2 ob (w_fs t))\<rparr>)"
    by (cases "map_of es2 n2"; simp add: link_entry_def split: if_splits)+
  note es = es1 es2 ob free
  have l: "fs_lookup (w_fs t) d1 n1 = Some ob" "fs_lookup (w_fs t) d2 n2 = None"
    using es by (simp_all add: fs_lookup_def)
  then have distinct: "(d1, n1) \<noteq> (d2, n2)" by auto
  have c: "content_of (w_fs u) = content_of (w_fs t)"
    and f: "fs_lookup (w_fs u) d n = (if d = d2 \<and> n = n2 then Some ob else fs_lookup (w_fs t) d n)" for d n
    using add_entry_effect [OF es(2)] by (simp_all add: u log_def add_link_effect)
  have "(\<lambda>(d, n). fs_lookup (w_fs t) d n) \<subseteq>\<^sub>m (\<lambda>(d, n). fs_lookup (w_fs u) d n)"
    unfolding map_le_def using l(2) by (simp add: f dom_def split_paired_All)
  with map_le_lookups [OF t] have "N \<subseteq>\<^sub>m (\<lambda>(d, n). fs_lookup (w_fs u) d n)" by (rule map_le_trans)
  then have "N((d2, n2) \<mapsto> ob) \<subseteq>\<^sub>m (\<lambda>(d, n). fs_lookup (w_fs u) d n)"
    by (rule map_le_learn) (simp add: f)
  then have "still F C (N((d2, n2) \<mapsto> ob)) M u"
    by (rule still_same_host [OF t _ _ _ _ c, rotated -1]) (simp_all add: u log_def)
  moreover have "N (d2, n2) = None" using still_known [OF t l(2)] by simp
  ultimately show "Q r u" using ok [OF still_known [OF t l(1)] _ distinct] r by simp
qed

lemma still_no_replace:
  assumes w: "still F C N M (w :: 'z world_scheme)" and F: "F f1 = Some d1" "F f2 = Some d2"
    and bad: "\<And>t. still F C N M t \<Longrightarrow> Q (-1) t"
    and ok: "\<And>ob t. N (d1, n1) = None \<or> N (d1, n1) = Some ob \<Longrightarrow> N (d2, n2) = None \<Longrightarrow>
      still F C (N((d1, n1) := None, (d2, n2) \<mapsto> ob)) M t \<Longrightarrow> Q 0 t"
  shows "wp (no_replace f1 n1 f2 n2 dir) Q w"
proof -
  have minus_one: "(-1 :: int) \<noteq> 0" by simp
  have moved: "wp (ret (-1)) Q t" if "still F C N M t" for t using bad [OF that] by simp
  have sided: "still F C (N((d1, n1) := None, (d2, n2) \<mapsto> ob)) M t"
    if "still F C (N((d2, n2) \<mapsto> ob)) M t" for ob and t :: "'z world_scheme"
    by (rule still_weaken [OF that]) (auto simp: map_le_def)
  have linked: "wp (do { l \<leftarrow> sys_linkat f1 n1 f2 n2;
      if l \<noteq> 0 then ret (-1) else do { sys_unlinkat f1 n1 False; ret 0 } }) Q t"
    if t: "still F C N M t" for t
  proof (rule wp_seq, rule still_linkat [OF t F])
    fix u :: "'z world_scheme"
    assume "still F C N M u"
    with bad show "wp (if (-1 :: int) \<noteq> 0 then ret (-1) else do { sys_unlinkat f1 n1 False; ret 0 }) Q u" by simp
  next
    fix ob and u :: "'z world_scheme"
    assume k: "N (d1, n1) = None \<or> N (d1, n1) = Some ob" "N (d2, n2) = None" "(d1, n1) \<noteq> (d2, n2)"
      and u: "still F C (N((d2, n2) \<mapsto> ob)) M u"
    have "N((d2, n2) \<mapsto> ob, (d1, n1) := None) = N((d1, n1) := None, (d2, n2) \<mapsto> ob)"
      using k(3) by (intro fun_upd_twist) auto
    then have "wp (sys_unlinkat f1 n1 False) (\<lambda>_. Q 0) u"
      by (intro still_unlinkat [OF u F(1)]) (simp_all add: ok [OF k(1,2)] sided)
    then show "wp (if (0 :: int) \<noteq> 0 then ret (-1) else do { sys_unlinkat f1 n1 False; ret 0 }) Q u" by simp
  qed
  have fallback: "wp (if w_host w = Linux \<and> e \<noteq> ENOSYS \<and> e \<noteq> EINVAL \<and> e \<noteq> ENOTSUP then ret (-1)
      else if w_host w = Darwin \<and> e \<noteq> ENOTSUP \<and> e \<noteq> EINVAL then ret (-1)
      else if dir then fail_with ENOTSUP
      else do { l \<leftarrow> sys_linkat f1 n1 f2 n2;
        if l \<noteq> 0 then ret (-1) else do { sys_unlinkat f1 n1 False; ret 0 } }) Q t"
    if "still F C N M t" for e t
    by (intro wp_if moved linked that stilled.on_fail_with [OF that] bad) simp_all
  have "wp (if w_host w = FreeBSD then ret (-1) else sys_rename_excl f1 n1 f2 n2)
      (\<lambda>r t. r = 0 \<and> Q 0 t \<or> r = -1 \<and> still F C N M t) w"
    by (intro wp_if wp_ret still_rename [OF w F]) (use w ok in auto)
  then show ?thesis
    unfolding no_replace_def wp_bind wp_gets get_errno_def
    by (rule wp_weaken) (elim disjE conjE, simp, simp only: if_not_P [OF minus_one], rule fallback)
qed

section \<open>The registries\<close>

lemma still_world: "still F C N (world.more v) t \<Longrightarrow> world.more t = world.more v"
  by (simp add: still_def)

lemmas still_reg = more_pub [OF still_world]

lemma still_find_arena [still_rules]:
  "still F C N (world.more v) w \<Longrightarrow> Q (the_arena k v) w \<Longrightarrow> wp (find_arena k) Q w"
  by (simp add: find_arena_def the_arena_def still_reg)

lemma still_lookup [still_rules]:
  "still F C N (world.more v) w \<Longrightarrow> Q (the_pub k v) w \<Longrightarrow> wp (lookup k) Q w"
  by (simp add: lookup_def the_pub_def still_reg)

lemma still_modify_reg:
  assumes "still F C N M w" and "w_turns (f w) = w_turns w" and "w_hook (f w) = w_hook w"
    and "w_fds (f w) = w_fds w" and "w_fs (f w) = w_fs w"
  shows "still F C N (world.more (f w)) (f w)"
  using assms quiet_cong [of "f w" w F C N] by (simp add: still_def)

lemma still_upd:
  assumes "still F C N (world.more v) w"
  shows "still F C N (world.more (upd_pub k f v)) (upd_pub k f w)"
    "still F C N (world.more (upd_arena k g v)) (upd_arena k g w)"
    "still F C N (world.more (upd_why s v)) (upd_why s w)"
  unfolding upd_more [OF still_world [OF assms], symmetric]
  by (rule still_modify_reg [OF assms]; simp add: upd_pub_def upd_arena_def upd_why_def)+

lemma still_update_publication [still_rules]:
  assumes "still F C N (world.more v) w"
    and "\<And>t. still F C N (world.more (upd_pub k f v)) t \<Longrightarrow> Q () t"
  shows "wp (update_publication k f) Q w"
  using assms(2) [OF still_upd(1) [OF assms(1)]] by (simp add: update_publication_def upd_pub_def)

lemma still_update_arena [still_rules]:
  assumes "still F C N (world.more v) w"
    and "\<And>t. still F C N (world.more (upd_arena k f v)) t \<Longrightarrow> Q () t"
  shows "wp (update_arena k f) Q w"
  using assms(2) [OF still_upd(2) [OF assms(1)]] by (simp add: update_arena_def upd_arena_def)

lemma still_reason [still_rules]:
  assumes "still F C N (world.more v) w"
    and "\<And>t s. still F C N (world.more (upd_why s v)) t \<Longrightarrow> Q () t"
  shows "wp (reason room msg) Q w"
proof (cases "room = 0")
  case True
  have "upd_why (g_why v) v = v" by (simp add: upd_why_def)
  with assms(1) assms(2) [where s = "g_why v"] True show ?thesis by (simp add: reason_def)
next
  case False
  with assms(2) [OF still_upd(3) [OF assms(1)]] show ?thesis by (simp add: reason_def upd_why_def)
qed

end
