(* ===== verification/Custody.thy ===== *)
theory Custody
  imports CustodyRules
begin

text \<open>
  Where the previous output is. On a host where no other process interferes, every step before
  Finish leaves it under its destination's name or under its recovery name, as the publication's
  flags say, with its content, whatever calls fail.
\<close>

section \<open>The custody of the previous output\<close>

definition custody :: "oid \<Rightarrow> oid \<Rightarrow> oid \<Rightarrow> publication \<Rightarrow> (oid \<times> cstring \<rightharpoonup> oid) \<Rightarrow> bool" where
  "custody d rd old p N \<longleftrightarrow>
     (if p_captured p then N (rd, p_recovery p) = Some old
      else \<not> p_installed p \<and> N (d, p_name p) = Some old)
     \<and> (p_installed p \<longrightarrow> \<not> p_unchanged p
          \<and> (\<not> p_rollback_pending p \<longrightarrow> N (d, p_name p) = Some (st_id (p_fresh p))))"

text \<open>The same publication, in another state of its transaction.\<close>

definition progressed :: "publication \<Rightarrow> publication \<Rightarrow> bool" where
  "progressed p q \<longleftrightarrow> (\<exists>c i k x. q = p\<lparr>p_captured := c, p_installed := i,
     p_rollback_pending := k, p_capture_valid := x\<rparr>)"

lemma progressedI: "q = p\<lparr>p_captured := c, p_installed := i, p_rollback_pending := k, p_capture_valid := x\<rparr>
    \<Longrightarrow> progressed p q"
  by (auto simp: progressed_def)

definition in_custody :: "oid \<Rightarrow> oid \<Rightarrow> oid \<Rightarrow> bytes \<Rightarrow> publication \<Rightarrow> (int \<Rightarrow> publication \<Rightarrow> bool)
    \<Rightarrow> int \<Rightarrow> 'z pub_world_scheme \<Rightarrow> bool" where
  "in_custody d rd old b p G r t \<longleftrightarrow> alone t \<and> content_of (w_fs t) old = Some b
     \<and> (\<exists>q. the_pub (p_token p) t = Some q \<and> progressed p q \<and> G r q
          \<and> custody d rd old q (\<lambda>(d, n). fs_lookup (w_fs t) d n))"

lemma custody_mono: "custody d rd old p N \<Longrightarrow> N \<subseteq>\<^sub>m K \<Longrightarrow> custody d rd old p K"
  unfolding custody_def by (auto dest: map_le_Some)

lemma in_custodyI:
  assumes "still F C N (world.more v) t" and "C old = Some b" and "the_pub (p_token p) v = Some q"
    and "progressed p q" and "custody d rd old q N" and "G r q"
  shows "in_custody d rd old b p G r t"
proof -
  have "the_pub (p_token p) t = Some q" using assms(3) by (simp add: the_pub_def still_reg [OF assms(1)])
  moreover have "custody d rd old q (\<lambda>(d, n). fs_lookup (w_fs t) d n)"
    by (rule custody_mono [OF assms(5) map_le_lookups [OF assms(1)]])
  ultimately show ?thesis using assms quiet_content [OF still_quiet [OF assms(1)] assms(2)]
    by (auto simp: in_custody_def still_def quiet_def)
qed

lemma the_pub_upd_pub:
  assumes "\<And>q. p_token (f q) = p_token q"
  shows "the_pub k (upd_pub j f v) = map_option (\<lambda>q. if p_token q = j then f q else q) (the_pub k v)"
proof -
  have "find (\<lambda>p. p_token p = k) (map (\<lambda>p. if p_token p = j then f p else p) ps)
      = map_option (\<lambda>q. if p_token q = j then f q else q) (find (\<lambda>p. p_token p = k) ps)" for ps
    by (induction ps) (auto simp: assms)
  then show ?thesis by (simp add: the_pub_def upd_pub_def)
qed

lemma same_publications [simp]:
  "g_publications (upd_arena k f v) = g_publications v" "g_publications (upd_why s v) = g_publications v"
  by (simp_all add: upd_arena_def upd_why_def)

section \<open>Failures\<close>

lemma still_quarantine:
  assumes "still F C N (world.more v) w"
    and "\<And>t v'. still Map.empty C N (world.more v') t \<Longrightarrow> g_publications v' = g_publications v \<Longrightarrow> Q () t"
  shows "wp (quarantine k) Q w"
proof -
  have w: "still Map.empty C N (world.more v) w" by (rule still_weaken [OF assms(1)]) simp_all
  show ?thesis
    unfolding quarantine_def using w
    by - (intro wp_intros still_rules | assumption | (simp; fail)
      | (rule assms(2), assumption, simp))+
qed

lemma still_step_fail:
  assumes "still F C N (world.more v) w" and "action \<noteq> 4"
    and "\<And>t v'. still Map.empty C N (world.more v') t \<Longrightarrow> g_publications v' = g_publications v \<Longrightarrow> Q (-1) t"
  shows "wp (step_fail p a action room) Q w"
proof -
  have w: "still Map.empty C N (world.more v) w" by (rule still_weaken [OF assms(1)]) simp_all
  show ?thesis
    unfolding step_fail_def using w assms(2)
    by - (intro wp_intros still_quarantine still_rules | assumption | (simp; fail)
      | (rule assms(3), assumption, simp))+
qed

lemma custody_step_fail:
  assumes "still F C N (world.more v) w" and "C old = Some b" and "the_pub (p_token p) v = Some q"
    and "progressed p q" and "custody d rd old q N" and "action \<noteq> 4" and "G (-1) q"
  shows "wp (step_fail p a action room) (in_custody d rd old b p G) w"
  using assms(1,6)
proof (rule still_step_fail)
  fix t v'
  assume t: "still Map.empty C N (world.more v') t" and v': "g_publications v' = g_publications v"
  from v' assms(3) have "the_pub (p_token p) v' = Some q" by (simp add: the_pub_def)
  with t assms(2) show "in_custody d rd old b p G (-1) t"
    using assms(4,5,7) by (rule in_custodyI)
qed

section \<open>Capture\<close>

lemma still_judge_captured [still_rules]:
  assumes "still F C N M w" and "\<And>r t. still F C N M t \<Longrightarrow> Q r t"
  shows "wp (judge_captured p a paths ids) Q w"
  unfolding judge_captured_def using assms(1)
  by - (intro wp_intros still_rules assms(2) | assumption)+

lemma progressed_refl [simp]: "progressed p p"
  by (rule progressedI [where c = "p_captured p" and i = "p_installed p" and k = "p_rollback_pending p" and x = "p_capture_valid p"]) simp

lemma progressed_flags [simp]:
  assumes "progressed p q"
  shows "progressed p (q\<lparr>p_captured := y\<rparr>)" "progressed p (q\<lparr>p_installed := y\<rparr>)"
    "progressed p (q\<lparr>p_rollback_pending := y\<rparr>)" "progressed p (q\<lparr>p_capture_valid := y\<rparr>)"
proof -
  from assms obtain c i k x where q: "q = p\<lparr>p_captured := c, p_installed := i, p_rollback_pending := k,
      p_capture_valid := x\<rparr>" by (auto simp: progressed_def)
  show "progressed p (q\<lparr>p_captured := y\<rparr>)" by (rule progressedI [where c = y and i = i and k = k and x = x]) (simp add: q)
  show "progressed p (q\<lparr>p_installed := y\<rparr>)" by (rule progressedI [where c = c and i = y and k = k and x = x]) (simp add: q)
  show "progressed p (q\<lparr>p_rollback_pending := y\<rparr>)" by (rule progressedI [where c = c and i = i and k = y and x = x]) (simp add: q)
  show "progressed p (q\<lparr>p_capture_valid := y\<rparr>)" by (rule progressedI [where c = c and i = i and k = k and x = y]) (simp add: q)
qed

lemma the_pub_flags:
  assumes "the_pub k v = Some p" and "\<And>q. p_token (f q) = p_token q"
  shows "the_pub k (upd_pub k f v) = Some (f p)"
  using assms(1) find_pub_token [OF assms(1)] by (simp add: the_pub_upd_pub assms(2))

text \<open>The move of an entry whose object is known.\<close>

lemma still_rename_known:
  assumes "still F C N M w" and "F fd1 = Some d1" "F fd2 = Some d2" "N (d1, n1) = Some ob"
    and "\<And>t. still F C N M t \<Longrightarrow> Q (-1) t"
    and "\<And>t. still F C (N((d1, n1) := None, (d2, n2) \<mapsto> ob)) M t \<Longrightarrow> Q 0 t"
  shows "wp (sys_renameat fd1 n1 fd2 n2) Q w"
  by (rule still_rename [OF assms(1-3)]) (use assms(4-6) in auto)

lemma still_no_replace_known:
  assumes "still F C N M w" and "F f1 = Some d1" "F f2 = Some d2" "N (d1, n1) = Some ob"
    and "\<And>t. still F C N M t \<Longrightarrow> Q (-1) t"
    and "\<And>t. N (d2, n2) = None \<Longrightarrow> still F C (N((d1, n1) := None, (d2, n2) \<mapsto> ob)) M t \<Longrightarrow> Q 0 t"
  shows "wp (no_replace f1 n1 f2 n2 dir) Q w"
  by (rule still_no_replace [OF assms(1-3)]) (use assms(4-6) in auto)

lemma custody_capture:
  assumes w: "still F C N (world.more v) (w :: 'z pub_world_scheme)"
    and F: "F (ar_parent a) = Some d" "F (ar_recovery_fd a) = Some rd"
    and C: "C old = Some b" and p: "the_pub (p_token p) v = Some p" and c: "custody d rd old p N"
    and tree: "p_expected_tree p = None"
  shows "wp (step_capture p a paths ids room)
    (in_custody d rd old b p (\<lambda>r q. r = 0 \<longrightarrow> p_captured q \<or> p_absent p)) w"
    (is "wp _ ?Q w")
proof -
  let ?N = "N((d, p_name p) := None, (rd, p_recovery p) \<mapsto> old)"
  let ?f = "\<lambda>q. q\<lparr>p_captured := True\<rparr>" and ?g = "\<lambda>q. q\<lparr>p_capture_valid := True\<rparr>"
  let ?taken = "upd_pub (p_token p) ?f v" and ?idle = "\<not> (p_captured p \<or> p_installed p \<or> p_rollback_pending p)"
  have taken: "the_pub (p_token p) ?taken = Some (?f p)" by (rule the_pub_flags [OF p]) simp
  have valid: "the_pub (p_token p) (upd_pub (p_token p) ?g ?taken) = Some (?g (?f p))"
    by (rule the_pub_flags [OF taken]) simp
  have name: "N (d, p_name p) = Some old" if ?idle using that c by (simp add: custody_def)
  have c': "custody d rd old (?f p) ?N" "custody d rd old (?g (?f p)) ?N" if ?idle
    using that by (simp_all add: custody_def)
  have move: "wp (sys_renameat (ar_parent a) (p_name p) (ar_recovery_fd a) (p_recovery p)) R t"
    if "still F C N M t" ?idle "\<And>u. still F C N M u \<Longrightarrow> R (-1) u" "\<And>u. still F C ?N M u \<Longrightarrow> R 0 u"
    for R M and t :: "'z pub_world_scheme"
    using that(1) F name [OF that(2)] that(3,4) by (rule still_rename_known)
  have before: "?Q r t" if "still F C N (world.more u) t" "the_pub (p_token p) u = Some p" "r = 0 \<longrightarrow> p_absent p"
    for r t and u :: "'z pub_world_scheme"
    by (rule in_custodyI [OF that(1) C that(2) _ c]) (use that(3) in simp_all)
  have after: "?Q r t" if "still F C ?N (world.more u) t" ?idle "the_pub (p_token p) u = Some (?f p)"
    for r t and u :: "'z pub_world_scheme"
    by (rule in_custodyI [OF that(1) C that(3) _ c'(1) [OF that(2)]]) simp_all
  have accepted: "?Q r t" if "still F C ?N (world.more (upd_pub (p_token p) ?g ?taken)) t" ?idle for r t
    by (rule in_custodyI [OF that(1) C valid _ c'(2) [OF that(2)]]) simp_all
  have refused: "wp (step_fail p a 1 room) ?Q t" if "still F C N (world.more v) t" for t
    using that C p _ c by (rule custody_step_fail) simp_all
  have changed: "wp (step_fail p a 1 room) ?Q t" if "still F C ?N (world.more ?taken) t" ?idle for t
    using that(1) C taken _ c'(1) [OF that(2)] by (rule custody_step_fail) simp_all
  show ?thesis
    unfolding step_capture_def judge_captured_tree_def using w
    by - (intro wp_intros still_rules move refused changed
      | assumption | (simp add: tree; fail)
      | (rule before, assumption, (simp add: p; fail), (simp; fail))
      | (rule after, assumption, assumption, (simp add: taken; fail))
      | (rule accepted, assumption, assumption))+
qed

section \<open>Install\<close>

text \<open>The captured entry is put back only where its name is free.\<close>

lemma custody_put_back:
  assumes "still F C N M (w :: 'z world_scheme)"
    and F: "F (ar_parent a) = Some d" "F (ar_recovery_fd a) = Some rd" and c: "custody d rd old p N"
    and "\<And>t. still F C N M t \<Longrightarrow> Q (-1) t"
    and "\<And>t. p_captured p \<Longrightarrow>
      still F C (N((rd, p_recovery p) := None, (d, p_name p) \<mapsto> old)) M t \<Longrightarrow> Q 0 t"
  shows "wp (no_replace (ar_recovery_fd a) (p_recovery p) (ar_parent a) (p_name p) dir) Q w"
  using assms(1) F(2,1) assms(5)
proof (rule still_no_replace)
  fix ob and t :: "'z world_scheme"
  assume n: "N (rd, p_recovery p) = None \<or> N (rd, p_recovery p) = Some ob" "N (d, p_name p) = None"
    and t: "still F C (N((rd, p_recovery p) := None, (d, p_name p) \<mapsto> ob)) M t"
  from n(2) c have "p_captured p" "N (rd, p_recovery p) = Some old"
    by (auto simp: custody_def split: if_splits)
  with n t assms(6) show "Q 0 t" by auto
qed

lemma custody_install:
  assumes w: "still F C N (world.more v) (w :: 'z pub_world_scheme)"
    and F: "F (ar_parent a) = Some d" "F (ar_recovery_fd a) = Some rd" "F (ar_private_fd a) = Some sd"
    and C: "C old = Some b" and p: "the_pub (p_token p) v = Some p" and c: "custody d rd old p N"
    and apart: "sd \<noteq> d" "sd \<noteq> rd" "d \<noteq> rd"
  shows "wp (step_install p a room) (in_custody d rd old b p (\<lambda>r q. r = 0 \<longrightarrow>
      p_deletion p \<or> p_unchanged p \<and> \<not> p_captured q \<or> p_installed q)) w"
    (is "wp _ ?Q w")
proof -
  let ?new = "st_id (p_fresh p)"
  let ?seen = "\<lambda>x. N((sd, p_name p) \<mapsto> x)"
  let ?N = "(?seen ?new)((sd, p_name p) := None, (d, p_name p) \<mapsto> ?new)"
  let ?f = "\<lambda>q. q\<lparr>p_installed := True\<rparr>" and ?g = "\<lambda>q. q\<lparr>p_captured := False\<rparr>"
  let ?placed = "upd_pub (p_token p) ?f v" and ?freed = "upd_pub (p_token p) ?g v"
  have pubs: "the_pub (p_token p) ?placed = Some (?f p)" "the_pub (p_token p) ?freed = Some (?g p)"
    by (rule the_pub_flags [OF p]; simp)+
  have seen: "custody d rd old p (?seen x)" for x using c apart by (simp add: custody_def)
  have before: "?Q r t" if "still F C K (world.more v) t" "custody d rd old p K" "r = 0 \<longrightarrow> p_deletion p" for K r t
    by (rule in_custodyI [OF that(1) C p _ that(2)]) (use that(3) in simp_all)
  have refused: "wp (step_fail p a 2 room) ?Q t" if "still F C K (world.more v) t" "custody d rd old p K" for K t
    using that(1) C p _ that(2) by (rule custody_step_fail) simp_all
  have put: "?Q r t" if "p_captured p" "p_unchanged p"
      "still F C (N((rd, p_recovery p) := None, (d, p_name p) \<mapsto> old)) (world.more ?freed) t" for r t
    by (rule in_custodyI [OF that(3) C pubs(2)]) (use that(2) c in \<open>auto simp: custody_def\<close>)
  have now_there: "custody d rd old (?f p) ?N" if "p_captured p" "\<not> p_unchanged p" using that c apart by (simp add: custody_def)
  have installed: "?Q r t" if "p_captured p" "\<not> p_unchanged p" "still F C ?N (world.more ?placed) t" for r t
    by (rule in_custodyI [OF that(3) C pubs(1) _ now_there [OF that(1,2)]]) simp_all
  have unsynced: "wp (step_fail p a 2 room) ?Q t" if "p_captured p" "\<not> p_unchanged p" "still F C ?N (world.more ?placed) t" for t
    using that(3) C pubs(1) _ now_there [OF that(1,2)] by (rule custody_step_fail) simp_all
  have looked: "wp (sys_fstatat (ar_private_fd a) (p_name p)) R t"
    if "still F C N M t" "\<And>u. still F C N M u \<Longrightarrow> R None u"
      "\<And>s u. same s (p_fresh p) \<Longrightarrow> still F C (?seen ?new) M u \<Longrightarrow> R (Some s) u"
      "\<And>s u. \<not> same s (p_fresh p) \<Longrightarrow> still F C (?seen (st_id s)) M u \<Longrightarrow> R (Some s) u"
    for R M and t :: "'z pub_world_scheme"
    using that(1) F(3) that(2)
  proof (rule still_fstatat)
    fix s and u :: "'z pub_world_scheme"
    assume "still F C (?seen (st_id s)) M u"
    with that(3,4) show "R (Some s) u" by (cases "same s (p_fresh p)") (simp_all add: same_def st_id_def)
  qed
  have move: "wp (no_replace (ar_private_fd a) (p_name p) (ar_parent a) (p_name p) dir) R t"
    if "still F C (?seen ?new) M t" "\<And>u. still F C (?seen ?new) M u \<Longrightarrow> R (-1) u"
      "\<And>u. p_captured p \<Longrightarrow> still F C ?N M u \<Longrightarrow> R 0 u" for R M dir and t :: "'z pub_world_scheme"
    using that(1) F(3,1) _ that(2)
  proof (rule still_no_replace_known)
    fix u :: "'z pub_world_scheme"
    assume "(?seen ?new) (d, p_name p) = None" "still F C ?N M u"
    with c apart that(3) show "R 0 u" by (auto simp: custody_def split: if_splits)
  qed simp
  show ?thesis
    unfolding step_install_def using w
    by - (intro looked wp_intros still_rules custody_put_back [OF _ F(1,2) c] move
      | assumption
      | (rule refused, assumption, (rule seen c; fail))
      | (rule before, assumption, rule c, (simp; fail))
      | (rule put, assumption, assumption, assumption)
      | (rule installed, assumption, assumption, assumption) | (rule unsynced, assumption, assumption, assumption)
      | (simp; fail))+
qed

section \<open>Restore\<close>

text \<open>The captured entry goes back to its name, or stays where it is.\<close>

lemma custody_restore_captured:
  assumes w: "still F C K (world.more v) (w :: 'z pub_world_scheme)"
    and F: "F (ar_parent a) = Some d" "F (ar_recovery_fd a) = Some rd"
    and C: "C old = Some b" and q: "the_pub (p_token p) v = Some q" "progressed p q"
    and flags: "p_captured q" "\<not> p_installed q" and K: "K (rd, p_recovery p) = Some old"
  shows "wp (do { restored \<leftarrow> restore_captured p a; if \<not> restored then step_fail p a 3 room else ret 0 })
    (in_custody d rd old b p (\<lambda>r q. r = 0 \<longrightarrow> \<not> p_captured q)) w"
    (is "wp _ ?Q w")
proof -
  let ?f = "\<lambda>q. q\<lparr>p_captured := False\<rparr>" and ?K = "K((rd, p_recovery p) := None, (d, p_name p) \<mapsto> old)"
  have names: "p_name q = p_name p" "p_recovery q = p_recovery p" using q(2) by (auto simp: progressed_def)
  have c: "custody d rd old q K" "custody d rd old (?f q) ?K"
    using flags K by (simp_all add: custody_def names)
  have put: "the_pub (p_token p) (upd_pub (p_token p) ?f v) = Some (?f q)" by (rule the_pub_flags [OF q(1)]) simp
  have restored: "?Q r t" if "still F C ?K (world.more (upd_pub (p_token p) ?f v)) t" for r t
    by (rule in_custodyI [OF that C put _ c(2)]) (simp_all add: q(2))
  have refused: "wp (step_fail p a 3 room) ?Q t" if "still F C K (world.more v) t" for t
    using that C q c(1) by (rule custody_step_fail) simp_all
  have move: "wp (no_replace (ar_recovery_fd a) (p_recovery p) (ar_parent a) (p_name p) dir) R t"
    if "still F C K M t" "\<And>u. still F C K M u \<Longrightarrow> R (-1) u" "\<And>u. still F C ?K M u \<Longrightarrow> R 0 u"
    for R M dir and t :: "'z pub_world_scheme"
    using that(1) F(2,1) K that(2,3) by (rule still_no_replace_known)
  show ?thesis
    unfolding restore_captured_def using w
    by - (intro wp_intros still_rules move refused | assumption | (rule restored, assumption) | (simp; fail))+
qed

text \<open>
  The installed entry is taken away: untouched, moved aside and there still, put back, or removed.
\<close>

definition taken_back :: "(int \<rightharpoonup> oid) \<Rightarrow> (oid \<rightharpoonup> bytes) \<Rightarrow> oid \<Rightarrow> oid \<Rightarrow> oid \<Rightarrow> publication
    \<Rightarrow> bool \<Rightarrow> 'z pub_world_scheme \<Rightarrow> bool" where
  "taken_back F C d rd old p ok t \<longleftrightarrow> (\<exists>K (u :: 'z pub_world_scheme) q. still F C K (world.more u) t
     \<and> K (rd, p_recovery p) = Some old \<and> the_pub (p_token p) u = Some q \<and> progressed p q \<and> p_captured q
     \<and> (ok \<or> custody d rd old q K))"

lemma custody_restore_installed:
  assumes w: "still F C N (world.more v) (w :: 'z pub_world_scheme)"
    and F: "F (ar_parent a) = Some d" "F (ar_recovery_fd a) = Some rd"
    and p: "the_pub (p_token p) v = Some p" and c: "custody d rd old p N"
    and flags: "p_captured p" "p_installed p" "\<not> p_rollback_pending p"
    and apart: "d \<noteq> rd" "rollback_name p \<noteq> p_recovery p" and tree: "p_fresh_tree p = None"
  shows "wp (restore_installed p a) (taken_back F C d rd old p) w"
    (is "wp _ ?Q w")
proof -
  let ?new = "st_id (p_fresh p)"
  let ?K = "N((d, p_name p) := None, (rd, rollback_name p) \<mapsto> ?new)"
  let ?f = "\<lambda>q. q\<lparr>p_rollback_pending := True\<rparr>" and ?g = "\<lambda>q. q\<lparr>p_rollback_pending := False\<rparr>"
  let ?u = "upd_pub (p_token p) ?f v" and ?x = "upd_pub (p_token p) ?g (upd_pub (p_token p) ?f v)"
  have u: "the_pub (p_token p) ?u = Some (?f p)" by (rule the_pub_flags [OF p]) simp
  have x: "the_pub (p_token p) ?x = Some (?g (?f p))" by (rule the_pub_flags [OF u]) simp
  have N: "N (rd, p_recovery p) = Some old" "N (d, p_name p) = Some ?new" "\<not> p_unchanged p"
    using c flags by (simp_all add: custody_def)
  have start: "?Q ok t" if "still F C N (world.more v) t" for ok t
    unfolding taken_back_def using that N(1) p flags(1) c by (intro exI [of _ N] exI [of _ v] exI [of _ p]) simp
  have aside: "?Q False t" if "still F C ?K (world.more ?u) t" for t
    unfolding taken_back_def using that N u flags apart
    by (intro exI [of _ ?K] exI [of _ ?u] exI [of _ "?f p"]) (auto simp: custody_def)
  let ?B = "?K((rd, rollback_name p) := None, (d, p_name p) \<mapsto> ?new)"
  have put_back: "?Q ok t" if "still F C ?B (world.more ?x) t" for ok t
    unfolding taken_back_def using that N x flags apart
    by (intro exI [of _ ?B] exI [of _ ?x] exI [of _ "?g (?f p)"]) (auto simp: custody_def)
  have gone: "?Q True t" if "still F C (?K((rd, rollback_name p) := None)) (world.more ?x) t" for t
    unfolding taken_back_def using that N x flags apart
    by (intro exI [of _ "?K((rd, rollback_name p) := None)"] exI [of _ ?x] exI [of _ "?g (?f p)"]) auto
  have move: "wp (sys_renameat (ar_parent a) (p_name p) (ar_recovery_fd a) (rollback_name p)) R t"
    if "still F C N M t" "\<And>u. still F C N M u \<Longrightarrow> R (-1) u" "\<And>u. still F C ?K M u \<Longrightarrow> R 0 u"
    for R M and t :: "'z pub_world_scheme"
    using that(1) F N(2) that(2,3) by (rule still_rename_known)
  have put_back_rule: "wp (no_replace (ar_recovery_fd a) (rollback_name p) (ar_parent a) (p_name p) dir) R t"
    if "still F C ?K M t" "\<And>u. still F C ?K M u \<Longrightarrow> R (-1) u" "\<And>u. still F C ?B M u \<Longrightarrow> R 0 u"
    for R M dir and t :: "'z pub_world_scheme"
    using that(1) F(2,1) _ that(2,3) by (rule still_no_replace_known) simp
  have remove: "wp (remove_validated (ar_recovery_fd a) (rollback_name p) st (p_fresh_tree p)) R t"
    if "still F C ?K M t" "\<And>u. still F C ?K M u \<Longrightarrow> R False u"
      "\<And>u. still F C (?K((rd, rollback_name p) := None)) M u \<Longrightarrow> R True u"
    for R M st and t :: "'z pub_world_scheme"
    unfolding remove_validated_def using that F(2)
    by (auto simp: tree intro!: still_unlinkat [OF that(1) F(2)])
  show ?thesis
    unfolding restore_installed_def using w
    by - (intro move put_back_rule remove wp_intros still_rules | assumption | (rule start, assumption) | (rule aside, assumption)
      | (rule put_back, assumption) | (rule gone, assumption) | (simp; fail))+
qed

lemma custody_restore:
  assumes w: "still F C N (world.more v) (w :: 'z pub_world_scheme)"
    and F: "F (ar_parent a) = Some d" "F (ar_recovery_fd a) = Some rd"
    and C: "C old = Some b" and p: "the_pub (p_token p) v = Some p" and c: "custody d rd old p N"
    and apart: "d \<noteq> rd" "rollback_name p \<noteq> p_recovery p" and tree: "p_fresh_tree p = None"
  shows "wp (step_restore p a room) (in_custody d rd old b p (\<lambda>r q. r = 0 \<longrightarrow> \<not> p_captured q)) w"
    (is "wp _ ?Q w")
proof -
  have refused: "wp (step_fail p a 3 room) ?Q t"
    if "still F C K (world.more u) t" "the_pub (p_token p) u = Some q" "progressed p q" "custody d rd old q K"
    for K q and u t :: "'z pub_world_scheme"
    using that(1) C that(2-4) by (rule custody_step_fail) simp_all
  have done_: "?Q 0 w" if "\<not> p_captured p"
    by (rule in_custodyI [OF w C p _ c]) (use that in simp_all)
  have captured: "p_captured p" if "p_installed p" using that c by (simp add: custody_def split: if_splits)
  have rest: "wp (do { restored \<leftarrow> (if p_captured p then restore_captured p a else ret True);
      if \<not> restored then step_fail p a 3 room else ret 0 }) ?Q t"
    if "still F C K (world.more u) t" "the_pub (p_token p) u = Some q" "progressed p q" "p_captured q"
      "\<not> p_installed q" "K (rd, p_recovery p) = Some old" "p_captured p"
    for K q and u t :: "'z pub_world_scheme"
    using custody_restore_captured [OF that(1) F C that(2-6)] that(7) by simp
  consider "p_rollback_pending p" | "\<not> p_rollback_pending p" "\<not> p_installed p"
    | "\<not> p_rollback_pending p" "p_installed p" by blast
  then show ?thesis
  proof cases
    case 1
    have "still F C N (world.more v) (w\<lparr>w_errno := EALREADY\<rparr>)" using w by simp
    from refused [OF this p _ c] 1 show ?thesis by (simp add: step_restore_def set_errno_def)
  next
    case 2
    have "K (rd, p_recovery p) = Some old" if "p_captured p" "K = N" for K using that c by (simp add: custody_def)
    with 2 rest [OF w p] done_ show ?thesis by (cases "p_captured p") (simp_all add: step_restore_def)
  next
    case 3
    let ?f = "\<lambda>q. q\<lparr>p_installed := False\<rparr>"
    have next_step: "wp (do { (if ok then update_publication (p_token p) ?f else ret ());
        if \<not> ok then step_fail p a 3 room
        else do { restored \<leftarrow> (if p_captured p then restore_captured p a else ret True);
          if \<not> restored then step_fail p a 3 room else ret 0 } }) ?Q t"
      if taken: "taken_back F C d rd old p ok t" for ok t
    proof -
      from taken obtain K and u :: "'z pub_world_scheme" and q where t: "still F C K (world.more u) t"
        and K: "K (rd, p_recovery p) = Some old" and q: "the_pub (p_token p) u = Some q" "progressed p q"
          "p_captured q" and ok: "ok \<or> custody d rd old q K" by (auto simp: taken_back_def)
      have "the_pub (p_token p) (upd_pub (p_token p) ?f u) = Some (?f q)" by (rule the_pub_flags [OF q(1)]) simp
      then have "wp (do { restored \<leftarrow> (if p_captured p then restore_captured p a else ret True);
          if \<not> restored then step_fail p a 3 room else ret 0 }) ?Q x"
        if "still F C K (world.more (upd_pub (p_token p) ?f u)) x" for x
        by (rule rest [OF that]) (use q K captured 3 in simp_all)
      then have "wp (do { update_publication (p_token p) ?f;
          restored \<leftarrow> (if p_captured p then restore_captured p a else ret True);
          if \<not> restored then step_fail p a 3 room else ret 0 }) ?Q t"
        by (intro wp_seq [of "update_publication (p_token p) ?f"] still_update_publication [OF t])
      moreover have "wp (step_fail p a 3 room) ?Q t" if "\<not> ok"
        using refused [OF t q(1,2)] ok that by simp
      ultimately show ?thesis by (cases ok) (simp_all only: simp_thms if_True if_False wp_bind wp_return)
    qed
    have "wp (restore_installed p a) (taken_back F C d rd old p) w"
      by (rule custody_restore_installed [OF w F p c captured [OF 3(2)] 3(2,1) apart tree])
    then have "wp (do { taken \<leftarrow> (do { ok \<leftarrow> restore_installed p a;
          (if ok then update_publication (p_token p) ?f else ret ()); ret ok });
        if \<not> taken then step_fail p a 3 room
        else do { restored \<leftarrow> (if p_captured p then restore_captured p a else ret True);
          if \<not> restored then step_fail p a 3 room else ret 0 } }) ?Q w"
      unfolding wp_bind wp_return using next_step [unfolded wp_bind] by (rule wp_weaken)
    with 3 show ?thesis by (simp only: step_restore_def if_True if_False)
  qed
qed

section \<open>Property\<close>

lemma custody_step:
  assumes w: "still F C N (world.more v) (w :: 'z pub_world_scheme)"
    and p: "the_pub token v = Some p" and a: "the_arena (p_arena p) v = Some a"
    and live: "\<not> p_finished p" "1 \<le> action" "action \<le> 3"
    and F: "F (ar_parent a) = Some d" "F (ar_recovery_fd a) = Some rd" "F (ar_private_fd a) = Some sd"
    and apart: "distinct [d, rd, sd]" "rollback_name p \<noteq> p_recovery p"
    and tree: "p_expected_tree p = None" "p_fresh_tree p = None"
    and C: "C old = Some b" and c: "custody d rd old p N"
  shows "wp (landin_publication_step_locked token action paths ids room)
    (in_custody d rd old b p (\<lambda>r q. r = 0 \<longrightarrow> (action = 1 \<longrightarrow> p_captured q \<or> p_absent p)
      \<and> (action = 2 \<longrightarrow> p_deletion p \<or> p_unchanged p \<and> \<not> p_captured q \<or> p_installed q)
      \<and> (action = 3 \<longrightarrow> \<not> p_captured q))) w"
    (is "wp _ (in_custody d rd old b p ?G) w")
proof -
  have token: "p_token p = token" by (rule find_pub_token [OF p])
  have act: "wp (do { cancelled \<leftarrow> cancellation_requested;
      if action \<le> 2 \<and> cancelled then do { set_errno EINTR; step_fail p a action room }
      else if action = 0 then step_validate p a room
      else if action = 1 then step_capture p a paths ids room
      else if action = 2 then step_install p a room
      else if action = 3 then step_restore p a room
      else if action = 4 then step_finish p a room
      else do { set_errno EINVAL; step_fail p a action room } }) (in_custody d rd old b p ?G) t"
    if t: "still F C N (world.more u) t" and u: "the_pub (p_token p) u = Some p" for t u :: "'z pub_world_scheme"
  proof -
    have weaker: "wp m (in_custody d rd old b p ?G) x"
      if "wp m (in_custody d rd old b p H) x" "\<And>r q. H r q \<Longrightarrow> ?G r q" for m H and x :: "'z pub_world_scheme"
      using that by (auto simp: in_custody_def elim!: wp_weaken)
    have "wp (step_fail p a action room) (in_custody d rd old b p ?G) x" if "still F C N (world.more u) x" for x
      using that C u _ c by (rule custody_step_fail) (use live in simp_all)
    moreover have "wp (step_capture p a paths ids room) (in_custody d rd old b p ?G) t" if "action = 1"
      by (rule weaker, rule custody_capture [OF t F(1,2) C u c tree(1)]) (use that in simp)
    moreover have "wp (step_install p a room) (in_custody d rd old b p ?G) t" if "action = 2"
      by (rule weaker, rule custody_install [OF t F C u c]) (use that apart in auto)
    moreover have "wp (step_restore p a room) (in_custody d rd old b p ?G) t" if "action = 3"
      by (rule weaker, rule custody_restore [OF t F(1,2) C u c _ apart(2) tree(2)]) (use that apart in auto)
    moreover have "action = 1 \<or> action = 2 \<or> action = 3" using live by arith
    ultimately show ?thesis using t
      by (elim disjE) (auto simp: cancellation_requested_def set_errno_def wp_if_iff)
  qed
  show ?thesis
    unfolding landin_publication_step_locked_def using w
    by - (rule wp_seq, rule still_lookup, assumption, rule wp_seq, rule still_reason, assumption,
      simp (no_asm) only: p option.case, rule wp_seq, rule still_find_arena, assumption,
      simp (no_asm) only: the_upd_why a option.case live(1) simp_thms if_False,
      rule act, assumption, simp add: p token)
qed

text \<open>
  C2. The previous output is never lost. While no other process changes the files, a Capture, Install
  or Restore of a publication of regular files leaves the previous output, with its content, under its
  recovery name when it counts as captured and under the destination's name otherwise, whatever calls
  fail; an installed output stands at the destination. A Restore that reports success has put the
  previous output back, an Install the new one in its place.
\<close>

theorem previous_output_in_custody:
  assumes "alone w" and "the_pub token w = Some p" and "the_arena (p_arena p) w = Some a"
    and "\<not> p_finished p" and "1 \<le> action" and "action \<le> 3"
    and "fd_objs w (ar_parent a) = Some d" and "fd_objs w (ar_recovery_fd a) = Some rd"
    and "fd_objs w (ar_private_fd a) = Some sd"
    and "distinct [d, rd, sd]" and "rollback_name p \<noteq> p_recovery p"
    and "p_expected_tree p = None" and "p_fresh_tree p = None"
    and "content_of (w_fs w) old = Some b" and "custody d rd old p (\<lambda>(x, n). fs_lookup (w_fs w) x n)"
    and "run_state (landin_publication_step_locked token action paths ids room) w = (r, t)"
  shows "alone t \<and> content_of (w_fs t) old = Some b
    \<and> (\<exists>q. the_pub token t = Some q \<and> progressed p q \<and> custody d rd old q (\<lambda>(x, n). fs_lookup (w_fs t) x n)
      \<and> (r = 0 \<longrightarrow> (action = 1 \<longrightarrow> p_captured q \<or> p_absent p)
           \<and> (action = 2 \<longrightarrow> p_deletion p \<or> p_installed q
                \<or> p_unchanged p \<and> fs_lookup (w_fs t) d (p_name p) = Some old)
           \<and> (action = 3 \<longrightarrow> fs_lookup (w_fs t) d (p_name p) = Some old)))"
proof -
  have "still (fd_objs w) (content_of (w_fs w)) (\<lambda>(x, n). fs_lookup (w_fs w) x n) (world.more w) w"
    using assms(1) by (simp add: still_def quiet_def)
  from wpD [OF custody_step [OF this assms(2-15)] assms(16)] obtain q where t: "alone t"
      "content_of (w_fs t) old = Some b" and q: "the_pub token t = Some q" "progressed p q"
      "custody d rd old q (\<lambda>(x, n). fs_lookup (w_fs t) x n)"
    and r: "r = 0 \<longrightarrow> (action = 1 \<longrightarrow> p_captured q \<or> p_absent p)
      \<and> (action = 2 \<longrightarrow> p_deletion p \<or> p_unchanged p \<and> \<not> p_captured q \<or> p_installed q)
      \<and> (action = 3 \<longrightarrow> \<not> p_captured q)"
    using find_pub_token [OF assms(2)] by (auto simp: in_custody_def)
  have "fs_lookup (w_fs t) d (p_name p) = Some old" if "\<not> p_captured q"
    using q(2,3) that by (auto simp: custody_def progressed_def)
  with t q r show ?thesis by blast
qed

theorem previous_output_in_custody_witness:
  "case run_state (landin_publication_step_locked 1 1 [] [] 0) sample_world of
     (r, t) \<Rightarrow> content_of (w_fs t) (1, 5) = Some ''old'' \<and> (\<exists>q. the_pub 1 t = Some q
       \<and> custody (1, 1) (1, 4) (1, 5) q (\<lambda>(x, n). fs_lookup (w_fs t) x n))"
proof -
  have "alone sample_world" "the_pub 1 sample_world = Some sample_publication"
    "the_arena (p_arena sample_publication) sample_world = Some sample_arena"
    "\<not> p_finished sample_publication" "(1 :: int) \<le> 1" "(1 :: int) \<le> 3"
    "fd_objs sample_world (ar_parent sample_arena) = Some (1, 1)"
    "fd_objs sample_world (ar_recovery_fd sample_arena) = Some (1, 4)"
    "fd_objs sample_world (ar_private_fd sample_arena) = Some (1, 3)"
    "distinct [(1 :: nat, 1 :: nat), (1, 4), (1, 3)]"
    "rollback_name sample_publication \<noteq> p_recovery sample_publication"
    "p_expected_tree sample_publication = None" "p_fresh_tree sample_publication = None"
    "content_of (w_fs sample_world) (1, 5) = Some ''old''"
    "custody (1, 1) (1, 4) (1, 5) sample_publication (\<lambda>(x, n). fs_lookup (w_fs sample_world) x n)"
    by (simp_all add: the_pub_def alone_def sample_world_def the_arena_def sample_publication_def publication_zero_def
        sample_arena_def fd_objs_def sample_desc_def rollback_name_def content_of_def sample_fs_def new_inode_def
        custody_def fs_lookup_def dir_of_def)
  from previous_output_in_custody [OF this surjective_pairing, of "[]" "[]" 0]
  show ?thesis by (auto simp: case_prod_beta)
qed

end
