(* ===== verification/Unhindered.thy ===== *)
theory Unhindered
  imports Custody
begin

text \<open>
  What a publication does when nothing stands in its way: no other process, no failing call, no
  cancellation. Each call then has one result, so the rules here are of total correctness: a step
  that starts from the state the previous one leaves returns 0.
\<close>

named_theorems calm_rules \<open>rules of the calls that nothing hinders\<close>

section \<open>Calls\<close>

text \<open>A directory that still has its links takes new entries.\<close>

definition live_dir :: "fs \<Rightarrow> oid \<Rightarrow> bool" where
  "live_dir f d \<longleftrightarrow> dir_of f d \<noteq> None \<and> dir_live f d"

text \<open>
  \<open>calm F C N D E p a w\<close>: nothing is scheduled; \<open>F\<close> are open descriptors, \<open>C\<close> the contents of all
  files, \<open>N\<close> all names, \<open>D\<close> live directories; the registry holds the publication \<open>p\<close>, between those
  of \<open>E\<close>, and its arena \<open>a\<close>.
\<close>

type_synonym others = "anchor list \<times> publication list \<times> publication list"

definition calm :: "(int \<rightharpoonup> oid) \<Rightarrow> (oid \<rightharpoonup> bytes) \<Rightarrow> (oid \<times> cstring \<rightharpoonup> oid) \<Rightarrow> oid set \<Rightarrow> others
    \<Rightarrow> publication \<Rightarrow> arena \<Rightarrow> 'z pub_world_scheme \<Rightarrow> bool" where
  "calm F C N D E p a w \<longleftrightarrow> w_turns w = [] \<and> w_hook w = None \<and> w_cancel w = 0
     \<and> F \<subseteq>\<^sub>m fd_objs w \<and> content_of (w_fs w) = C \<and> (\<lambda>(d, n). fs_lookup (w_fs w) d n) = N
     \<and> (\<forall>d \<in> D. live_dir (w_fs w) d) \<and> the_arena (p_arena p) w = Some a
     \<and> g_roots w = fst E \<and> g_publications w = fst (snd E) @ p # snd (snd E)
     \<and> (\<forall>q \<in> set (fst (snd E) @ snd (snd E)). p_token q \<noteq> p_token p)"

lemma find_among: "\<forall>q \<in> set (xs @ ys). p_token q \<noteq> p_token p \<Longrightarrow> find (\<lambda>q. p_token q = p_token p) (xs @ p # ys) = Some p"
  by (induction xs) auto

lemma calm_pub: "calm F C N D E p a w \<Longrightarrow> the_pub (p_token p) w = Some p"
  using find_among [of "fst (snd E)" "snd (snd E)" p] by (simp add: calm_def the_pub_def)

lemma reg_more: "world.more t = world.more w \<Longrightarrow> g_roots t = g_roots w \<and> g_publications t = g_publications w \<and> g_arenas t = g_arenas w"
  using more_pub [of t w] by simp

lemma calm_cong:
  assumes "calm F C N D E p a w" and "w_turns t = w_turns w" and "w_hook t = w_hook w" and "w_cancel t = w_cancel w"
    and "w_fds t = w_fds w" and "world.more t = world.more w"
    and "content_of (w_fs t) = C" and "(\<lambda>(d, n). fs_lookup (w_fs t) d n) = K"
    and "\<And>d. live_dir (w_fs w) d \<Longrightarrow> live_dir (w_fs t) d"
  shows "calm F C K D E p a t"
  using assms registry_more [OF assms(6)] reg_more [OF assms(6)] by (simp add: calm_def fd_objs_def)

lemma calm_errno [simp]: "calm F C N D E p a (w\<lparr>w_errno := e\<rparr>) \<longleftrightarrow> calm F C N D E p a w"
  by (simp add: calm_def fd_objs_def the_pub_def the_arena_def)

lemma calm_call:
  assumes "calm F C N D E p a w" and "act idle_turn w = Inr (r, u)" and "Q r u"
  shows "wp (call bad act) Q w"
proof -
  have "w_turns w = []" using assms(1) by (simp add: calm_def)
  from call_no_turn [OF this, of bad act] assms(2,3) show ?thesis by (simp add: wp_def)
qed

lemma calm_refused:
  assumes "calm F C N D E p a w" and "act idle_turn w = Inl e" and "Q bad (w\<lparr>w_errno := e\<rparr>)"
  shows "wp (call bad act) Q w"
proof -
  have "w_turns w = []" using assms(1) by (simp add: calm_def)
  from call_no_turn [OF this, of bad act] assms(2,3) show ?thesis by (simp add: wp_def)
qed

lemma calm_fd: "calm F C N D E p a w \<Longrightarrow> F fd = Some ob \<Longrightarrow> fd_obj w fd = Inr ob"
  by (auto simp: calm_def fd_obj_def fd_objs_def dest: map_le_Some split: option.splits)

lemma calm_dir:
  assumes "calm F C N D E p a w" and "F fd = Some d" and "d \<in> D"
  obtains es where "fd_dir w fd = Inr (d, es)" and "dir_of (w_fs w) d = Some es" and "\<And>n. map_of es n = N (d, n)"
    and "dir_live (w_fs w) d"
proof -
  from assms(1,3) have l: "live_dir (w_fs w) d" and N: "N = (\<lambda>(d, n). fs_lookup (w_fs w) d n)"
    by (auto simp: calm_def)
  then obtain es where es: "dir_of (w_fs w) d = Some es" by (auto simp: live_dir_def)
  with that calm_fd [OF assms(1,2)] l show ?thesis by (simp add: fd_dir_def N fs_lookup_def live_dir_def)
qed

lemma calm_file:
  assumes "calm F C N D E p a w" and "C ob = Some b"
  obtains i where "map_of (w_fs w) ob = Some i" and "i_node i = Reg b"
  using assms by (auto simp: calm_def content_of_def split: option.splits node.splits)

lemma calm_barrier [calm_rules]: "calm F C N D E p a w \<Longrightarrow> Q () w \<Longrightarrow> wp (barrier event path) Q w"
  by (simp add: barrier_def calm_def)

lemma calm_cancellation [calm_rules]:
  "calm F C N D E p a w \<Longrightarrow> Q False w \<Longrightarrow> wp cancellation_requested Q w"
  by (simp add: cancellation_requested_def calm_def)

lemma calm_fsync [calm_rules]:
  assumes "calm F C N D E p a w" and "F fd = Some ob" and "Q 0 w"
  shows "wp (sys_fsync fd) Q w"
  unfolding sys_fd_only_def
  by (rule calm_call [where r = 0 and u = w], rule assms(1)) (use assms(3) in \<open>simp_all add: calm_fd [OF assms(1,2)]\<close>)

lemma calm_fstatat:
  assumes "calm F C N D E p a w" and "F fd = Some d" and "d \<in> D" and "N (d, nm) = Some ob" and "C ob = Some b"
    and "\<And>s. st_id s = ob \<Longrightarrow> S_ISREG s \<Longrightarrow> \<not> S_ISDIR s \<Longrightarrow> Q (Some s) w"
  shows "wp (sys_fstatat fd nm) Q w"
proof -
  obtain es where es: "fd_dir w fd = Inr (d, es)" "\<And>n. map_of es n = N (d, n)"
    by (rule calm_dir [OF assms(1-3)]) blast
  obtain i where i: "map_of (w_fs w) ob = Some i" "i_node i = Reg b" by (rule calm_file [OF assms(1,5)])
  then obtain s where s: "stat_of (w_fs w) ob = Some s" "st_id s = ob" "S_ISREG s" "\<not> S_ISDIR s"
    by (simp add: stat_of_def st_id_def S_ISREG_def S_ISDIR_def)
  show ?thesis
    unfolding sys_fstatat_def
    by (rule calm_call [where r = "Some s" and u = w], rule assms(1)) (simp_all add: es assms(4) s assms(6))
qed

lemma calm_open_fd:
  assumes "calm F C N D E p a w" and "open_fd k ds w = (n, u)"
  shows "0 \<le> n \<and> F n = None \<and> calm (F(n \<mapsto> d_obj ds)) C N D E p a u"
proof -
  from assms(2) have n: "n = free_fd k (w_fds w)" and u: "u = w\<lparr>w_fds := (n, ds) # w_fds w\<rparr>"
    by (auto simp: open_fd_def Let_def)
  have f: "map_of (w_fds w) n = None" "0 \<le> n" using free_fd_fresh [of "w_fds w" k] n by auto
  have F: "F \<subseteq>\<^sub>m fd_objs w" using assms(1) by (simp add: calm_def)
  have fresh: "F n = None"
  proof (cases "F n")
    case (Some ob)
    from map_le_Some [OF F Some] f(1) show ?thesis by (simp add: fd_objs_def)
  qed simp
  from F have "F(n \<mapsto> d_obj ds) \<subseteq>\<^sub>m fd_objs u" by (auto simp: u map_le_def fd_objs_def)
  with assms(1) f fresh show ?thesis by (simp add: calm_def u the_pub_def the_arena_def)
qed

lemma calm_openat:
  assumes "calm F C N D E p a w" and "F fd = Some d" and "d \<in> D" and "N (d, nm) = Some ob" and "C ob = Some b"
    and "O_CREAT \<notin> set fl" and "O_DIRECTORY \<notin> set fl"
    and "\<And>n u. 0 \<le> n \<Longrightarrow> F n = None \<Longrightarrow> calm (F(n \<mapsto> ob)) C N D E p a u \<Longrightarrow> Q n u"
  shows "wp (sys_openat fd nm fl perm) Q w"
proof -
  obtain es where es: "fd_dir w fd = Inr (d, es)" "\<And>n. map_of es n = N (d, n)"
    by (rule calm_dir [OF assms(1-3)]) blast
  obtain i where i: "map_of (w_fs w) ob = Some i" "i_node i = Reg b" by (rule calm_file [OF assms(1,5)])
  obtain n u where o: "open_fd 0 (flag_desc ob fl) w = (n, u)" by fastforce
  from calm_open_fd [OF assms(1) o] have u: "0 \<le> n" "F n = None" "calm (F(n \<mapsto> ob)) C N D E p a u"
    by (simp_all add: flag_desc_def)
  show ?thesis
    unfolding sys_openat_def
    by (rule calm_call [where r = n and u = u], rule assms(1)) (simp_all add: es assms(4,6-8) open_obj_def i o u)
qed

lemma calm_close:
  assumes "calm (F(n \<mapsto> ob)) C N D E p a w" and "F n = None" and "\<And>u. calm F C N D E p a u \<Longrightarrow> Q () u"
  shows "wp (close_fd n) Q w"
proof -
  from assms(1) obtain ds where ds: "map_of (w_fds w) n = Some ds"
    using calm_fd [OF assms(1), of n ob] by (auto simp: fd_obj_def split: option.splits)
  let ?u = "w\<lparr>w_fds := al_del n (w_fds w)\<rparr>"
  have F: "F(n \<mapsto> ob) \<subseteq>\<^sub>m fd_objs w" using assms(1) by (simp add: calm_def)
  have "F \<subseteq>\<^sub>m fd_objs ?u"
    unfolding map_le_def
  proof
    fix k
    assume "k \<in> dom F"
    with assms(2) have "k \<noteq> n" by auto
    moreover from this F have "F k = fd_objs w k" using \<open>k \<in> dom F\<close> by (auto simp: map_le_def split: if_splits)
    ultimately show "F k = fd_objs ?u k" by (simp add: fd_objs_def)
  qed
  with assms(1) have "calm F C N D E p a ?u" by (simp add: calm_def the_pub_def the_arena_def)
  with assms(1,3) ds show ?thesis
    by (simp add: close_fd_def sys_close_def wp_def next_turn_def idle_turn_def calm_def Let_def)
qed

section \<open>Reading\<close>

lemma calm_pread_loop:
  "calm F C N D E p a (w :: 'z pub_world_scheme) \<Longrightarrow> F fd = Some ob \<Longrightarrow> C ob = Some b \<Longrightarrow> length b \<le> SIZE_MAX div 2 \<Longrightarrow>
   used = take (length used) b \<Longrightarrow> length used \<le> cap \<Longrightarrow> 0 < cap \<Longrightarrow>
   \<exists>c. pread_loop e fd used cap w = (Some (b, c), w)"
proof (induction e fd used cap w rule: pread_loop.induct)
  case (1 e fd used cap w)
  have turns: "w_turns w = []" using "1.prems"(1) by (simp add: calm_def)
  obtain i where i: "map_of (w_fs w) ob = Some i" "i_node i = Reg b" by (rule calm_file [OF "1.prems"(1,3)])
  have le: "length used \<le> length b" by (metis "1.prems"(5) length_take min.cobounded1)
  let ?cap = "if length used = cap then 2 * cap else cap"
  let ?got = "take (?cap - length used) (drop (length used) b)"
  have room: "run_state (if length used = cap then alloc else ret True) w = (True, w)"
    by (simp add: alloc_def call_no_turn [OF turns])
  have read: "run_state (sys_pread fd (?cap - length used) (length used)) w = (Some ?got, w)"
    unfolding sys_pread_def call_no_turn [OF turns]
    by (simp add: calm_fd [OF "1.prems"(1,2)] i idle_turn_def short_read_def)
  have fits: "\<not> (length used = cap \<and> SIZE_MAX div 2 < cap)" using le "1.prems"(4) by auto
  have loop: "pread_loop e fd used cap w =
      (if ?got = [] then (Some (used, ?cap), w) else pread_loop e fd (used @ ?got) ?cap w)"
    by (subst pread_loop.simps) (simp only: fits if_False room read Let_def prod.case option.case simp_thms if_True)
  have grown: "used @ ?got = take (length used + (?cap - length used)) b"
    using "1.prems"(5) by (metis take_add)
  show ?case
  proof (cases "?got = []")
    case True
    with "1.prems"(6,7) have "length b \<le> length used" by (auto split: if_splits)
    with "1.prems"(5) have "used = b" by simp
    with loop True show ?thesis by simp
  next
    case False
    have "\<exists>c. pread_loop e fd (used @ ?got) ?cap w = (Some (b, c), w)"
      by (rule "1.IH"(2) [OF fits room [symmetric] _ refl read [symmetric] refl False "1.prems"(1-4)])
        (use grown "1.prems"(6,7) in \<open>auto simp: min_def\<close>)
    with loop False show ?thesis by simp
  qed
qed

lemma calm_read_bytes:
  assumes "calm F C N D E p a w" and "F fd = Some ob" and "C ob = Some b" and "length b \<le> SIZE_MAX div 2"
    and "Q (Some b) w"
  shows "wp (read_bytes fd) Q w"
proof -
  have "w_turns w = []" using assms(1) by (simp add: calm_def)
  moreover obtain c where "pread_loop EFBIG fd [] 4096 w = (Some (b, c), w)"
    using calm_pread_loop [OF assms(1-4), of "[]" 4096 EFBIG] by auto
  ultimately show ?thesis using assms(5) by (simp add: read_bytes_def alloc_def call_no_turn wp_def)
qed

lemma calm_matches_bytes:
  assumes "calm F C N D E p a (w :: 'z pub_world_scheme)" and "F fd = Some d" and "d \<in> D" and "N (d, nm) = Some ob" and "C ob = Some b"
    and "length b \<le> SIZE_MAX div 2" and "\<And>u. calm F C N D E p a u \<Longrightarrow> Q (expected = Some b) u"
  shows "wp (matches_bytes fd nm expected) Q w"
  unfolding matches_bytes_def
proof (rule wp_seq, rule calm_openat [OF assms(1-5)])
  fix n and u :: "'z pub_world_scheme"
  assume n: "0 \<le> n" "F n = None" and u: "calm (F(n \<mapsto> ob)) C N D E p a u"
  have "wp (read_bytes n) (\<lambda>r t. wp (do { close_fd n; ret (r \<noteq> None \<and> r = expected) }) Q t) u"
    by (rule calm_read_bytes [OF u _ assms(5,6)], simp, rule wp_seq, rule calm_close [OF u n(2)])
      (use assms(7) in \<open>auto simp: eq_commute\<close>)
  with n(1) show "wp (if n < 0 then ret False else do { actual \<leftarrow> read_bytes n; close_fd n;
      ret (actual \<noteq> None \<and> actual = expected) }) Q u" by simp
qed simp_all

section \<open>Moving entries\<close>

lemma live_set_dir:
  assumes "dir_of f e = Some es" and "live_dir f d"
  shows "live_dir (set_node e (Dir es') f) d"
proof -
  have "dir_live (set_node e (Dir es') f) d = dir_live f d"
    by (simp add: dir_live_def set_node_def option.map_comp comp_def split: option.splits)
  with assms dir_set_dir [OF assms(1), of es'] show ?thesis by (simp add: live_dir_def)
qed

lemma live_add_entry: "live_dir f d \<Longrightarrow> live_dir (add_entry e n ob f) d"
  by (simp add: add_entry_def live_set_dir split: option.splits)

lemma live_del_entry: "live_dir f d \<Longrightarrow> live_dir (del_entry e n f) d"
  by (simp add: del_entry_def live_set_dir split: option.splits)

lemma live_links:
  assumes "live_dir f d"
  shows "live_dir (add_link ob f) d" and "content_of f ob = Some b \<Longrightarrow> live_dir (drop_link ob f) d"
proof -
  from assms obtain i es where i: "map_of f d = Some i" "i_node i = Dir es" "0 < i_nlink i"
    by (auto simp: live_dir_def dir_live_def dir_of_def split: option.splits node.splits)
  then show "live_dir (add_link ob f) d"
    by (cases "d = ob") (simp_all add: live_dir_def dir_of_def dir_live_def add_link_def)
  assume "content_of f ob = Some b"
  with i have "d \<noteq> ob" by (auto simp: content_of_def)
  with i show "live_dir (drop_link ob f) d"
    by (simp add: live_dir_def dir_of_def dir_live_def drop_link_def)
qed

lemma calm_parts:
  assumes "calm F C N D E p a w"
  shows "content_of (w_fs w) = C" "fs_lookup (w_fs w) d n = N (d, n)"
  using assms by (auto simp: calm_def)

lemma calm_rename:
  assumes w: "calm F C N D E p a (w :: 'z pub_world_scheme)" and F: "F f1 = Some d1" "F f2 = Some d2"
    and D: "d1 \<in> D" "d2 \<in> D" "fst d1 = fst d2" and N: "N (d1, n1) = Some ob" "N (d2, n2) = None"
    and Q: "\<And>u. calm F C (N((d1, n1) := None, (d2, n2) \<mapsto> ob)) D E p a u \<Longrightarrow> Q 0 u"
  shows "wp (sys_rename excl f1 n1 f2 n2) Q w"
proof -
  obtain es1 where 1: "fd_dir w f1 = Inr (d1, es1)" "dir_of (w_fs w) d1 = Some es1" "\<And>n. map_of es1 n = N (d1, n)"
    by (rule calm_dir [OF w F(1) D(1)]) blast
  obtain es2 where 2: "fd_dir w f2 = Inr (d2, es2)" "dir_of (w_fs w) d2 = Some es2" "\<And>n. map_of es2 n = N (d2, n)"
      "dir_live (w_fs w) d2"
    by (rule calm_dir [OF w F(2) D(2)]) blast
  let ?u = "log (Moved d1 n1 d2 n2 ob None) (w\<lparr>w_fs := move_entry d1 n1 d2 n2 ob (w_fs w)\<rparr>)"
  have "calm F C (N((d1, n1) := None, (d2, n2) \<mapsto> ob)) D E p a ?u"
  proof (rule calm_cong [OF w])
    show "content_of (w_fs ?u) = C"
      using move_entry_effect(1) [OF 1(2) 2(2), of n1 n2 ob] calm_parts [OF w] by (simp add: log_def)
    show "(\<lambda>(d, n). fs_lookup (w_fs ?u) d n) = N((d1, n1) := None, (d2, n2) \<mapsto> ob)"
      using move_entry_effect(2) [OF 1(2) 2(2), of n1 n2 ob] calm_parts [OF w]
      by (auto simp: log_def fun_eq_iff)
    show "live_dir (w_fs ?u) d" if "live_dir (w_fs w) d" for d
      using that by (simp add: log_def move_entry_def live_add_entry live_del_entry)
  qed (simp_all add: log_def)
  from Q [OF this] show ?thesis
    unfolding sys_rename_call
    by (intro calm_call [where r = 0 and u = ?u, OF w]) (simp add: rename_act_def 1 2 D N)
qed

lemma calm_rename_absent:
  assumes w: "calm F C N D E p a w" and F: "F f1 = Some d1" "F f2 = Some d2"
    and D: "d1 \<in> D" "d2 \<in> D" and N: "N (d1, n1) = None"
    and Q: "Q (-1) (w\<lparr>w_errno := ENOENT\<rparr>)"
  shows "wp (sys_rename excl f1 n1 f2 n2) Q w"
proof -
  obtain es1 where 1: "fd_dir w f1 = Inr (d1, es1)" "\<And>n. map_of es1 n = N (d1, n)"
    by (rule calm_dir [OF w F(1) D(1)]) blast
  obtain es2 where 2: "fd_dir w f2 = Inr (d2, es2)" by (rule calm_dir [OF w F(2) D(2)]) blast
  show ?thesis
    unfolding sys_rename_call
    by (rule calm_refused [where e = ENOENT], rule w) (simp_all add: rename_act_def 1 2 N Q)
qed

lemma calm_unlinkat:
  assumes w: "calm F C N D E p a (w :: 'z pub_world_scheme)" and F: "F fd = Some d" and D: "d \<in> D"
    and N: "N (d, nm) = Some ob" and C: "C ob = Some b"
    and Q: "\<And>u. calm F C (N((d, nm) := None)) D E p a u \<Longrightarrow> Q 0 u"
  shows "wp (sys_unlinkat fd nm False) Q w"
proof -
  obtain es where es: "fd_dir w fd = Inr (d, es)" "dir_of (w_fs w) d = Some es" "\<And>n. map_of es n = N (d, n)"
    by (rule calm_dir [OF w F D]) blast
  have c: "content_of (w_fs w) ob = Some b" using calm_parts(1) [OF w] C by simp
  then have plain: "dir_of (w_fs w) ob = None"
    by (auto simp: content_of_def dir_of_def split: option.splits node.splits)
  let ?u = "log (Unlinked d nm ob) (w\<lparr>w_fs := drop_link ob (del_entry d nm (w_fs w))\<rparr>)"
  have "calm F C (N((d, nm) := None)) D E p a ?u"
  proof (rule calm_cong [OF w])
    show "content_of (w_fs ?u) = C"
      using del_entry_effect(1) [OF es(2), of nm] calm_parts [OF w] by (simp add: log_def drop_link_effect)
    show "(\<lambda>(d, n). fs_lookup (w_fs ?u) d n) = N((d, nm) := None)"
      using del_entry_effect(2) [OF es(2), of nm] calm_parts [OF w]
      by (auto simp: log_def drop_link_effect fun_eq_iff)
    show "live_dir (w_fs ?u) e" if "live_dir (w_fs w) e" for e
      using live_links(2) [OF live_del_entry [OF that, of d nm], of ob b] c del_entry_effect(1) [OF es(2), of nm]
      by (simp add: log_def)
  qed (simp_all add: log_def)
  from Q [OF this] show ?thesis
    unfolding sys_unlinkat_def
    by (intro calm_call [where r = 0 and u = ?u, OF w]) (simp add: es remove_entry_def N plain)
qed

lemma calm_linkat:
  assumes w: "calm F C N D E p a (w :: 'z pub_world_scheme)" and F: "F f1 = Some d1" "F f2 = Some d2"
    and D: "d1 \<in> D" "d2 \<in> D" and N: "N (d1, n1) = Some ob" "N (d2, n2) = None" and C: "C ob = Some b"
    and dev: "fst ob = fst d2" and Q: "\<And>u. calm F C (N((d2, n2) \<mapsto> ob)) D E p a u \<Longrightarrow> Q 0 u"
  shows "wp (sys_linkat f1 n1 f2 n2) Q w"
proof -
  obtain es1 where 1: "fd_dir w f1 = Inr (d1, es1)" "\<And>n. map_of es1 n = N (d1, n)"
    by (rule calm_dir [OF w F(1) D(1)]) blast
  obtain es2 where 2: "fd_dir w f2 = Inr (d2, es2)" "dir_of (w_fs w) d2 = Some es2" "\<And>n. map_of es2 n = N (d2, n)"
      "dir_live (w_fs w) d2"
    by (rule calm_dir [OF w F(2) D(2)]) blast
  have plain: "\<not> is_dir (w_fs w) ob"
    using calm_parts(1) [OF w] C by (auto simp: is_dir_def content_of_def dir_of_def split: option.splits node.splits)
  let ?u = "log (Linked d2 n2 ob) (w\<lparr>w_fs := add_link ob (add_entry d2 n2 ob (w_fs w))\<rparr>)"
  have "calm F C (N((d2, n2) \<mapsto> ob)) D E p a ?u"
  proof (rule calm_cong [OF w])
    show "content_of (w_fs ?u) = C"
      using add_entry_effect(1) [OF 2(2), of n2 ob] calm_parts [OF w] by (simp add: log_def add_link_effect)
    show "(\<lambda>(d, n). fs_lookup (w_fs ?u) d n) = N((d2, n2) \<mapsto> ob)"
      using add_entry_effect(2) [OF 2(2), of n2 ob] calm_parts [OF w]
      by (auto simp: log_def add_link_effect fun_eq_iff)
    show "live_dir (w_fs ?u) e" if "live_dir (w_fs w) e" for e
      using that by (simp add: log_def live_links live_add_entry)
  qed (simp_all add: log_def)
  from Q [OF this] show ?thesis
    unfolding sys_linkat_def
    by (intro calm_call [where r = 0 and u = ?u, OF w]) (simp add: 1 2 link_entry_def N plain dev)
qed

text \<open>Whichever way the host moves an entry without replacing one.\<close>

lemma calm_no_replace:
  assumes w: "calm F C N D E p a (w :: 'z pub_world_scheme)" and F: "F f1 = Some d1" "F f2 = Some d2"
    and D: "d1 \<in> D" "d2 \<in> D" "fst d1 = fst d2" "fst ob = fst d2"
    and N: "N (d1, n1) = Some ob" "N (d2, n2) = None" and C: "C ob = Some b"
    and Q: "\<And>u. calm F C (N((d1, n1) := None, (d2, n2) \<mapsto> ob)) D E p a u \<Longrightarrow> Q 0 u"
  shows "wp (no_replace f1 n1 f2 n2 False) Q w"
proof (cases "w_host w = FreeBSD")
  case True
  have apart: "(d1, n1) \<noteq> (d2, n2)" using N by auto
  then have twist: "(N((d2, n2) \<mapsto> ob))((d1, n1) := None) = N((d1, n1) := None, (d2, n2) \<mapsto> ob)"
    by (intro fun_upd_twist) auto
  have "wp (sys_unlinkat f1 n1 False) (\<lambda>_. Q 0) u" if u: "calm F C (N((d2, n2) \<mapsto> ob)) D E p a u" for u
    by (rule calm_unlinkat [OF u F(1) D(1) _ C]) (use apart N Q in \<open>auto simp: twist\<close>)
  then have "wp (sys_linkat f1 n1 f2 n2)
      (\<lambda>l. wp (if l \<noteq> 0 then ret (-1) else do { sys_unlinkat f1 n1 False; ret 0 }) Q) w"
    by (intro calm_linkat [OF w F D(1,2) N C D(4)]) simp
  with True show ?thesis by (simp add: no_replace_def get_errno_def)
next
  case False
  have "wp (sys_rename_excl f1 n1 f2 n2) (\<lambda>r t. r = 0 \<and> Q 0 t) w"
    by (rule calm_rename [OF w F D(1-3) N]) (use Q in simp)
  with False show ?thesis
    unfolding no_replace_def get_errno_def
    by (simp del: wp_if_iff) (erule wp_weaken, simp)
qed

section \<open>The registry\<close>

lemma calm_update [calm_rules]:
  assumes "calm F C N D E p a w" and "p_token p = k" and "p_token (f p) = p_token p" and "p_arena (f p) = p_arena p"
    and "\<And>u. calm F C N D E (f p) a u \<Longrightarrow> Q () u"
  shows "wp (update_publication k f) Q w"
proof -
  let ?u = "upd_pub (p_token p) f w" and ?xs = "fst (snd E)" and ?ys = "snd (snd E)"
  have "map (\<lambda>q. if p_token q = p_token p then f q else q) zs = zs" if "\<forall>q \<in> set zs. p_token q \<noteq> p_token p" for zs
    using that by (intro map_idI) auto
  then have "g_publications ?u = ?xs @ f p # ?ys" using assms(1) by (simp add: calm_def upd_pub_def)
  with assms(1,3,4) have "calm F C N D E (f p) a ?u"
    by (simp add: calm_def fd_objs_def the_arena_def upd_pub_def)
  from assms(5) [OF this] assms(2) show ?thesis by (simp add: update_publication_def upd_pub_def)
qed

lemma calm_lookup: "calm F C N D E p a w \<Longrightarrow> Q (Some p) w \<Longrightarrow> wp (lookup (p_token p)) Q w"
  using calm_pub [of F C N D E p a w] by (simp add: lookup_def the_pub_def)

lemma calm_find_arena: "calm F C N D E p a w \<Longrightarrow> Q (Some a) w \<Longrightarrow> wp (find_arena (p_arena p)) Q w"
  by (simp add: calm_def find_arena_def the_arena_def)

lemma calm_reason: "calm F C N D E p a w \<Longrightarrow> (\<And>u. calm F C N D E p a u \<Longrightarrow> Q () u) \<Longrightarrow> wp (reason room msg) Q w"
  by (cases "room = 0") (simp_all add: calm_def fd_objs_def the_pub_def the_arena_def reason_def)

end
