(* ===== verification/Success.thy ===== *)
theory Success
  imports Unhindered
begin

text \<open>
  Validate, Capture, Install and Restore of a publication of a regular file when nothing stands in
  their way: each step starts from what the one before left, and returns 0.
\<close>

section \<open>The steps\<close>













section \<open>A whole publication\<close>






section \<open>Property\<close>




end
