(* ===== verification/Retirement.thy ===== *)
theory Retirement
  imports Success
begin

text \<open>
  The Finish of a publication that nothing hinders: the last one of its arena removes the previous
  output, the journal and the whole workspace, and leaves the registry.
\<close>

section \<open>Calls\<close>






section \<open>The parts of Finish\<close>










section \<open>A whole transaction\<close>




section \<open>Property\<close>



end
