(* ===== verification/PublicationEvents.thy ===== *)
theory PublicationEvents
  imports PublicationClaims
begin

text \<open>
  What a publication does to the name space, read off the history: the exact events of a move that
  replaces nothing, and of every step before Finish.
\<close>

section \<open>A move that replaces nothing\<close>

definition past :: "(int \<rightharpoonup> oid) \<Rightarrow> event list \<Rightarrow> 'z world_scheme \<Rightarrow> bool" where
  "past F E w \<longleftrightarrow> w_log w = E \<and> fd_objs w = F"

lemma past_turn: "past F E w \<Longrightarrow> next_turn w = (tn, w1) \<Longrightarrow> past F E w1"
  by (auto simp: past_def next_turn_def fd_objs_def split: list.splits)

lemma past_errno [simp]: "past F E (w\<lparr>w_errno := e\<rparr>) \<longleftrightarrow> past F E w"
  by (simp add: past_def fd_objs_def)

lemma past_log: "past F E w \<Longrightarrow> past F (e # E) (log e (w\<lparr>w_fs := f\<rparr>))"
  by (simp add: past_def fd_objs_def log_def)

lemma past_dir: "past F E w \<Longrightarrow> fd_dir w fd = Inr (d, es) \<Longrightarrow> F fd = Some d"
  by (auto simp: past_def fd_dir_def fd_obj_objs split: option.splits)

lemma wp_call_past:
  assumes "past F E w" and "\<And>t. past F E t \<Longrightarrow> Q bad t"
    and "\<And>tn t r u. past F E t \<Longrightarrow> act tn t = Inr (r, u) \<Longrightarrow> Q r u"
  shows "wp (call bad act) Q w"
proof -
  obtain tn w1 where n: "next_turn w = (tn, w1)" by fastforce
  with assms(1) have "past F E w1" by (blast intro: past_turn)
  with n assms(2,3) show ?thesis
    by (auto simp: wp_def call_def split: option.splits sum.splits)
qed

lemma past_rename_excl:
  assumes "past F E (w :: 'z world_scheme)" and bad: "\<And>t. past F E t \<Longrightarrow> Q (-1) t"
    and "\<And>d1 d2 ob t. F f1 = Some d1 \<Longrightarrow> F f2 = Some d2 \<Longrightarrow>
      past F (Moved d1 n1 d2 n2 ob None # E) t \<Longrightarrow> Q 0 t"
  shows "wp (sys_rename_excl f1 n1 f2 n2) Q w"
  unfolding sys_rename_call using assms(1) bad
proof (rule wp_call_past)
  fix tn and r :: int and t u :: "'z world_scheme"
  assume t: "past F E t" and act: "rename_act True f1 n1 f2 n2 t = Inr (r, u)"
  from act show "Q r u"
    by (cases rule: rename_act_cases) (auto intro: assms(3) past_log [OF t] past_dir [OF t])
qed (use bad in simp)

lemma past_linkat:
  assumes "past F E (w :: 'z world_scheme)" and bad: "\<And>t. past F E t \<Longrightarrow> Q (-1) t"
    and "\<And>d ob t. F f2 = Some d \<Longrightarrow> past F (Linked d n2 ob # E) t \<Longrightarrow> Q 0 t"
  shows "wp (sys_linkat f1 n1 f2 n2) Q w"
  unfolding sys_linkat_def using assms(1) bad
proof (rule wp_call_past)
  fix tn and r :: int and t u :: "'z world_scheme"
  assume t: "past F E t" and act: "(case fd_dir t f1 of Inl e \<Rightarrow> Inl e
     | Inr (d1, es1) \<Rightarrow> (case map_of es1 n1 of None \<Rightarrow> Inl ENOENT
       | Some ob \<Rightarrow> (case fd_dir t f2 of Inl e \<Rightarrow> Inl e
         | Inr (d2, es2) \<Rightarrow> link_entry ob d2 es2 n2 t))) = Inr (r, u)"
  then obtain ob d es where d: "fd_dir t f2 = Inr (d, es)" "link_entry ob d es n2 t = Inr (r, u)"
    by (auto split: sum.splits option.splits prod.splits)
  with link_entry_log [OF d(2)] show "Q r u" by (auto intro: assms(3) past_log [OF t] past_dir [OF t])
qed (use bad in simp)

lemma past_unlinkat:
  assumes "past F E (w :: 'z world_scheme)" and bad: "\<And>t. past F E t \<Longrightarrow> Q (-1) t"
    and "\<And>d ob t. F fd = Some d \<Longrightarrow> past F (Unlinked d nm ob # E) t \<Longrightarrow> Q 0 t"
  shows "wp (sys_unlinkat fd nm b) Q w"
  unfolding sys_unlinkat_def using assms(1) bad
proof (rule wp_call_past)
  fix tn and r :: int and t u :: "'z world_scheme"
  assume t: "past F E t" and act: "(case fd_dir t fd of Inl e \<Rightarrow> Inl e
     | Inr (d, es) \<Rightarrow> remove_entry b d es nm t) = Inr (r, u)"
  then obtain d es where d: "fd_dir t fd = Inr (d, es)" "remove_entry b d es nm t = Inr (r, u)"
    by (auto split: sum.splits prod.splits)
  with remove_entry_log [OF d(2)] show "Q r u" by (auto intro: assms(3) past_log [OF t] past_dir [OF t])
qed (use bad in simp)

text \<open>The three outcomes: nothing; moved; linked, with or without the old entry removed.\<close>

definition moved_new :: "(int \<rightharpoonup> oid) \<Rightarrow> int \<Rightarrow> cstring \<Rightarrow> int \<Rightarrow> cstring \<Rightarrow> event list \<Rightarrow> bool" where
  "moved_new F f1 n1 f2 n2 evs \<longleftrightarrow> (\<exists>d2 ob. F f2 = Some d2
     \<and> ((\<exists>d1. F f1 = Some d1 \<and> evs = [Moved d1 n1 d2 n2 ob None]) \<or> evs = [Linked d2 n2 ob]
        \<or> (\<exists>d1 old. F f1 = Some d1 \<and> evs = [Unlinked d1 n1 old, Linked d2 n2 ob])))"

lemma past_no_replace:
  assumes "past F E w"
  shows "wp (no_replace f1 n1 f2 n2 directory) (\<lambda>r t. r = -1 \<and> w_log t = E
     \<or> r = 0 \<and> (\<exists>evs. w_log t = evs @ E \<and> moved_new F f1 n1 f2 n2 evs)) w"
    (is "wp _ ?Q w")
proof -
  have none: "?Q (-1) t" if "past F E t" for t using that by (simp add: past_def)
  have some: "?Q 0 t" if "w_log t = evs @ E" "moved_new F f1 n1 f2 n2 evs" for evs t using that by auto
  have moved: "?Q 0 t" if "F f1 = Some d1" "F f2 = Some d2" "past F (Moved d1 n1 d2 n2 ob None # E) t" for d1 d2 ob t
    by (rule some [of _ "[Moved d1 n1 d2 n2 ob None]"]) (use that in \<open>simp_all add: past_def moved_new_def\<close>)
  have linked: "?Q 0 t" if "F f2 = Some d2" "past F (Linked d2 n2 ob # E) t" for d2 ob t
    by (rule some [of _ "[Linked d2 n2 ob]"]) (use that in \<open>simp_all add: past_def moved_new_def\<close>)
  have both: "?Q 0 t"
    if "F f1 = Some d1" "F f2 = Some d2" "past F (Unlinked d1 n1 x # Linked d2 n2 ob # E) t" for d1 d2 ob x t
    by (rule some [of _ "[Unlinked d1 n1 x, Linked d2 n2 ob]"])
      (use that in \<open>simp_all add: past_def moved_new_def\<close>)
  have fail: "wp (fail_with e) ?Q t" if "past F E t" for e t
    using that by (simp add: fail_with_def set_errno_def past_def)
  show ?thesis
    unfolding no_replace_def get_errno_def using assms
    by - (intro wp_intros past_rename_excl past_linkat past_unlinkat fail | assumption | (rule none, assumption)
        | (rule moved, assumption, assumption, assumption) | (rule linked, assumption, assumption)
        | (rule both, assumption, assumption, assumption) | (simp; fail))+
qed


section \<open>Steps before Finish\<close>

text \<open>\<open>views\<close> is \<open>sees\<close> without the registries, which no event depends on.\<close>

named_theorems view_rules \<open>registry operations\<close>

definition views :: "(int \<rightharpoonup> oid) \<Rightarrow> (event \<Rightarrow> bool) \<Rightarrow> event list \<Rightarrow> 'z world_scheme \<Rightarrow> bool" where
  "views F ok L w \<longleftrightarrow> sees F ok L (world.more w) w"

lemma views_lift:
  assumes "views F ok L w" and "\<And>M. sees F ok L M w \<Longrightarrow> wp m (\<lambda>r t. sees F ok L M t) w"
    and "\<And>r t. views F ok L t \<Longrightarrow> Q r t"
  shows "wp m Q w"
proof (rule wp_weaken [OF assms(2)])
  show "sees F ok L (world.more w) w" using assms(1) by (simp add: views_def)
  fix r t
  assume t: "sees F ok L (world.more w) t"
  then have "world.more t = world.more w" by (simp add: sees_def)
  with t assms(3) show "Q r t" by (simp add: views_def)
qed

lemma views_weaken: "views F ok L w \<Longrightarrow> G \<subseteq>\<^sub>m F \<Longrightarrow> views G ok L w"
  unfolding views_def by (rule sees_weaken)

lemma views_reg: "views F ok L w \<Longrightarrow> w_fds t = w_fds w \<Longrightarrow> w_log t = w_log w \<Longrightarrow> views F ok L t"
  by (simp add: views_def sees_def fd_objs_def)

lemma views_update_publication [view_rules]:
  "views F ok L w \<Longrightarrow> (\<And>r t. views F ok L t \<Longrightarrow> Q r t) \<Longrightarrow> wp (update_publication k f) Q w"
  by (simp add: update_publication_def views_reg)

lemma views_update_arena [view_rules]:
  "views F ok L w \<Longrightarrow> (\<And>r t. views F ok L t \<Longrightarrow> Q r t) \<Longrightarrow> wp (update_arena k f) Q w"
  by (simp add: update_arena_def views_reg)

lemma views_reason [view_rules]:
  "views F ok L w \<Longrightarrow> (\<And>r t. views F ok L t \<Longrightarrow> Q r t) \<Longrightarrow> wp (reason room msg) Q w"
  by (simp add: reason_def views_reg)

lemma views_lookup [view_rules]: "views F ok L w \<Longrightarrow> (\<And>r. Q r w) \<Longrightarrow> wp (lookup k) Q w"
  by (simp add: lookup_def)

lemma views_find_arena [view_rules]: "views F ok L w \<Longrightarrow> (\<And>r. Q r w) \<Longrightarrow> wp (find_arena k) Q w"
  by (simp add: find_arena_def)

lemma views_quarantine [view_rules]:
  assumes "views Map.empty ok L w" and "\<And>r t. views Map.empty ok L t \<Longrightarrow> Q r t"
  shows "wp (quarantine k) Q w"
  unfolding quarantine_def using assms(1)
  by - (intro wp_intros view_rules assms(2) | assumption | (simp; fail)
      | (rule views_lift, assumption, ((intro sees_rules | assumption | (simp; fail))+)[1]))+

text \<open>The end of a step: nothing more is claimed than the events.\<close>

abbreviation logged :: "(event \<Rightarrow> bool) \<Rightarrow> event list \<Rightarrow> 'z world_scheme \<Rightarrow> bool" where
  "logged \<equiv> views Map.empty"

lemma views_logged: "views F ok L w \<Longrightarrow> logged ok L w"
  by (rule views_weaken) simp_all

lemma logged_step_fail:
  assumes "views F ok L w"
  shows "wp (step_fail p a action room) (\<lambda>r. logged ok L) w"
  unfolding step_fail_def using views_logged [OF assms]
  by - (intro wp_intros view_rules | assumption | (simp; fail)
      | (rule views_lift, assumption, ((intro sees_rules | assumption | (simp; fail))+)[1]))+

lemma logged_validate:
  assumes "views F ok L w"
  shows "wp (step_validate p a room) (\<lambda>r. logged ok L) w"
proof -
  have "wp (validate_regular p a room) (\<lambda>r. logged ok L) t" if "logged ok L t" for t
    unfolding validate_regular_def using that
    by - (intro wp_intros view_rules logged_step_fail | assumption | (simp; fail)
        | (rule views_lift, assumption, ((intro sees_rules | assumption | (simp; fail))+)[1]))+
  moreover have "wp (validate_directory p a room) (\<lambda>r. logged ok L) t" if "logged ok L t" for t
    unfolding validate_directory_def using that
    by - (intro wp_intros view_rules logged_step_fail | assumption | (simp; fail)
        | (rule views_lift, assumption, ((intro sees_rules | assumption | (simp; fail))+)[1]))+
  ultimately show ?thesis
    unfolding step_validate_def using views_logged [OF assms]
    by - (intro wp_intros view_rules logged_step_fail | assumption | (simp; fail)
        | (rule views_lift, assumption, ((intro sees_rules | assumption | (simp; fail))+)[1]))+
qed

text \<open>
  The events allowed: the entry under the publication's name may leave its directory \<open>D\<close> for the
  recovery directory \<open>R\<close>; an entry of the stage \<open>P\<close> or of \<open>R\<close> may come to that name, where it replaces
  nothing; a link made there may be followed by the removal of the entry it was made from.
\<close>

definition careful :: "publication \<Rightarrow> oid \<Rightarrow> oid \<Rightarrow> oid \<Rightarrow> event \<Rightarrow> bool" where
  "careful p D P R e \<longleftrightarrow> (let own = [(P, p_name p), (R, p_recovery p), (R, rollback_name p)] in case e of
     Moved d n d' n' ob old \<Rightarrow>
       d = D \<and> n = p_name p \<and> d' = R \<and> (n' = p_recovery p \<or> n' = rollback_name p)
       \<or> (d, n) \<in> set own \<and> d' = D \<and> n' = p_name p \<and> old = None
   | Linked d n ob \<Rightarrow> d = D \<and> n = p_name p
   | Unlinked d n ob \<Rightarrow> (d, n) \<in> set own
   | _ \<Rightarrow> False)"

lemma careful_simps [simp]:
  "careful p D P R (Moved D (p_name p) R (p_recovery p) ob old)"
  "careful p D P R (Moved D (p_name p) R (rollback_name p) ob old)"
  "careful p D P R (Moved P (p_name p) D (p_name p) ob None)"
  "careful p D P R (Moved R (p_recovery p) D (p_name p) ob None)"
  "careful p D P R (Moved R (rollback_name p) D (p_name p) ob None)"
  "careful p D P R (Linked D (p_name p) ob)"
  "careful p D P R (Unlinked P (p_name p) ob)"
  "careful p D P R (Unlinked R (p_recovery p) ob)"
  "careful p D P R (Unlinked R (rollback_name p) ob)"
  by (simp_all add: careful_def)


text \<open>The arena's descriptors are open on those directories.\<close>

definition within :: "arena \<Rightarrow> oid \<Rightarrow> oid \<Rightarrow> oid \<Rightarrow> (int \<rightharpoonup> oid) \<Rightarrow> bool" where
  "within a D P R F \<longleftrightarrow> F (ar_parent a) = Some D \<and> F (ar_private_fd a) = Some P
     \<and> F (ar_recovery_fd a) = Some R"

lemma logged_capture:
  assumes "views F (careful p D P R) L w" and "within a D P R F"
  shows "wp (step_capture p a paths ids room) (\<lambda>r. logged (careful p D P R) L) w"
  unfolding step_capture_def using assms(1)
  by - (intro wp_intros view_rules logged_step_fail | assumption | (simp; fail) | (rule views_logged, assumption)
      | (rule views_lift, assumption, ((intro sees_rules | assumption
          | (simp add: assms(2) [unfolded within_def]; fail))+)[1]))+

lemma logged_install:
  assumes "views F (careful p D P R) L w" and "within a D P R F"
  shows "wp (step_install p a room) (\<lambda>r. logged (careful p D P R) L) w"
  unfolding step_install_def using assms(1)
  by - (intro wp_intros view_rules logged_step_fail | assumption | (simp; fail) | (rule views_logged, assumption)
      | (rule views_lift, assumption, ((intro sees_rules | assumption
          | (simp add: assms(2) [unfolded within_def]; fail))+)[1]))+

lemma views_remove_file:
  assumes "views F (careful p D P R) L w" and "F fd = Some R" and "\<And>r t. views F (careful p D P R) L t \<Longrightarrow> Q r t"
  shows "wp (remove_validated fd (rollback_name p) st None) Q w"
  unfolding remove_validated_def using assms(1)
  by - (intro wp_intros assms(3) | assumption | (simp; fail)
      | (rule views_lift, assumption, ((intro sees_rules | assumption | (simp add: assms(2); fail))+)[1]))+

lemma views_restore_installed:
  assumes "views F (careful p D P R) L w" and "within a D P R F" and "p_fresh_tree p = None"
    and "\<And>r t. views F (careful p D P R) L t \<Longrightarrow> Q r t"
  shows "wp (restore_installed p a) Q w"
  unfolding restore_installed_def assms(3) using assms(1)
  by - (intro wp_intros view_rules assms(4) views_remove_file | assumption
      | (simp add: assms(2) [unfolded within_def]; fail)
      | (rule views_lift, assumption, ((intro sees_rules | assumption
          | (simp add: assms(2) [unfolded within_def]; fail))+)[1]))+

lemma views_restore_captured:
  assumes "views F (careful p D P R) L w" and "within a D P R F"
    and "\<And>r t. views F (careful p D P R) L t \<Longrightarrow> Q r t"
  shows "wp (restore_captured p a) Q w"
  unfolding restore_captured_def using assms(1)
  by - (intro wp_intros view_rules assms(3) | assumption | (simp; fail)
      | (rule views_lift, assumption, ((intro sees_rules | assumption
          | (simp add: assms(2) [unfolded within_def]; fail))+)[1]))+

lemma logged_restore:
  assumes "views F (careful p D P R) L w" and "within a D P R F" and "p_fresh_tree p = None"
  shows "wp (step_restore p a room) (\<lambda>r. logged (careful p D P R) L) w"
  unfolding step_restore_def using assms(1)
  by - (intro wp_intros view_rules logged_step_fail views_restore_installed [OF _ assms(2,3)]
        views_restore_captured [OF _ assms(2)]
      | assumption | (simp; fail) | (rule views_logged, assumption)
      | (rule views_lift, assumption, ((intro sees_rules | assumption | (simp; fail))+)[1]))+

lemma find_arena_after_reason:
  "wp (reason room msg) (\<lambda>r t. wp (find_arena k) Q t) w \<longleftrightarrow>
   wp (reason room msg) (\<lambda>r t. Q (the_arena k w) t) w"
  by (simp add: reason_def find_arena_def the_arena_def)

lemma logged_step:
  assumes w: "views F (careful p D P R) L w" and p: "the_pub token w = Some p"
    and a: "the_arena (p_arena p) w = Some a" and in': "within a D P R F" and "action \<noteq> 4"
    and tree: "action = 3 \<Longrightarrow> p_fresh_tree p = None"
  shows "wp (landin_publication_step_locked token action paths ids room)
    (\<lambda>r. logged (careful p D P R) L) w"
proof -
  have found: "wp (lookup token) Q w" if "Q (Some p) w" for Q
    using that p by (simp add: lookup_def the_pub_def)
  have within: "wp (reason room []) (\<lambda>r t. wp (find_arena (p_arena p)) Q t) w"
    if "\<And>t. views F (careful p D P R) L t \<Longrightarrow> Q (Some a) t" for Q
    unfolding find_arena_after_reason a using w that by (rule views_reason)
  show ?thesis
    unfolding landin_publication_step_locked_def
    apply (rule wp_seq, rule found)
    apply (simp only: option.case wp_bind, rule within)
    apply (simp only: option.case wp_bind [symmetric])
    by (intro wp_intros view_rules logged_step_fail logged_validate logged_capture [OF _ in']
        logged_install [OF _ in'] logged_restore [OF _ in' tree] | assumption
      | (simp add: assms(5); fail) | (rule views_logged, assumption)
      | (rule views_lift, assumption, ((intro sees_rules | assumption | (simp; fail))+)[1]))+
qed


section \<open>Properties\<close>

text \<open>
  C9. A no-replace move replaces nothing. Under every interleaving and failure it either fails and
  has changed nothing, or it has succeeded by exactly one of: one exclusive move to a free name;
  one link made at a free name, with the old entry removed after it or (where that removal failed)
  still there. No other change of the name space is made.
\<close>

theorem no_replace_replaces_nothing:
  "case run_state (no_replace fromfd from tofd to directory) w of (r, t) \<Rightarrow>
     r = -1 \<and> w_log t = w_log w
     \<or> r = 0 \<and> (\<exists>evs. w_log t = evs @ w_log w \<and> moved_new (fd_objs w) fromfd from tofd to evs)"
  using past_no_replace [of "fd_objs w" "w_log w" w fromfd "from" tofd to directory]
  by (simp add: past_def wp_def case_prod_beta)

text \<open>
  C6. Until Finish a publication never destroys an entry of the destination's directory. Whatever
  the environment does, every change of the name space made by a step is one of: the entry under the
  publication's name moved into the recovery directory; an entry of the stage or of the recovery
  directory moved or linked to that name, replacing nothing; an entry of the stage or of the
  recovery directory under the publication's own names removed. (A Restore that has a new
  directory tree to remove is excluded: it removes the tree's entries below the recovery directory.)
\<close>

theorem destination_never_overwritten:
  assumes "the_pub token w = Some p" and "the_arena (p_arena p) w = Some a"
    and "\<forall>fd \<in> {ar_parent a, ar_private_fd a, ar_recovery_fd a}. 0 \<le> fd"
    and "fd_objs w (ar_parent a) = Some D" and "fd_objs w (ar_private_fd a) = Some P"
    and "fd_objs w (ar_recovery_fd a) = Some R"
    and "action \<noteq> 4" and "action = 3 \<longrightarrow> p_fresh_tree p = None"
    and "run_state (landin_publication_step_locked token action paths ids room) w = (r, t)"
  shows "\<exists>evs. w_log t = evs @ w_log w \<and> list_all (careful p D P R) evs"
proof -
  let ?F = "(fd_objs w) |` {ar_parent a, ar_private_fd a, ar_recovery_fd a}"
  have "views ?F (careful p D P R) (w_log w) w"
    using assms(3) by (auto simp: views_def sees_def map_le_def restrict_map_def split: if_splits)
  moreover have "within a D P R ?F" using assms(4-6) by (simp add: within_def)
  ultimately have "logged (careful p D P R) (w_log w) t"
    using wpD [OF logged_step [OF _ assms(1,2) _ assms(7)] assms(9)] assms(8) by blast
  then show ?thesis by (auto simp: views_def sees_def list_all_iff)
qed

lemma destination_never_overwritten_witness:
  "\<exists>evs. w_log (snd (run_state (landin_publication_step_locked 1 2 [] [] 100) sample_world)) = evs
     \<and> list_all (careful sample_publication (1, 1) (1, 3) (1, 4)) evs"
proof -
  have "the_arena (p_arena sample_publication) sample_world = Some sample_arena"
    "\<forall>fd \<in> {ar_parent sample_arena, ar_private_fd sample_arena, ar_recovery_fd sample_arena}. 0 \<le> fd"
    "fd_objs sample_world (ar_parent sample_arena) = Some (1, 1)"
    "fd_objs sample_world (ar_private_fd sample_arena) = Some (1, 3)"
    "fd_objs sample_world (ar_recovery_fd sample_arena) = Some (1, 4)"
    by (simp_all add: the_arena_def sample_world_def sample_publication_def sample_arena_def fd_objs_def
        sample_desc_def)
  from destination_never_overwritten [OF sample_pub this _ _ surjective_pairing, of 2 "[]" "[]" 100]
  show ?thesis by (simp add: sample_world_def)
qed

end
