(* ===== verification/JournalFacts.thy ===== *)
theory JournalFacts
  imports PublicationEvents
begin

text \<open>
  The journal's format: what one process writes about its publication is what another reads back
  when it discovers the workspace.
\<close>

section \<open>Decimal numbers\<close>

lemma digits_10_digit: "list_all is_digit (dec n)"
proof (induction n rule: less_induct)
  case (less n)
  have d: "is_digit (digit_char k)" if "k < 10" for k
    using that by (simp add: is_digit_def digit_char_def)
  show ?case
  proof (cases "n < 10")
    case True
    with d show ?thesis by (simp add: digits.simps)
  next
    case False
    then have "list_all is_digit (dec (n div 10))" by (intro less) simp
    with False d show ?thesis by (subst digits.simps) simp
  qed
qed

lemma dec_Nil [simp]: "dec n \<noteq> []"
  by (subst digits.simps) simp

lemma length_dec: "n < 10 ^ k \<Longrightarrow> 0 < k \<Longrightarrow> length (dec n) \<le> k"
proof (induction k arbitrary: n)
  case (Suc k)
  show ?case
  proof (cases "n < 10")
    case True
    then show ?thesis by (simp add: digits.simps)
  next
    case False
    have "n div 10 < 10 ^ k" using Suc.prems(1) by (simp add: less_mult_imp_div_less mult.commute)
    moreover have "k \<noteq> 0" using False Suc.prems(1) by (cases k) auto
    ultimately have "length (dec (n div 10)) \<le> k" using Suc.IH by simp
    with False show ?thesis by (subst digits.simps) simp
  qed
qed simp

text \<open>\<^verbatim>\<open>strtoul\<close> reads back what \<^verbatim>\<open>%zu\<close> wrote, up to the first character that is no digit.\<close>

lemma digit_no_space: "is_digit c \<Longrightarrow> \<not> is_space c \<and> c \<noteq> CHR ''-'' \<and> c \<noteq> CHR ''+''"
  by (auto simp: is_digit_def is_space_def Let_def)

lemma takeWhile_dec: "\<not> is_digit c \<Longrightarrow> takeWhile is_digit (dec n @ c # s) = dec n \<and>
    dropWhile is_digit (dec n @ c # s) = c # s"
  using digits_10_digit [of n] by (simp add: list_all_iff)

lemma strtoul_dec:
  assumes "n < 2 ^ 64" and "\<not> is_digit c"
  shows "strtoul (dec n @ c # s) = (n, c # s)"
proof -
  obtain x xs where dec: "dec n = x # xs" by (cases "dec n") auto
  with digits_10_digit [of n] have x: "\<not> is_space x \<and> x \<noteq> CHR ''-'' \<and> x \<noteq> CHR ''+''"
    by (simp add: digit_no_space)
  have "value_of 10 (dec n) = n" by (rule value_of_digits) simp_all
  with assms x takeWhile_dec [OF assms(2), of n s] show ?thesis
    unfolding strtoul_def dec by (simp add: dec Let_def)
qed

section \<open>Properties\<close>

text \<open>
  C11. The journal's round trip. The target a discovering process reads from a record is the name
  the publishing process wrote into it, whatever the paths beside it contain.
\<close>

theorem journal_round_trip:
  assumes "p_name p \<noteq> []" and "CHR ''/'' \<notin> set (p_name p)" and "CHR 0x00 \<notin> set (p_name p)"
    and "length (p_name p) < 2 ^ 64"
  shows "record_target (journal_text a p) = Some (p_name p)"
proof -
  let ?mid = "[newline] @ ''logical='' @ p_path p @ [newline] @ ''staged='' @ p_stage p @ [newline]
     @ ''previous='' @ ar_recovery_path a @ ''/'' @ p_recovery p @ [newline]
     @ ''captured-new='' @ ar_recovery_path a @ ''/''
     @ (case p_rollback p of Some r \<Rightarrow> r | None \<Rightarrow> []) @ [newline]
     @ ''expected='' @ (if p_absent p then ''absent'' else ''existing'')
     @ '' device='' @ dec (st_dev (p_expected p)) @ '' inode='' @ dec (st_ino (p_expected p)) @ [newline]"
  obtain mid where wrote: "journal_text a p
      = journal_magic @ dec (length (p_name p)) @ newline # p_name p @ mid @ journal_end"
    by (rule that [of ?mid]) (simp only: journal_text_def journal_magic_def journal_end_def append_assoc append.simps)
  have "\<not> is_digit newline" by (simp add: newline_def is_digit_def)
  from strtoul_dec [OF assms(4) this] assms show ?thesis
    unfolding wrote record_target_def by simp
qed

definition note_publication :: publication where
  "note_publication = sample_publication\<lparr>p_name := ''out'' @ [newline] @ ''file''\<rparr>"

lemma journal_round_trip_witness:
  "record_target (journal_text sample_arena note_publication) = Some (''out'' @ [newline] @ ''file'')"
proof -
  have "newline \<noteq> CHR ''/''" "newline \<noteq> CHR 0x00" by code_simp+
  with journal_round_trip [of note_publication sample_arena] show ?thesis
    by (simp add: note_publication_def)
qed


text \<open>
  The names of a workspace are understood. For every token the process can give (an \<^verbatim>\<open>int\<close>), a
  discovering process takes the record's name for a record, the name of a record being built for
  that and not for a record, and the recovery names it derives from a record's name are exactly
  those the publication uses.
\<close>

theorem journal_names_understood:
  assumes "token < 2 ^ 31"
  shows "numbered (journal_name token) ''destination-''
     \<and> numbered (building_name token) ''.destination-building-''
     \<and> \<not> numbered (building_name token) ''destination-''
     \<and> ''.previous-'' @ take 10 (drop 12 (journal_name token)) = snprintf 40 (''.previous-'' @ dec token)
     \<and> ''.rollback-'' @ take 10 (drop 12 (journal_name token)) = snprintf 40 (''.rollback-'' @ dec token)"
proof -
  have len: "length (dec token) \<le> 10" by (rule length_dec) (use assms in simp_all)
  with digits_10_digit [of token] show ?thesis
    by (simp add: numbered_def journal_name_def building_name_def snprintf_def starts_with_def Let_def)
qed

lemma journal_names_understood_witness: "numbered (journal_name 2147483647) ''destination-''"
  using journal_names_understood [of 2147483647] by simp

end
