(* ===== verification/GuardFacts.thy ===== *)
theory GuardFacts
  imports PublicationEvents
begin

text \<open>
  Who answers for a name. A guarded name space claims the paths below its own directories and all
  its reserved names; its opener answers for them and declines every other path with -2, leaving
  everything as it was. The chain of the staged names, the private names and the public file
  system therefore sends each path to exactly one of them.
\<close>

section \<open>The contract\<close>

locale guarded_names =
  fixes owns :: "'s \<Rightarrow> cstring \<Rightarrow> bool"
    and opener :: "cstring \<Rightarrow> oflag list \<Rightarrow> nat \<Rightarrow> ('s, int) state"
  assumes declines: "\<not> owns w path \<Longrightarrow> run_state (opener path fl m) w = (-2, w)"
    and answers: "owns w path \<Longrightarrow> run_state (opener path fl m) w = (r, t) \<Longrightarrow> r \<noteq> -2"
begin

lemma declined_iff: "run_state (opener path fl m) w = (r, t) \<Longrightarrow> r = -2 \<longleftrightarrow> \<not> owns w path"
  using declines answers by (cases "owns w path") auto

lemma declined_same: "run_state (opener path fl m) w = (-2, t) \<Longrightarrow> t = w"
  using declines answers by (cases "owns w path") fastforce+

text \<open>With a fallback: an owned path never reaches it, any other goes straight to it.\<close>

lemma fallback_owned:
  assumes "owns w path"
  shows "run_state (State_Monad.bind (opener path fl m) (\<lambda>r. if r = -2 then other else ret r)) w
    = run_state (opener path fl m) w"
  using answers [OF assms] by (cases "run_state (opener path fl m) w") auto

lemma fallback_public:
  assumes "\<not> owns w path"
  shows "run_state (State_Monad.bind (opener path fl m) (\<lambda>r. if r = -2 then other else ret r)) w
    = run_state other w"
  by (simp add: declines [OF assms])

end

section \<open>Staged and private names\<close>

definition staged_name :: "'z pub_world_scheme \<Rightarrow> cstring \<Rightarrow> bool" where
  "staged_name w path \<longleftrightarrow> stage_arena_in (g_arenas w) path \<noteq> None \<or> reserved_stage path False"

definition private_name :: "'z private_world_scheme \<Rightarrow> cstring \<Rightarrow> bool" where
  "private_name w path \<longleftrightarrow> private_match_in (r_roots w) path \<noteq> None \<or> landin_reserved_private path"

definition descriptor :: "int \<Rightarrow> bool" where
  "descriptor r \<longleftrightarrow> r = -1 \<or> 0 \<le> r"

lemma descriptor_simps [simp]: "descriptor (-1)" "0 \<le> r \<Longrightarrow> descriptor r" "\<not> descriptor (-2)"
  by (simp_all add: descriptor_def)

text \<open>No call of the walks fails with anything but -1.\<close>

abbreviation anyhow :: "'z world_scheme \<Rightarrow> bool" where
  "anyhow w \<equiv> sees Map.empty (\<lambda>_. True) (w_log w) (world.more w) w"

lemma descend_descriptor:
  assumes "\<And>fd part (w :: 'z world_scheme). sees Map.empty (\<lambda>_. True) L M w \<Longrightarrow>
      wp (final fd part) (\<lambda>r t. descriptor r \<and> sees Map.empty (\<lambda>_. True) L M t) w"
  shows "sees Map.empty (\<lambda>_. True) L M w \<Longrightarrow> wp (stage_descend final fd parts) (\<lambda>r t. descriptor r) w"
proof (induction parts arbitrary: fd w)
  case Nil
  then show ?case
    unfolding stage_descend.simps by - (intro wp_intros sees_rules | assumption | (simp; fail))+
next
  case (Cons part rest)
  have last: "wp (final fd part) Q t" if "sees Map.empty (\<lambda>_. True) L M t"
    "\<And>r t. descriptor r \<Longrightarrow> sees Map.empty (\<lambda>_. True) L M t \<Longrightarrow> Q r t" for Q and t :: "'z world_scheme"
    by (rule wp_weaken [OF assms [OF that(1)]]) (use that(2) in auto)
  show ?case
    unfolding stage_descend.simps using Cons.prems
    by - (intro wp_intros sees_rules Cons.IH last | assumption | (simp; fail))+
qed

lemma stage_open_answers:
  assumes "staged_name w path"
  shows "wp (stage_open path fl m) (\<lambda>r t. r \<noteq> -2) w"
proof -
  have walk: "wp (stage_descend (\<lambda>fd part. sys_openat fd part (fl @ [O_NOFOLLOW, O_CLOEXEC]) m) fd parts)
      (\<lambda>r t. r \<noteq> -2) t" if "sees Map.empty (\<lambda>_. True) L M t" for L M fd parts t
    by (rule wp_weaken [OF descend_descriptor [OF _ that]])
      (intro sees_openat | assumption | (simp; fail) | force)+
  have found: "wp (gets (\<lambda>w. stage_arena_in (g_arenas w) path)) Q w"
    if "Q (stage_arena_in (g_arenas w) path) w" for Q using that by simp
  show ?thesis
    unfolding stage_open_def stage_arena_def stage_walk_def
    by (intro wp_seq found wp_case_option wp_case_prod wp_if wp_ret sees_rules walk | assumption | rule sees_start
        | (insert assms, simp add: staged_name_def; fail) | (simp; fail))+
qed


lemma private_descend_parent:
  "sees Map.empty (\<lambda>_. True) L M w \<Longrightarrow> 0 \<le> fd \<Longrightarrow>
   wp (private_descend fd parts) (\<lambda>r t. sees Map.empty (\<lambda>_. True) L M t
     \<and> (case r of None \<Rightarrow> True | Some (parent, name) \<Rightarrow> 0 \<le> parent)) w"
proof (induction parts arbitrary: fd w)
  case Nil
  then show ?case
    unfolding private_descend.simps by - (intro wp_intros sees_rules | assumption | (simp; fail))+
next
  case (Cons part rest)
  show ?case
    unfolding private_descend.simps using Cons.prems
    by - (intro wp_intros sees_close sees_openat seen.on_set_errno Cons.IH | assumption | (simp; fail))+
qed

lemma private_parent_answers:
  assumes "sees Map.empty (\<lambda>_. True) L M w" and "private_name w path"
  shows "wp (landin_private_parent_locked path)
    (\<lambda>r t. descriptor (fst r) \<and> sees Map.empty (\<lambda>_. True) L M t) w"
proof -
  have found: "wp (gets (\<lambda>w. private_match_in (r_roots w) path)) Q w"
    if "Q (private_match_in (r_roots w) path) w" for Q using that by simp
  have walk: "wp (private_descend fd parts) Q t" if "sees Map.empty (\<lambda>_. True) L M t" "\<not> (fd < 0 \<or> b)"
    "\<And>t. sees Map.empty (\<lambda>_. True) L M t \<Longrightarrow> Q None t"
    "\<And>n nm t. 0 \<le> n \<Longrightarrow> sees Map.empty (\<lambda>_. True) L M t \<Longrightarrow> Q (Some (n, nm)) t" for fd b parts t Q
    by (rule wp_weaken [OF private_descend_parent [OF that(1)]])
      (use that(2-4) in \<open>auto split: option.splits\<close>)
  show ?thesis
    unfolding landin_private_parent_locked_def landin_private_match_def
    by (intro wp_seq found wp_case_option wp_case_prod wp_if wp_ret seen.on_set_errno sees_dup seen.on_alloc sees_close
        | assumption | rule assms(1) | (insert assms(2), simp add: private_name_def; fail) | (simp; fail)
        | (rule walk, assumption, assumption))+
qed

lemma private_open_answers:
  assumes "private_name w path"
  shows "wp (landin_private_open_locked path fl m) (\<lambda>r t. r \<noteq> -2) w"
proof -
  have parent: "wp (landin_private_parent_locked path) Q w"
    if "\<And>n a b t. descriptor n \<Longrightarrow> anyhow w \<Longrightarrow> sees Map.empty (\<lambda>_. True) (w_log w) (world.more w) t \<Longrightarrow>
        Q (n, a, b) t" for Q
    by (rule wp_weaken [OF private_parent_answers [OF sees_start assms]])
      (use that sees_start [of w] in \<open>auto simp: split_paired_all\<close>)
  show ?thesis
    unfolding landin_private_open_locked_def
    by (intro wp_seq parent wp_case_prod wp_if wp_ret sees_openat seen.on_get_errno sees_close seen.on_set_errno
        | assumption | (simp add: descriptor_def; fail) | (auto simp: descriptor_def; fail))+
qed

interpretation stage_names: guarded_names staged_name stage_open
proof
  fix w :: "'z pub_world_scheme" and path fl m
  assume "\<not> staged_name w path"
  then have "stage_arena_in (g_arenas w) path = None" "\<not> reserved_stage path False"
    unfolding staged_name_def by blast+
  then show "run_state (stage_open path fl m) w = (-2, w)"
    by (simp add: stage_open_def stage_arena_def)
next
  fix w t :: "'z pub_world_scheme" and path fl m r
  assume "staged_name w path" and "run_state (stage_open path fl m) w = (r, t)"
  then show "r \<noteq> -2" using wpD [OF stage_open_answers] by blast
qed

interpretation private_names: guarded_names private_name landin_private_open_locked
proof
  fix w :: "'z private_world_scheme" and path fl m
  assume "\<not> private_name w path"
  then have "private_match_in (r_roots w) path = None" "\<not> landin_reserved_private path"
    unfolding private_name_def by blast+
  then show "run_state (landin_private_open_locked path fl m) w = (-2, w)"
    by (simp add: landin_private_open_locked_def landin_private_parent_locked_def
        landin_private_match_def)
next
  fix w t :: "'z private_world_scheme" and path fl m r
  assume "private_name w path" and "run_state (landin_private_open_locked path fl m) w = (r, t)"
  then show "r \<noteq> -2" using wpD [OF private_open_answers] by blast
qed


section \<open>Properties\<close>

text \<open>What a snapshot read does with the descriptor it has opened.\<close>

definition read_opened :: "int \<Rightarrow> ('z world_scheme, int \<times> (bytes \<times> oid) option) state" where
  "read_opened fd =
     (if fd < 0 then do { e \<leftarrow> get_errno; ret (if e = ENOENT then 1 else -1, None) }
      else do {
        st \<leftarrow> sys_fstat fd;
        result \<leftarrow> (case st of
            None \<Rightarrow> ret (-1, None)
          | Some s \<Rightarrow>
              if \<not> S_ISREG s then ret (-1, None)
              else do {
                bs \<leftarrow> read_bytes fd;
                ret (case bs of None \<Rightarrow> (-1, None) | Some b \<Rightarrow> (0, Some (b, st_id s)))
              });
        close_fd fd;
        ret result
      })"

text \<open>
  C10. Every path is read in exactly one place. A path the stages own, by living below a live arena or
  by a reserved name, is opened there and nowhere else; one the private roots own is opened there and
  nowhere else; only a path neither owns is opened in the public file system. In particular a
  reserved name whose arena or root is gone is never looked up as an ordinary path.
\<close>

theorem snapshot_read_routed:
  "run_state (landin_read_snapshot_locked path) w =
     (if staged_name w path
      then run_state (do { fd \<leftarrow> stage_open path [O_RDONLY, O_NONBLOCK] 0; read_opened fd }) w
      else if private_name w path
      then run_state (do { fd \<leftarrow> landin_private_open_locked path [O_RDONLY, O_NONBLOCK] 0; read_opened fd }) w
      else run_state (do { fd \<leftarrow> sys_open path [O_RDONLY, O_CLOEXEC, O_NONBLOCK]; read_opened fd }) w)"
proof -
  let ?public = "sys_open path [O_RDONLY, O_CLOEXEC, O_NONBLOCK]"
  let ?below = "State_Monad.bind (landin_private_open_locked path [O_RDONLY, O_NONBLOCK] 0)
    (\<lambda>r. if r = -2 then ?public else ret r)"
  let ?chain = "State_Monad.bind (stage_open path [O_RDONLY, O_NONBLOCK] 0) (\<lambda>r. if r = -2 then ?below else ret r)"
  have "run_state (landin_read_snapshot_locked path) w = run_state (State_Monad.bind ?chain read_opened) w"
    unfolding landin_read_snapshot_locked_def read_opened_def [symmetric]
    by (cases "run_state (stage_open path [O_RDONLY, O_NONBLOCK] 0) w") (simp split: prod.split)
  also have "\<dots> = (case run_state ?chain w of (fd, t) \<Rightarrow> run_state (read_opened fd) t)"
    by (simp only: run_state_bind)
  also have "run_state ?chain w = (if staged_name w path then run_state (stage_open path [O_RDONLY, O_NONBLOCK] 0) w
      else if private_name w path then run_state (landin_private_open_locked path [O_RDONLY, O_NONBLOCK] 0) w
      else run_state ?public w)"
    by (auto simp only: stage_names.fallback_owned stage_names.fallback_public
        private_names.fallback_owned private_names.fallback_public not_False_eq_True split: if_split)
  finally show ?thesis by (simp only: run_state_bind split: if_split) simp
qed

text \<open>
  A reserved name without its arena is refused. Opening, making a directory and writing under
  such a name fail with ESTALE, and nothing but \<^verbatim>\<open>errno\<close> changes: no call is made for it.
\<close>

theorem reserved_stage_refused:
  assumes "stage_arena_in (g_arenas w) path = None" and "reserved_stage path False"
  shows "run_state (stage_open path fl m) w = (-1, w\<lparr>w_errno := ESTALE\<rparr>)
     \<and> run_state (landin_publication_stage_mkdir_locked path) w = (-1, w\<lparr>w_errno := ESTALE\<rparr>)
     \<and> run_state (landin_publication_stage_write_locked path bs) w = (-1, w\<lparr>w_errno := ESTALE\<rparr>)"
proof -
  have "run_state (stage_open path fl m) w = (-1, w\<lparr>w_errno := ESTALE\<rparr>)" for fl m
    using assms by (simp add: stage_open_def stage_arena_def fail_with_def set_errno_def)
  moreover have "run_state (landin_publication_stage_mkdir_locked path) w = (-1, w\<lparr>w_errno := ESTALE\<rparr>)"
    using assms by (simp add: landin_publication_stage_mkdir_locked_def stage_arena_def fail_with_def set_errno_def)
  ultimately show ?thesis
    by (simp add: landin_publication_stage_write_locked_def get_errno_def)
qed

lemma reserved_stage_refused_witness:
  "fst (run_state (stage_open ''/out/.refine-publication-77/stage/x'' [] 0) sample_world) = -1"
proof -
  have "stage_arena_in (g_arenas sample_world) ''/out/.refine-publication-77/stage/x'' = None"
    "reserved_stage ''/out/.refine-publication-77/stage/x'' False" by code_simp+
  from reserved_stage_refused [OF this, of "[]" 0 "[]"] show ?thesis by simp
qed



end
