(* ===== verification/Scanner.thy ===== *)
theory Scanner
  imports Main "HOL-Library.Word"
begin

text \<open>
  The external scanner of the Tree-sitter grammar (\<^verbatim>\<open>src/highlight/tree-sitter/src/scanner.c\<close>).

  The scanner sees the source text through the runtime's lexer only, and the runtime is not part of
  the repository. A record of the lexer's operations over an unknown state is therefore an argument of
  every function: the next code point (0 at the end), advancing past it, with or without skipping it,
  marking the end of the token, the column, and setting the token found. Nothing is assumed of them
  here. A loop of the source ends only if the lexer brings it to an end, so every loop is a partial
  function: \<open>None\<close> stands for not returning. The nesting depth is an \<^verbatim>\<open>unsigned\<close> of 32 bits and wraps.
\<close>

section \<open>Tokens and the lexer\<close>

datatype token_type =
    COMMENT
  | MINUS
  | ARROW
  | MINUS_PERCENT
  | MINUS_EQUALS
  | MINUS_PERCENT_EQUALS
  | DESTRUCTURING_OPEN

record 'l lexer =
  lookahead :: "'l \<Rightarrow> int"
  lexer_advance :: "'l \<Rightarrow> bool \<Rightarrow> 'l"
  mark_end :: "'l \<Rightarrow> 'l"
  get_column :: "'l \<Rightarrow> 32 word \<times> 'l"
  set_result_symbol :: "'l \<Rightarrow> token_type \<Rightarrow> 'l"

text \<open>The code points the scanner compares with.\<close>

abbreviation "ch_tab \<equiv> 9 :: int"
abbreviation "ch_newline \<equiv> 10 :: int"
abbreviation "ch_return \<equiv> 13 :: int"
abbreviation "ch_space \<equiv> 32 :: int"
abbreviation "ch_quote \<equiv> 34 :: int"
abbreviation "ch_percent \<equiv> 37 :: int"
abbreviation "ch_open \<equiv> 40 :: int"
abbreviation "ch_close \<equiv> 41 :: int"
abbreviation "ch_minus \<equiv> 45 :: int"
abbreviation "ch_colon \<equiv> 58 :: int"
abbreviation "ch_equals \<equiv> 61 :: int"
abbreviation "ch_greater \<equiv> 62 :: int"
abbreviation "ch_square_open \<equiv> 91 :: int"
abbreviation "ch_backslash \<equiv> 92 :: int"
abbreviation "ch_square_close \<equiv> 93 :: int"

section \<open>The scanner has no state of its own\<close>

definition tree_sitter_landin_external_scanner_create :: "'p option" where
  "tree_sitter_landin_external_scanner_create = None"

definition tree_sitter_landin_external_scanner_destroy :: "'p option \<Rightarrow> unit" where
  "tree_sitter_landin_external_scanner_destroy payload = ()"

definition tree_sitter_landin_external_scanner_serialize
    :: "'p option \<Rightarrow> 'b list \<Rightarrow> 32 word \<times> 'b list" where
  "tree_sitter_landin_external_scanner_serialize payload buffer = (0, buffer)"

definition tree_sitter_landin_external_scanner_deserialize
    :: "'p option \<Rightarrow> 'b list \<Rightarrow> 32 word \<Rightarrow> 'p option" where
  "tree_sitter_landin_external_scanner_deserialize payload buffer len = payload"

section \<open>Moving through the text\<close>

definition scanner_advance :: "'l lexer \<Rightarrow> 'l \<Rightarrow> 'l" where
  "scanner_advance lx l = lexer_advance lx l False"

definition scanner_skip :: "'l lexer \<Rightarrow> 'l \<Rightarrow> 'l" where
  "scanner_skip lx l = lexer_advance lx l True"

definition blank :: "int \<Rightarrow> bool" where
  "blank c \<longleftrightarrow> c = ch_space \<or> c = ch_tab \<or> c = ch_return \<or> c = ch_newline"

text \<open>A loop that advances while the next code point is of a kind.\<close>

partial_function (option) advance_while :: "(int \<Rightarrow> bool) \<Rightarrow> 'l lexer \<Rightarrow> 'l \<Rightarrow> 'l option" where
  "advance_while p lx l =
     (if p (lookahead lx l) then advance_while p lx (scanner_advance lx l) else Some l)"

declare advance_while.simps [code]

text \<open>The blanks before a token, and whether a line begins among them.\<close>

partial_function (option) skip_blanks :: "'l lexer \<Rightarrow> bool \<Rightarrow> 'l \<Rightarrow> (bool \<times> 'l) option" where
  "skip_blanks lx line_began l =
     (if blank (lookahead lx l)
      then skip_blanks lx
        (line_began \<or> lookahead lx l = ch_newline \<or> lookahead lx l = ch_return) (scanner_skip lx l)
      else Some (line_began, l))"

declare skip_blanks.simps [code]

section \<open>Destructuring\<close>

text \<open>The inside of a string literal: a backslash takes the next code point with it.\<close>

partial_function (option) string_inside :: "'l lexer \<Rightarrow> 'l \<Rightarrow> 'l option" where
  "string_inside lx l =
     (if lookahead lx l \<noteq> 0 \<and> lookahead lx l \<noteq> ch_quote \<and> lookahead lx l \<noteq> ch_newline
      then string_inside lx (scanner_advance lx
        (if lookahead lx l = ch_backslash then scanner_advance lx l else l))
      else Some l)"

declare string_inside.simps [code]

definition line_inside :: "int \<Rightarrow> bool" where
  "line_inside c \<longleftrightarrow> c \<noteq> 0 \<and> c \<noteq> ch_newline"

partial_function (option) matching_loop
    :: "'l lexer \<Rightarrow> 32 word \<Rightarrow> 'l \<Rightarrow> (32 word \<times> 'l) option" where
  "matching_loop lx depth l =
     (let c = lookahead lx l in
      if c = 0 then Some (depth, l)
      else if c = ch_quote then
        Option.bind (string_inside lx (scanner_advance lx l)) (\<lambda>m.
          matching_loop lx depth (if lookahead lx m = ch_quote then scanner_advance lx m else m))
      else if c = ch_minus then
        (let m = scanner_advance lx l in
         if lookahead lx m = ch_minus
         then Option.bind (advance_while line_inside lx m) (matching_loop lx depth)
         else matching_loop lx depth m)
      else
        (let m = scanner_advance lx l in
         if c = ch_open \<or> c = ch_square_open then matching_loop lx (depth + 1) m
         else if c = ch_close \<or> c = ch_square_close then
           (if depth - 1 = 0 then Some (depth - 1, m) else matching_loop lx (depth - 1) m)
         else matching_loop lx depth m))"

declare matching_loop.simps [code]

definition destructuring_follows :: "'l lexer \<Rightarrow> 'l \<Rightarrow> (bool \<times> 'l) option" where
  "destructuring_follows lx l =
     Option.bind (matching_loop lx 1 l) (\<lambda>(depth, m).
       if depth \<noteq> 0 then Some (False, m)
       else Option.bind (advance_while blank lx m) (\<lambda>n.
         if lookahead lx n \<noteq> ch_colon then Some (False, n)
         else (let k = scanner_advance lx n in Some (lookahead lx k = ch_equals, k))))"

section \<open>Comments\<close>

text \<open>The inside of a block comment, up to its close or the end of the text.\<close>

partial_function (option) block_comment_loop :: "'l lexer \<Rightarrow> 32 word \<Rightarrow> 'l \<Rightarrow> 'l option" where
  "block_comment_loop lx depth l =
     (if lookahead lx l = 0 then Some l
      else if lookahead lx l = ch_minus then
        (let m = scanner_advance lx l in
         if lookahead lx m = ch_minus then
           (let n = scanner_advance lx m in
            if lookahead lx n = ch_open
            then block_comment_loop lx (depth + 1) (scanner_advance lx n)
            else block_comment_loop lx depth n)
         else block_comment_loop lx depth m)
      else if lookahead lx l = ch_close then
        (let m = scanner_advance lx l in
         if lookahead lx m = ch_minus then
           (let n = scanner_advance lx m in
            if lookahead lx n = ch_minus then
              (let k = scanner_advance lx n in
               if depth - 1 = 0 then Some k else block_comment_loop lx (depth - 1) k)
            else block_comment_loop lx depth n)
         else block_comment_loop lx depth m)
      else block_comment_loop lx depth (scanner_advance lx l))"

declare block_comment_loop.simps [code]

definition comment_line_inside :: "int \<Rightarrow> bool" where
  "comment_line_inside c \<longleftrightarrow> c \<noteq> 0 \<and> c \<noteq> ch_newline \<and> c \<noteq> ch_return"

section \<open>Scanning\<close>

text \<open>The token found ends here.\<close>

definition found :: "'l lexer \<Rightarrow> token_type \<Rightarrow> 'l \<Rightarrow> (bool \<times> 'l) option" where
  "found lx t l = Some (True, set_result_symbol lx (mark_end lx l) t)"

definition not_found :: "'l \<Rightarrow> (bool \<times> 'l) option" where
  "not_found l = Some (False, l)"

text \<open>After \<^verbatim>\<open>--\<close>, of which the second minus sign is the next code point.\<close>

definition scan_comment :: "'l lexer \<Rightarrow> (token_type \<Rightarrow> bool) \<Rightarrow> 'l \<Rightarrow> (bool \<times> 'l) option" where
  "scan_comment lx valid_symbols l =
     (if \<not> valid_symbols COMMENT then not_found l
      else (let m = scanner_advance lx l in
        if lookahead lx m = ch_open
        then Option.bind (block_comment_loop lx 1 (scanner_advance lx m)) (found lx COMMENT)
        else Option.bind (advance_while comment_line_inside lx m) (found lx COMMENT)))"

text \<open>After a minus sign.\<close>

definition scan_minus :: "'l lexer \<Rightarrow> (token_type \<Rightarrow> bool) \<Rightarrow> 'l \<Rightarrow> (bool \<times> 'l) option" where
  "scan_minus lx valid_symbols l =
     (if lookahead lx l = ch_greater \<and> valid_symbols ARROW
      then found lx ARROW (scanner_advance lx l)
      else if lookahead lx l = ch_equals \<and> valid_symbols MINUS_EQUALS
      then found lx MINUS_EQUALS (scanner_advance lx l)
      else if lookahead lx l = ch_percent
        \<and> (valid_symbols MINUS_PERCENT \<or> valid_symbols MINUS_PERCENT_EQUALS)
      then (let m = scanner_advance lx l in
        if lookahead lx m = ch_equals \<and> valid_symbols MINUS_PERCENT_EQUALS
        then found lx MINUS_PERCENT_EQUALS (scanner_advance lx m)
        else if \<not> valid_symbols MINUS_PERCENT then not_found m
        else found lx MINUS_PERCENT m)
      else if lookahead lx l = ch_minus then scan_comment lx valid_symbols l
      else if \<not> valid_symbols MINUS then not_found l
      else found lx MINUS l)"

definition tree_sitter_landin_external_scanner_scan
    :: "'p option \<Rightarrow> 'l lexer \<Rightarrow> (token_type \<Rightarrow> bool) \<Rightarrow> 'l \<Rightarrow> (bool \<times> 'l) option" where
  "tree_sitter_landin_external_scanner_scan payload lx valid_symbols l =
     (let (column, l1) = get_column lx l in
      Option.bind (skip_blanks lx (column = 0) l1) (\<lambda>(line_began, m).
        if lookahead lx m = ch_open \<and> line_began \<and> valid_symbols DESTRUCTURING_OPEN
        then Option.bind (destructuring_follows lx (mark_end lx (scanner_advance lx m)))
          (\<lambda>(follows, n).
            if follows then Some (True, set_result_symbol lx n DESTRUCTURING_OPEN)
            else not_found n)
        else if lookahead lx m \<noteq> ch_minus then not_found m
        else scan_minus lx valid_symbols (scanner_advance lx m)))"

end
