(* ===== verification/ScannerFacts.thy ===== *)
theory ScannerFacts
  imports Scanner
begin

text \<open>
  How the scanner's loops move through the text. The runtime's promises are the predicate \<open>lawful\<close>:
  what the scanner sees of a lexer is a \<open>view\<close>, the text that is left, the text left at the last mark
  and the token set. A loop then comes to a point the text determines (\<open>arrives\<close>); for the two
  loops that count a nesting depth that point is first a function of the text with an unbounded
  counter, and then the point a recursive grammar gives: \<open>enclosed\<close> for the brackets of a
  destructuring, \<open>commented\<close> for the nested block comments of the language's specification.
\<close>

section \<open>What the runtime promises\<close>

record view =
  v_rest :: "int list"
  v_marked :: "int list"
  v_symbol :: "token_type option"

definition peek :: "int list \<Rightarrow> int" where
  "peek s = (case s of [] \<Rightarrow> 0 | c # _ \<Rightarrow> c)"

definition lawful :: "'l lexer \<Rightarrow> ('l \<Rightarrow> view) \<Rightarrow> bool" where
  "lawful lx view \<longleftrightarrow>
     (\<forall>l. lookahead lx l = peek (v_rest (view l)))
     \<and> (\<forall>l s. view (lexer_advance lx l s) = (view l)\<lparr>v_rest := tl (v_rest (view l))\<rparr>)
     \<and> (\<forall>l. view (mark_end lx l) = (view l)\<lparr>v_marked := v_rest (view l)\<rparr>)
     \<and> (\<forall>l. view (snd (get_column lx l)) = view l)
     \<and> (\<forall>l t. view (set_result_symbol lx l t) = (view l)\<lparr>v_symbol := Some t\<rparr>)"

lemma lawful_lookahead: "lawful lx view \<Longrightarrow> lookahead lx l = peek (v_rest (view l))"
  by (simp add: lawful_def)

lemma lawful_advance:
  "lawful lx view \<Longrightarrow> view (scanner_advance lx l) = (view l)\<lparr>v_rest := tl (v_rest (view l))\<rparr>"
  by (simp add: lawful_def scanner_advance_def)

lemma lawful_skip:
  "lawful lx view \<Longrightarrow> view (scanner_skip lx l) = (view l)\<lparr>v_rest := tl (v_rest (view l))\<rparr>"
  by (simp add: lawful_def scanner_skip_def)

lemma lawful_mark: "lawful lx view \<Longrightarrow> view (mark_end lx l) = (view l)\<lparr>v_marked := v_rest (view l)\<rparr>"
  by (simp add: lawful_def)

lemma lawful_column: "lawful lx view \<Longrightarrow> view (snd (get_column lx l)) = view l"
  by (simp add: lawful_def)

lemma lawful_result: "lawful lx view \<Longrightarrow> view (set_result_symbol lx l t) = (view l)\<lparr>v_symbol := Some t\<rparr>"
  by (simp add: lawful_def)

lemmas lawful_simps = lawful_lookahead lawful_advance lawful_skip lawful_mark lawful_column lawful_result

lemma peek_simps [simp]: "peek [] = 0" "peek (c # s) = c"
  by (simp_all add: peek_def)

definition arrives :: "('l \<Rightarrow> view) \<Rightarrow> 'l \<Rightarrow> int list \<Rightarrow> 'l option \<Rightarrow> bool" where
  "arrives view l s r \<longleftrightarrow> (\<exists>m. r = Some m \<and> view m = (view l)\<lparr>v_rest := s\<rparr>)"

lemma arrives_here: "v_rest (view l) = s \<Longrightarrow> arrives view l s (Some l)"
  by (auto simp: arrives_def)

lemma advance_while_rest:
  assumes "lawful lx view" and "\<not> p 0"
  shows "arrives view l (dropWhile p (v_rest (view l))) (advance_while p lx l)"
proof (induction "v_rest (view l)" arbitrary: l)
  case Nil
  then show ?case using assms
    by (subst advance_while.simps) (simp add: lawful_simps arrives_def Nil [symmetric])
next
  case (Cons c s)
  let ?m = "scanner_advance lx l"
  from Cons(2) assms(1) have m: "view ?m = (view l)\<lparr>v_rest := s\<rparr>"
    by (simp add: lawful_simps) (metis list.sel(3))
  with Cons(1) [of ?m] have IH: "arrives view l (dropWhile p s) (advance_while p lx ?m)"
    by (simp add: arrives_def)
  show ?case using assms IH
    by (subst advance_while.simps) (simp add: lawful_simps Cons(2) [symmetric] arrives_def)
qed

lemma skip_blanks_rest:
  assumes "lawful lx view"
  shows "\<exists>m. skip_blanks lx b l
       = Some (b \<or> (\<exists>c \<in> set (takeWhile blank (v_rest (view l))). c = ch_newline \<or> c = ch_return), m)
     \<and> view m = (view l)\<lparr>v_rest := dropWhile blank (v_rest (view l))\<rparr>"
proof (induction "v_rest (view l)" arbitrary: l b)
  case Nil
  then show ?case using assms
    by (subst skip_blanks.simps) (simp add: lawful_simps Nil [symmetric] blank_def)
next
  case (Cons c s)
  let ?m = "scanner_skip lx l"
  from Cons(2) assms(1) have m: "view ?m = (view l)\<lparr>v_rest := s\<rparr>"
    by (simp add: lawful_simps) (metis list.sel(3))
  show ?case using assms m Cons(1) [of ?m "b \<or> c = ch_newline \<or> c = ch_return"]
    by (subst skip_blanks.simps) (auto simp add: lawful_simps Cons(2) [symmetric])
qed

section \<open>Strings and brackets\<close>

fun string_rest :: "int list \<Rightarrow> int list" where
  "string_rest [] = []"
| "string_rest (c # s) =
     (if c = 0 \<or> c = ch_quote \<or> c = ch_newline then c # s
      else if c = ch_backslash then string_rest (tl s) else string_rest s)"

lemma string_rest_length: "length (string_rest s) \<le> length s"
  by (induction s rule: string_rest.induct) (auto intro: le_SucI order_trans)

lemma string_inside_rest:
  assumes "lawful lx view"
  shows "arrives view l (string_rest (v_rest (view l))) (string_inside lx l)"
proof (induction "length (v_rest (view l))" arbitrary: l rule: less_induct)
  case less
  show ?case
  proof (cases "v_rest (view l)")
    case Nil
    with assms show ?thesis
      by (subst string_inside.simps) (simp add: lawful_simps arrives_def)
  next
    case (Cons c s)
    let ?m = "scanner_advance lx (if c = ch_backslash then scanner_advance lx l else l)"
    have m: "view ?m = (view l)\<lparr>v_rest := if c = ch_backslash then tl s else s\<rparr>"
      using assms Cons by (simp add: lawful_simps)
    then have "arrives view ?m (string_rest (if c = ch_backslash then tl s else s)) (string_inside lx ?m)"
      using less [of ?m] Cons by (simp split: if_splits)
    then have IH: "arrives view l (string_rest (if c = ch_backslash then tl s else s)) (string_inside lx ?m)"
      using m by (simp add: arrives_def)
    show ?thesis using assms Cons IH
      by (subst string_inside.simps, cases "c = ch_backslash") (simp_all add: lawful_simps arrives_here)
  qed
qed

definition opens :: "int \<Rightarrow> bool" where "opens c \<longleftrightarrow> c = ch_open \<or> c = ch_square_open"
definition closes :: "int \<Rightarrow> bool" where "closes c \<longleftrightarrow> c = ch_close \<or> c = ch_square_close"

definition string_end :: "int list \<Rightarrow> int list" where
  "string_end s = (let t = string_rest s in if peek t = ch_quote then tl t else t)"

lemma string_end_length: "length (string_end s) \<le> length s"
  using string_rest_length [of s] by (auto simp add: string_end_def Let_def)

lemma small_word_zero: "n < 2 ^ 32 \<Longrightarrow> ((of_nat n :: 32 word) = 0) = (n = 0)"
  by (auto simp add: word_of_nat_eq_0_iff nat_dvd_not_less)

function matching :: "nat \<Rightarrow> int list \<Rightarrow> int list option" where
  "matching d [] = None"
| "matching d (c # s) =
     (if c = 0 then None
      else if c = ch_quote then matching d (string_end s)
      else if c = ch_minus
      then matching d (if peek s = ch_minus then dropWhile line_inside s else s)
      else if opens c then matching (Suc d) s
      else if closes c then (if d \<le> 1 then Some s else matching (d - 1) s)
      else matching d s)"
  by pat_completeness auto
termination
  by (relation "measure (\<lambda>(d, s). length s)")
    (auto simp: le_imp_less_Suc string_end_length intro: le_imp_less_Suc length_dropWhile_le)

lemma matching_loop_rest:
  assumes "lawful lx view"
  shows "0 < d \<Longrightarrow> d + length (v_rest (view l)) < 2 ^ 32 \<Longrightarrow>
     \<exists>depth m. matching_loop lx (of_nat d) l = Some (depth, m)
       \<and> (\<exists>t. view m = (view l)\<lparr>v_rest := t\<rparr> \<and>
           matching d (v_rest (view l)) = (if depth = 0 then Some t else None))"
proof (induction "length (v_rest (view l))" arbitrary: l d rule: less_induct)
  case less
  have nz: "(of_nat d :: 32 word) \<noteq> 0"
    using less.prems by (simp add: small_word_zero)
  have step: "\<exists>depth m. matching_loop lx (of_nat e) n = Some (depth, m)
       \<and> (\<exists>t. view m = (view l)\<lparr>v_rest := t\<rparr> \<and>
           matching e (v_rest (view n)) = (if depth = 0 then Some t else None))"
    if "view n = (view l)\<lparr>v_rest := u\<rparr>" "length u < length (v_rest (view l))" "0 < e"
      "e + length u < 2 ^ 32" for n u e
    using less.hyps [of n e] that by simp
  show ?case
  proof (cases "v_rest (view l)")
    case Nil
    with assms nz show ?thesis
      by (subst matching_loop.simps) (simp add: lawful_simps, rule exI [of _ "[]"], simp)
  next
    case (Cons c s)
    let ?m = "scanner_advance lx l"
    have la: "lookahead lx l = c" and m: "view ?m = (view l)\<lparr>v_rest := s\<rparr>"
      using assms Cons by (simp_all add: lawful_simps)
    consider "c = 0" | "c = ch_quote" | "c = ch_minus" | "opens c" | "closes c"
      | "c \<noteq> 0" "c \<noteq> ch_quote" "c \<noteq> ch_minus" "\<not> opens c" "\<not> closes c" by blast
    then show ?thesis
    proof cases
      case 1
      with assms Cons nz la show ?thesis
        by (subst matching_loop.simps) (auto intro!: exI [of _ "v_rest (view l)"])
    next
      case 2
      have "arrives view ?m (string_rest s) (string_inside lx ?m)"
        using string_inside_rest [OF assms, of ?m] m by simp
      then obtain n where n: "string_inside lx ?m = Some n" "view n = (view l)\<lparr>v_rest := string_rest s\<rparr>"
        using m by (auto simp: arrives_def)
      let ?k = "if lookahead lx n = ch_quote then scanner_advance lx n else n"
      have k: "view ?k = (view l)\<lparr>v_rest := string_end s\<rparr>"
        using assms n(2) by (simp add: lawful_simps string_end_def Let_def)
      then show ?thesis using step [OF k, of d] string_end_length [of s] less.prems Cons 2 la n(1)
        by (subst matching_loop.simps) simp
    next
      case 3
      have "lookahead lx ?m = peek s" using assms m by (simp add: lawful_simps)
      moreover obtain n where "advance_while line_inside lx ?m = Some n"
          "view n = (view l)\<lparr>v_rest := dropWhile line_inside s\<rparr>"
        using advance_while_rest [OF assms, of line_inside ?m] m by (auto simp: arrives_def line_inside_def)
      ultimately show ?thesis
        using step [OF m, of d] step [of n "dropWhile line_inside s" d] length_dropWhile_le [of line_inside s]
          less.prems Cons 3 la
        by (subst matching_loop.simps) (simp add: m)
    next
      case 4
      then show ?thesis using step [OF m, of "Suc d"] less.prems Cons la m
        by (subst matching_loop.simps) (auto simp: opens_def add.commute)
    next
      case 5
      have one: "(of_nat d - 1 :: 32 word) = of_nat (d - 1)" using less.prems by simp
      have zero: "(of_nat (d - 1) = (0 :: 32 word)) = (d \<le> 1)"
        using less.prems by (subst small_word_zero) auto
      from 5 have c: "c \<noteq> 0" "c \<noteq> ch_quote" "c \<noteq> ch_minus" "\<not> opens c"
        by (auto simp: closes_def opens_def)
      have loop: "matching_loop lx (of_nat d) l
          = (if d \<le> 1 then Some (of_nat (d - 1), ?m) else matching_loop lx (of_nat (d - 1)) ?m)"
        using c 5 unfolding opens_def closes_def
        by (subst matching_loop.simps) (simp only: la Let_def one zero if_False if_True simp_thms)
      have list: "matching d (v_rest (view l)) = (if d \<le> 1 then Some s else matching (d - 1) s)"
        using c 5 Cons by simp
      show ?thesis
      proof (cases "d \<le> 1")
        case True
        with zero loop list m show ?thesis by (intro exI [of _ "of_nat (d - 1)"] exI [of _ ?m]) auto
      next
        case False
        with step [OF m, of "d - 1"] less.prems Cons loop list m show ?thesis by (simp del: of_nat_diff)
      qed
    next
      case 6
      then show ?thesis using step [OF m, of d] less.prems Cons la m
        by (subst matching_loop.simps) (auto simp: opens_def closes_def)
    qed
  qed
qed

inductive enclosed :: "int list \<Rightarrow> int list \<Rightarrow> bool" where
  none: "enclosed s s"
| plain: "c \<noteq> 0 \<Longrightarrow> c \<noteq> ch_quote \<Longrightarrow> c \<noteq> ch_minus \<Longrightarrow> \<not> opens c \<Longrightarrow> \<not> closes c
    \<Longrightarrow> enclosed s r \<Longrightarrow> enclosed (c # s) r"
| dash: "peek s \<noteq> ch_minus \<Longrightarrow> enclosed s r \<Longrightarrow> enclosed (ch_minus # s) r"
| line: "enclosed (dropWhile line_inside s) r \<Longrightarrow> enclosed (ch_minus # ch_minus # s) r"
| literal: "enclosed (string_end s) r \<Longrightarrow> enclosed (ch_quote # s) r"
| group: "opens c \<Longrightarrow> enclosed s (d # t) \<Longrightarrow> closes d \<Longrightarrow> enclosed t r \<Longrightarrow> enclosed (c # s) r"

lemma enclosed_length: "enclosed s r \<Longrightarrow> length r \<le> length s"
proof (induction rule: enclosed.induct)
  case (line s r)
  then show ?case using length_dropWhile_le [of line_inside s] by simp
next
  case (literal s r)
  then show ?case using string_end_length [of s] by simp
qed simp_all

lemma bracket_simps [simp]:
  "\<not> opens 0" "\<not> closes 0" "\<not> opens ch_quote" "\<not> closes ch_quote" "\<not> opens ch_minus" "\<not> closes ch_minus"
  by (simp_all add: opens_def closes_def)

lemma opens_not_closes: "opens c \<Longrightarrow> \<not> closes c"
  by (auto simp: opens_def closes_def)

lemma line_inside_minus [simp]: "line_inside ch_minus"
  by (simp add: line_inside_def)

lemma matching_kinds:
  "matching d (0 # s) = None"
  "matching d (ch_quote # s) = matching d (string_end s)"
  "matching d (ch_minus # s) = matching d (if peek s = ch_minus then dropWhile line_inside s else s)"
  "opens c \<Longrightarrow> matching d (c # s) = matching (Suc d) s"
  "closes c \<Longrightarrow> matching d (c # s) = (if d \<le> 1 then Some s else matching (d - 1) s)"
  "c \<noteq> 0 \<Longrightarrow> c \<noteq> ch_quote \<Longrightarrow> c \<noteq> ch_minus \<Longrightarrow> \<not> opens c \<Longrightarrow> \<not> closes c
    \<Longrightarrow> matching d (c # s) = matching d s"
  by (auto simp: opens_def closes_def)

declare matching.simps(2) [simp del]

lemma enclosed_matching: "enclosed s r \<Longrightarrow> matching (Suc n) s = matching (Suc n) r"
proof (induction arbitrary: n rule: enclosed.induct)
  case (group c s d t r)
  from group.IH(1) [of "Suc n"] group show ?case by (simp add: matching_kinds)
qed (simp_all add: matching_kinds)

lemma matching_enclosed:
  "matching (Suc n) s = Some t \<Longrightarrow>
     \<exists>d u. closes d \<and> enclosed s (d # u) \<and> (if n = 0 then t = u else matching n u = Some t)"
proof (induction "length s" arbitrary: s n t rule: less_induct)
  case less
  then obtain c s' where s: "s = c # s'" by (cases s) auto
  have step: ?case
    if "matching (Suc n) v = Some t" "length v < length s" "\<And>r. enclosed v r \<Longrightarrow> enclosed s r" for v
    using less.hyps [OF that(2,1)] that(3) by blast
  consider "c = ch_quote" | "c = ch_minus" "peek s' = ch_minus" | "c = ch_minus" "peek s' \<noteq> ch_minus"
    | "opens c" | "closes c" | "c \<noteq> 0" "c \<noteq> ch_quote" "c \<noteq> ch_minus" "\<not> opens c" "\<not> closes c"
    using less.prems s by (cases "c = 0") (simp_all add: matching_kinds, blast)
  then show ?case
  proof cases
    case 1
    with less.prems s string_end_length [of s'] show ?thesis
      by (intro step [of "string_end s'"]) (auto simp: matching_kinds intro: enclosed.literal)
  next
    case 2
    then obtain s2 where "s' = ch_minus # s2" by (cases s') auto
    with less.prems s length_dropWhile_le [of line_inside s2] 2 show ?thesis
      by (intro step [of "dropWhile line_inside s2"]) (auto simp: matching_kinds intro: enclosed.line)
  next
    case 3
    with less.prems s show ?thesis
      by (intro step [of s']) (auto simp: matching_kinds intro: enclosed.dash)
  next
    case 4
    with less.prems s have "matching (Suc (Suc n)) s' = Some t" by (simp add: matching_kinds)
    with less.hyps [of s' "Suc n"] s obtain d u
      where inner: "closes d" "enclosed s' (d # u)" "matching (Suc n) u = Some t" by auto
    with enclosed_length [OF inner(2)] s show ?thesis
      by (intro step [of u]) (auto intro: enclosed.group [OF 4 inner(2,1)])
  next
    case 5
    with less.prems s show ?thesis
      by (intro exI [of _ c] exI [of _ s']) (auto simp: matching_kinds intro: enclosed.none)
  next
    case 6
    with less.prems s show ?thesis
      by (intro step [of s']) (auto simp: matching_kinds intro: enclosed.plain)
  qed
qed

lemma matching_iff: "matching 1 s = Some t \<longleftrightarrow> (\<exists>d. closes d \<and> enclosed s (d # t))"
proof
  assume "matching 1 s = Some t"
  then show "\<exists>d. closes d \<and> enclosed s (d # t)" using matching_enclosed [of 0 s t] by auto
next
  assume "\<exists>d. closes d \<and> enclosed s (d # t)"
  then obtain d where "closes d" "enclosed s (d # t)" by blast
  with enclosed_matching [of s "d # t" 0] show "matching 1 s = Some t" by (simp add: matching_kinds)
qed

lemma destructuring_follows_rest:
  assumes "lawful lx view" and "length (v_rest (view l)) < 2 ^ 32 - 1"
  shows "\<exists>b m. destructuring_follows lx l = Some (b, m)
    \<and> v_marked (view m) = v_marked (view l) \<and> v_symbol (view m) = v_symbol (view l)
    \<and> (b \<longleftrightarrow> (\<exists>d t. closes d \<and> enclosed (v_rest (view l)) (d # t)
         \<and> take 2 (dropWhile blank t) = [ch_colon, ch_equals]))"
proof -
  let ?s = "v_rest (view l)"
  from matching_loop_rest [OF assms(1), of 1 l] assms(2) obtain depth m t
    where loop: "matching_loop lx 1 l = Some (depth, m)" "view m = (view l)\<lparr>v_rest := t\<rparr>"
      and found: "matching 1 ?s = (if depth = 0 then Some t else None)" by auto
  show ?thesis
  proof (cases "depth = 0")
    case False
    with found have "\<not> (\<exists>d t. closes d \<and> enclosed ?s (d # t))" using matching_iff [of ?s] by auto
    with False loop show ?thesis by (auto simp: destructuring_follows_def)
  next
    case True
    have inside: "(\<exists>d. closes d \<and> enclosed ?s (d # t')) \<longleftrightarrow> t' = t" for t'
      using True found matching_iff [of ?s t'] by auto
    obtain n where n: "advance_while blank lx m = Some n" "view n = (view l)\<lparr>v_rest := dropWhile blank t\<rparr>"
      using advance_while_rest [OF assms(1), of blank m] loop(2) by (auto simp: arrives_def blank_def)
    let ?u = "dropWhile blank t"
    have "(take 2 u = [ch_colon, ch_equals]) = (peek u = ch_colon \<and> peek (tl u) = ch_equals)" for u
      by (cases u; cases "tl u") auto
    then have goal: "(\<exists>d t. closes d \<and> enclosed ?s (d # t) \<and> take 2 (dropWhile blank t) = [ch_colon, ch_equals])
        = (peek ?u = ch_colon \<and> peek (tl ?u) = ch_equals)"
      using inside by metis
    show ?thesis unfolding goal
      using loop True n assms(1) by (auto simp: destructuring_follows_def Let_def lawful_simps)
  qed
qed

section \<open>Block comments\<close>

definition comment_open :: "int list" where "comment_open = [ch_minus, ch_minus, ch_open]"
definition comment_close :: "int list" where "comment_close = [ch_close, ch_minus, ch_minus]"

definition begins :: "int list \<Rightarrow> int list \<Rightarrow> bool" where
  "begins p s \<longleftrightarrow> take (length p) s = p"

inductive commented :: "int list \<Rightarrow> int list \<Rightarrow> bool" where
  none: "commented s s"
| nested: "commented s (comment_close @ t) \<Longrightarrow> commented t r \<Longrightarrow> commented (comment_open @ s) r"
| byte: "\<not> begins comment_open (c # s) \<Longrightarrow> \<not> begins comment_close (c # s)
    \<Longrightarrow> commented s r \<Longrightarrow> commented (c # s) r"

fun comment_end :: "nat \<Rightarrow> int list \<Rightarrow> int list option" where
  "comment_end d [] = None"
| "comment_end d (c # s) =
     (if begins comment_open (c # s) then comment_end (Suc d) (drop 2 s)
      else if begins comment_close (c # s)
      then (if d \<le> 1 then Some (drop 2 s) else comment_end (d - 1) (drop 2 s))
      else comment_end d s)"

lemma begins_append: "begins p s \<longleftrightarrow> (\<exists>t. s = p @ t)"
  unfolding begins_def by (metis append_eq_conv_conj append_take_drop_id)

lemma commented_length: "commented s r \<Longrightarrow> length r \<le> length s"
  by (induction rule: commented.induct) (simp_all add: comment_open_def comment_close_def)

lemma comment_end_open: "comment_end d (comment_open @ s) = comment_end (Suc d) s"
  by (simp add: comment_open_def begins_def)

lemma comment_end_close:
  "comment_end d (comment_close @ s) = (if d \<le> 1 then Some s else comment_end (d - 1) s)"
  by (simp add: comment_open_def comment_close_def begins_def)

lemma comment_end_byte:
  "\<not> begins comment_open (c # s) \<Longrightarrow> \<not> begins comment_close (c # s) \<Longrightarrow> comment_end d (c # s) = comment_end d s"
  by simp

lemmas comment_end_kinds = comment_end_open comment_end_close comment_end_byte

declare comment_end.simps(2) [simp del]

lemma commented_end: "commented s r \<Longrightarrow> comment_end (Suc n) s = comment_end (Suc n) r"
  by (induction arbitrary: n rule: commented.induct) (simp_all add: comment_end_kinds)

lemma end_commented:
  "comment_end (Suc n) s = Some t \<Longrightarrow>
     \<exists>u. commented s (comment_close @ u) \<and> (if n = 0 then t = u else comment_end n u = Some t)"
proof (induction "length s" arbitrary: s n t rule: less_induct)
  case less
  have step: ?case
    if "comment_end (Suc n) v = Some t" "length v < length s" "\<And>r. commented v r \<Longrightarrow> commented s r" for v
    using less.hyps [OF that(2,1)] that(3) by blast
  consider (nested) v where "s = comment_open @ v" | (close) v where "s = comment_close @ v"
    | (byte) c v where "s = c # v" "\<not> begins comment_open (c # v)" "\<not> begins comment_close (c # v)"
    using less.prems by (cases s) (auto simp: begins_append)
  then show ?case
  proof cases
    case nested
    with less.prems have "comment_end (Suc (Suc n)) v = Some t" by (simp add: comment_end_kinds)
    with less.hyps [of v "Suc n"] nested obtain u
      where inner: "commented v (comment_close @ u)" "comment_end (Suc n) u = Some t"
      by (auto simp: comment_open_def)
    with commented_length [OF inner(1)] nested show ?thesis
      by (intro step [of u]) (auto simp: comment_open_def comment_close_def
          intro: commented.nested [OF inner(1), unfolded comment_open_def append_Cons append_Nil])
  next
    case close
    with less.prems show ?thesis
      by (intro exI [of _ v]) (auto simp: comment_end_kinds intro: commented.none)
  next
    case byte
    with less.prems show ?thesis
      by (intro step [of v]) (auto simp: comment_end_kinds intro: commented.byte)
  qed
qed

lemma comment_end_iff: "comment_end 1 s = Some t \<longleftrightarrow> commented s (comment_close @ t)"
  using end_commented [of 0 s t] commented_end [of s "comment_close @ t" 0]
  by (auto simp: comment_end_close)

fun triple_free :: "int list \<Rightarrow> bool" where
  "triple_free [] = True"
| "triple_free (c # s) \<longleftrightarrow> \<not> begins (ch_minus # comment_open) (c # s) \<and> triple_free s"

lemma block_comment_loop_rest:
  assumes "lawful lx view"
  shows "0 < d \<Longrightarrow> d + length (v_rest (view l)) < 2 ^ 32 \<Longrightarrow> 0 \<notin> set (v_rest (view l))
     \<Longrightarrow> triple_free (v_rest (view l)) \<Longrightarrow>
     arrives view l (case comment_end d (v_rest (view l)) of None \<Rightarrow> [] | Some t \<Rightarrow> t)
       (block_comment_loop lx (of_nat d) l)"
proof (induction "length (v_rest (view l))" arbitrary: l d rule: less_induct)
  case less
  let ?ok = "\<lambda>e u n. arrives view l (case comment_end e u of None \<Rightarrow> [] | Some t \<Rightarrow> t)
       (block_comment_loop lx (of_nat e) n)"
  have step: "?ok e u n"
    if "view n = (view l)\<lparr>v_rest := u\<rparr>" "length u < length (v_rest (view l))" "0 < e"
      "e + length u < 2 ^ 32" "0 \<notin> set u" "triple_free u" for n u e
    using less.hyps [of n e] that by (simp add: arrives_def)
  show ?case
  proof (cases "v_rest (view l)")
    case Nil
    with assms show ?thesis
      by (subst block_comment_loop.simps) (simp add: lawful_simps arrives_def)
  next
    case (Cons c s)
    let ?m = "scanner_advance lx l"
    let ?n = "scanner_advance lx ?m"
    let ?k = "scanner_advance lx ?n"
    have la: "lookahead lx l = c" and m: "view ?m = (view l)\<lparr>v_rest := s\<rparr>"
      and n: "view ?n = (view l)\<lparr>v_rest := tl s\<rparr>" and k: "view ?k = (view l)\<lparr>v_rest := tl (tl s)\<rparr>"
      and lm: "lookahead lx ?m = peek s" and ln: "lookahead lx ?n = peek (tl s)"
      and c0: "c \<noteq> 0"
      using assms Cons less.prems by (auto simp: lawful_simps)
    consider "c = ch_minus" "peek s = ch_minus" "peek (tl s) = ch_open"
      | "c = ch_minus" "peek s = ch_minus" "peek (tl s) \<noteq> ch_open"
      | "c = ch_close" "peek s = ch_minus" "peek (tl s) = ch_minus"
      | "c = ch_close" "peek s = ch_minus" "peek (tl s) \<noteq> ch_minus"
      | "c = ch_minus \<or> c = ch_close" "peek s \<noteq> ch_minus" | "c \<noteq> ch_minus" "c \<noteq> ch_close" by blast
    then show ?thesis
    proof cases
      case 1
      then obtain u where s: "s = ch_minus # ch_open # u" by (cases s; cases "tl s") auto
      have "?ok (Suc d) u ?k" using less.prems Cons s k by (intro step) auto
      then show ?thesis using Cons s 1 comment_end_open [of d u]
        by (subst block_comment_loop.simps) (simp add: la lm ln comment_open_def Let_def add.commute)
    next
      case 2
      then obtain u where s: "s = ch_minus # u" by (cases s) auto
      have "?ok d u ?n" using less.prems Cons s n by (intro step) auto
      moreover have "comment_end d (c # s) = comment_end d u"
        using 2 s less.prems(4) Cons
        by (cases u; cases "tl u")
          (auto simp: comment_end.simps(2) begins_def comment_open_def comment_close_def)
      ultimately show ?thesis using Cons s 2
        by (subst block_comment_loop.simps) (simp add: la lm ln Let_def)
    next
      case 3
      then obtain u where s: "s = ch_minus # ch_minus # u" by (cases s; cases "tl s") auto
      have one: "(of_nat d - 1 :: 32 word) = of_nat (d - 1)" using less.prems by simp
      have zero: "(of_nat (d - 1) = (0 :: 32 word)) = (d \<le> 1)"
        using less.prems by (subst small_word_zero) auto
      have loop: "block_comment_loop lx (of_nat d) l
          = (if d \<le> 1 then Some ?k else block_comment_loop lx (of_nat (d - 1)) ?k)"
        using 3 zero
        by (subst block_comment_loop.simps) (simp add: la lm ln Let_def one del: of_nat_diff)
      show ?thesis
      proof (cases "d \<le> 1")
        case True
        with loop k s Cons 3 comment_end_close [of d u] show ?thesis
          by (simp add: arrives_def comment_close_def)
      next
        case False
        have "?ok (d - 1) u ?k" using less.prems Cons s k False by (intro step) auto
        with False loop s Cons 3 comment_end_close [of d u] show ?thesis
          by (simp add: comment_close_def)
      qed
    next
      case 4
      then obtain u where s: "s = ch_minus # u" by (cases s) auto
      have "?ok d u ?n" using less.prems Cons s n by (intro step) auto
      moreover have "comment_end d (c # s) = comment_end d u"
        using 4 s by (cases u; cases "tl u")
          (auto simp: comment_end.simps(2) begins_def comment_open_def comment_close_def)
      ultimately show ?thesis using Cons s 4
        by (subst block_comment_loop.simps) (simp add: la lm ln Let_def)
    next
      case 5
      have "?ok d s ?m" using less.prems Cons m by (intro step) auto
      moreover have "comment_end d (c # s) = comment_end d s"
        using 5 by (cases s) (auto simp: comment_end.simps(2) begins_def comment_open_def comment_close_def)
      ultimately show ?thesis using Cons 5
        by (subst block_comment_loop.simps) (auto simp add: la lm Let_def)
    next
      case 6
      have "?ok d s ?m" using less.prems Cons m by (intro step) auto
      moreover have "comment_end d (c # s) = comment_end d s"
        using 6 by (auto simp: comment_end.simps(2) begins_def comment_open_def comment_close_def)
      ultimately show ?thesis using Cons 6 c0
        by (subst block_comment_loop.simps) (auto simp add: la Let_def)
    qed
  qed
qed

section \<open>Every loop returns\<close>

definition onward :: "('l \<Rightarrow> view) \<Rightarrow> 'l \<Rightarrow> 'l \<Rightarrow> bool" where
  "onward view l m \<longleftrightarrow> (\<exists>t. length t \<le> length (v_rest (view l)) \<and> view m = (view l)\<lparr>v_rest := t\<rparr>)"

definition returns :: "('l \<Rightarrow> view) \<Rightarrow> 'l \<Rightarrow> 'l option \<Rightarrow> bool" where
  "returns view l r \<longleftrightarrow> (\<exists>m. r = Some m \<and> onward view l m)"

lemma onward_refl: "onward view l l"
  by (auto simp: onward_def intro!: exI [of _ "v_rest (view l)"])

lemma onward_trans:
  assumes "onward view l m" and "onward view m n"
  shows "onward view l n"
proof -
  from assms(1) obtain t where t: "length t \<le> length (v_rest (view l))" "view m = (view l)\<lparr>v_rest := t\<rparr>"
    unfolding onward_def by blast
  from assms(2) obtain u where u: "length u \<le> length (v_rest (view m))" "view n = (view m)\<lparr>v_rest := u\<rparr>"
    unfolding onward_def by blast
  from t u show ?thesis unfolding onward_def by (intro exI [of _ u]) simp
qed

lemma onward_advance: "lawful lx view \<Longrightarrow> onward view l (scanner_advance lx l)"
  unfolding onward_def by (intro exI [of _ "tl (v_rest (view l))"]) (simp add: lawful_simps)

lemma onward_length: "onward view l m \<Longrightarrow> length (v_rest (view m)) \<le> length (v_rest (view l))"
  by (auto simp: onward_def)

lemma arrives_onward:
  "arrives view l s (Some m) \<Longrightarrow> length s \<le> length (v_rest (view l)) \<Longrightarrow> onward view l m"
  by (auto simp: arrives_def onward_def)

lemma advance_shorter:
  assumes "lawful lx view" and "lookahead lx l \<noteq> 0" and "onward view (scanner_advance lx l) m"
  shows "length (v_rest (view m)) < length (v_rest (view l))"
  using assms onward_length [OF assms(3)]
  by (cases "v_rest (view l)") (auto simp: lawful_simps)

lemma matching_loop_returns:
  assumes "lawful lx view"
  shows "\<exists>depth m. matching_loop lx d l = Some (depth, m) \<and> onward view l m"
proof (induction "length (v_rest (view l))" arbitrary: l d rule: less_induct)
  case less
  let ?m = "scanner_advance lx l"
  have step: "\<exists>depth k. matching_loop lx e n = Some (depth, k) \<and> onward view l k"
    if "onward view ?m n" "lookahead lx l \<noteq> 0" for n e
    using less.hyps [OF advance_shorter [OF assms that(2,1)], of e] that(1)
      onward_advance [OF assms, of l] by (blast intro: onward_trans)
  obtain k where k: "string_inside lx ?m = Some k" "onward view ?m k"
    using string_inside_rest [OF assms, of ?m] string_rest_length [of "v_rest (view ?m)"]
    by (auto simp: arrives_def onward_def)
  have k2: "onward view ?m (scanner_advance lx k)"
    using k(2) onward_advance [OF assms] by (blast intro: onward_trans)
  obtain n where n: "advance_while line_inside lx ?m = Some n" "onward view ?m n"
    using advance_while_rest [OF assms, of line_inside ?m]
      length_dropWhile_le [of line_inside "v_rest (view ?m)"]
    by (auto simp: arrives_def onward_def line_inside_def)
  show ?case
    using step [OF onward_refl] step [OF k(2)] step [OF k2] step [OF n(2)] k(1) n(1)
      onward_refl [of view l] onward_advance [OF assms, of l]
    by (subst matching_loop.simps) (simp add: Let_def)
qed

lemma block_comment_loop_returns:
  assumes "lawful lx view"
  shows "returns view l (block_comment_loop lx d l)"
proof (induction "length (v_rest (view l))" arbitrary: l d rule: less_induct)
  case less
  let ?m = "scanner_advance lx l"
  let ?n = "scanner_advance lx ?m"
  let ?k = "scanner_advance lx ?n"
  note on = onward_advance [OF assms]
  have step: "returns view l (block_comment_loop lx e n)"
    if "onward view ?m n" "lookahead lx l \<noteq> 0" for n e
    using less.hyps [OF advance_shorter [OF assms that(2,1)], of e] that(1) on [of l]
    unfolding returns_def by (blast intro: onward_trans)
  have "onward view ?m ?n" "onward view ?m ?k" "onward view l ?k"
    using on by (blast intro: onward_trans)+
  then show ?case
    using step [OF onward_refl] step [of ?n] step [of ?k] onward_refl [of view l]
    by (subst block_comment_loop.simps) (simp add: Let_def returns_def)
qed

lemma advance_while_returns:
  assumes "lawful lx view" and "\<not> p 0"
  shows "returns view l (advance_while p lx l)"
  using advance_while_rest [of lx view p l] assms length_dropWhile_le [of p "v_rest (view l)"]
  by (auto simp: arrives_def returns_def onward_def)

lemma destructuring_returns:
  assumes "lawful lx view"
  shows "\<exists>b m. destructuring_follows lx l = Some (b, m) \<and> v_marked (view m) = v_marked (view l)"
proof -
  obtain depth m where m: "matching_loop lx 1 l = Some (depth, m)" "onward view l m"
    using matching_loop_returns [OF assms, of 1 l] by blast
  obtain n where n: "advance_while blank lx m = Some n" "onward view m n"
    using advance_while_returns [OF assms, of blank m] by (auto simp: returns_def blank_def)
  show ?thesis
    using m n lawful_advance [OF assms, of n]
    by (auto simp: destructuring_follows_def Let_def onward_def)
qed

text \<open>A token of \<open>scan_minus\<close> ends at a point the scanner has come to.\<close>

definition ends_onward :: "('l \<Rightarrow> view) \<Rightarrow> 'l \<Rightarrow> (bool \<times> 'l) option \<Rightarrow> bool" where
  "ends_onward view l r \<longleftrightarrow> (\<exists>m. r = Some (False, m)
     \<or> r = Some (True, m) \<and> (\<exists>n. onward view l n \<and> v_marked (view m) = v_rest (view n)))"

lemma ends_found: "lawful lx view \<Longrightarrow> onward view l n \<Longrightarrow> ends_onward view l (found lx t n)"
  by (auto simp: ends_onward_def found_def lawful_simps)

lemma ends_not_found: "ends_onward view l (not_found n)"
  by (auto simp: ends_onward_def not_found_def)

lemma ends_bind:
  assumes "lawful lx view" and "onward view l k" and "returns view k r"
  shows "ends_onward view l (Option.bind r (found lx t))"
  using assms(3) ends_found [OF assms(1) onward_trans [OF assms(2)]] by (auto simp: returns_def)

lemma scan_minus_returns:
  assumes "lawful lx view"
  shows "ends_onward view l (scan_minus lx valid l)"
proof -
  note on = onward_advance [OF assms]
  have two: "onward view l (scanner_advance lx (scanner_advance lx l))"
    using on by (blast intro: onward_trans)
  have "ends_onward view l (scan_comment lx valid l)"
    unfolding scan_comment_def Let_def
    using ends_bind [OF assms two block_comment_loop_returns [OF assms]]
      ends_bind [OF assms on advance_while_returns [OF assms, of comment_line_inside]]
    by (simp add: ends_not_found comment_line_inside_def)
  then show ?thesis
    by (simp add: scan_minus_def Let_def ends_found [OF assms] ends_not_found on two onward_refl)
qed

section \<open>The whole scan\<close>

definition at_line_start :: "'l lexer \<Rightarrow> ('l \<Rightarrow> view) \<Rightarrow> 'l \<Rightarrow> bool" where
  "at_line_start lx view l \<longleftrightarrow> fst (get_column lx l) = 0
     \<or> (\<exists>c \<in> set (takeWhile blank (v_rest (view l))). c = ch_newline \<or> c = ch_return)"

lemma scan_starts:
  assumes "lawful lx view"
  obtains m where "view m = (view l)\<lparr>v_rest := dropWhile blank (v_rest (view l))\<rparr>"
    and "tree_sitter_landin_external_scanner_scan payload lx valid l
       = (if lookahead lx m = ch_open \<and> at_line_start lx view l \<and> valid DESTRUCTURING_OPEN
          then Option.bind (destructuring_follows lx (mark_end lx (scanner_advance lx m)))
            (\<lambda>(follows, n).
              if follows then Some (True, set_result_symbol lx n DESTRUCTURING_OPEN)
              else not_found n)
          else if lookahead lx m \<noteq> ch_minus then not_found m
          else scan_minus lx valid (scanner_advance lx m))"
proof -
  let ?l = "snd (get_column lx l)"
  obtain m where "skip_blanks lx (fst (get_column lx l) = 0) ?l = Some (at_line_start lx view l, m)"
      "view m = (view l)\<lparr>v_rest := dropWhile blank (v_rest (view l))\<rparr>"
    using skip_blanks_rest [OF assms, of "fst (get_column lx l) = 0" ?l]
    by (auto simp: lawful_column [OF assms] at_line_start_def)
  then show thesis
    by (intro that [of m]) (simp_all add: tree_sitter_landin_external_scanner_scan_def case_prod_beta Let_def)
qed

definition operator_token
    :: "(token_type \<Rightarrow> bool) \<Rightarrow> int list \<Rightarrow> (token_type \<times> int list) option" where
  "operator_token valid s =
     (if begins [ch_percent] s \<and> valid MINUS_PERCENT_EQUALS \<and> \<not> valid MINUS_PERCENT
         \<and> \<not> begins [ch_percent, ch_equals] s
      then None
      else map_option (\<lambda>(t, p). (t, drop (length p) s))
        (find (\<lambda>(t, p). valid t \<and> begins p s)
          [(ARROW, [ch_greater]), (MINUS_EQUALS, [ch_equals]),
           (MINUS_PERCENT_EQUALS, [ch_percent, ch_equals]), (MINUS_PERCENT, [ch_percent]), (MINUS, [])]))"

text \<open>A scan agrees with a specified outcome: no token, or a token and the text after it.\<close>

definition agrees :: "('l \<Rightarrow> view) \<Rightarrow> (token_type \<times> int list) option \<Rightarrow> (bool \<times> 'l) option \<Rightarrow> bool" where
  "agrees view spec r \<longleftrightarrow> (case spec of
       None \<Rightarrow> (\<exists>k. r = Some (False, k))
     | Some (t, u) \<Rightarrow> (\<exists>k. r = Some (True, k) \<and> v_symbol (view k) = Some t \<and> v_marked (view k) = u))"

lemma agrees_found: "lawful lx view \<Longrightarrow> v_rest (view n) = u \<Longrightarrow> agrees view (Some (t, u)) (found lx t n)"
  by (simp add: agrees_def found_def lawful_simps)

lemma agrees_not_found: "agrees view None (not_found n)"
  by (simp add: agrees_def not_found_def)

lemma scanner_operators:
  assumes "lawful lx view" and "dropWhile blank (v_rest (view l)) = ch_minus # s"
    and "\<not> begins [ch_minus] s"
  shows "agrees view (operator_token valid s) (tree_sitter_landin_external_scanner_scan payload lx valid l)"
proof -
  obtain m where m: "view m = (view l)\<lparr>v_rest := ch_minus # s\<rparr>"
    and scan: "tree_sitter_landin_external_scanner_scan payload lx valid l
      = scan_minus lx valid (scanner_advance lx m)"
    using scan_starts [where view = view and l = l and payload = payload and valid = valid, OF assms(1)] assms(2) by (auto simp: lawful_lookahead [OF assms(1)])
  let ?m = "scanner_advance lx m"
  have v: "view ?m = (view l)\<lparr>v_rest := s\<rparr>" and v2: "v_rest (view (scanner_advance lx ?m)) = tl s"
    and v3: "v_rest (view (scanner_advance lx (scanner_advance lx ?m))) = tl (tl s)"
    and la: "lookahead lx ?m = peek s" and lb: "lookahead lx (scanner_advance lx ?m) = peek (tl s)"
    using assms(1) m by (simp_all add: lawful_simps)
  note rules = agrees_found [OF assms(1)] agrees_not_found
  consider "s = []" | u where "s = ch_greater # u" | u where "s = ch_equals # u"
    | u where "s = ch_percent # u"
    | c u where "s = c # u" "c \<noteq> ch_greater" "c \<noteq> ch_equals" "c \<noteq> ch_percent" by (cases s) auto
  then show ?thesis
  proof cases
    case 1
    then show ?thesis using v la
      by (simp add: scan scan_minus_def operator_token_def begins_def rules)
  next
    case 2
    then show ?thesis using v v2 la
      by (simp add: scan scan_minus_def operator_token_def begins_def rules)
  next
    case 3
    then show ?thesis using v v2 la
      by (simp add: scan scan_minus_def operator_token_def begins_def rules)
  next
    case 4
    have "u = [] \<or> hd u \<noteq> ch_equals \<or> (\<exists>r. u = ch_equals # r)" by (cases u) auto
    with 4 show ?thesis using v v2 v3 la lb
      by (cases u) (auto simp add: scan scan_minus_def operator_token_def begins_def rules Let_def)
  next
    case 5
    with assms(3) have "c \<noteq> ch_minus" by (simp add: begins_def)
    with 5 show ?thesis using v la
      by (simp add: scan scan_minus_def operator_token_def begins_def rules)
  qed
qed

lemma scanner_comments:
  assumes "lawful lx view" and "dropWhile blank (v_rest (view l)) = ch_minus # ch_minus # s"
    and "valid COMMENT"
  shows "\<not> begins [ch_open] s \<Longrightarrow> agrees view (Some (COMMENT, dropWhile comment_line_inside s))
      (tree_sitter_landin_external_scanner_scan payload lx valid l)"
    and "begins [ch_open] s \<Longrightarrow> 0 \<notin> set (tl s) \<Longrightarrow> triple_free (tl s) \<Longrightarrow> length (tl s) < 2 ^ 32 - 1 \<Longrightarrow>
      agrees view (Some (COMMENT, case comment_end 1 (tl s) of None \<Rightarrow> [] | Some t \<Rightarrow> t))
      (tree_sitter_landin_external_scanner_scan payload lx valid l)"
proof -
  obtain m where m: "view m = (view l)\<lparr>v_rest := ch_minus # ch_minus # s\<rparr>"
    and scan: "tree_sitter_landin_external_scanner_scan payload lx valid l
      = scan_minus lx valid (scanner_advance lx m)"
    using scan_starts [where view = view and l = l and payload = payload and valid = valid, OF assms(1)] assms(2) by (auto simp: lawful_lookahead [OF assms(1)])
  let ?n = "scanner_advance lx (scanner_advance lx m)"
  let ?k = "scanner_advance lx ?n"
  have n: "view ?n = (view l)\<lparr>v_rest := s\<rparr>" and k: "view ?k = (view l)\<lparr>v_rest := tl s\<rparr>"
    and la: "lookahead lx (scanner_advance lx m) = ch_minus" and lb: "lookahead lx ?n = peek s"
    using assms(1) m by (simp_all add: lawful_simps)
  have begins: "begins [ch_open] s = (peek s = ch_open)"
    by (cases s) (auto simp: begins_def)
  have scan2: "tree_sitter_landin_external_scanner_scan payload lx valid l
     = (if peek s = ch_open then Option.bind (block_comment_loop lx 1 ?k) (found lx COMMENT)
        else Option.bind (advance_while comment_line_inside lx ?n) (found lx COMMENT))"
    using assms(3) la lb by (simp add: scan scan_minus_def scan_comment_def Let_def)
  show "agrees view (Some (COMMENT, dropWhile comment_line_inside s))
      (tree_sitter_landin_external_scanner_scan payload lx valid l)" if "\<not> begins [ch_open] s"
    using advance_while_rest [OF assms(1), of comment_line_inside ?n] that n
    by (auto simp: scan2 begins arrives_def comment_line_inside_def intro!: agrees_found [OF assms(1)])
  show "agrees view (Some (COMMENT, case comment_end 1 (tl s) of None \<Rightarrow> [] | Some t \<Rightarrow> t))
      (tree_sitter_landin_external_scanner_scan payload lx valid l)"
    if "begins [ch_open] s" "0 \<notin> set (tl s)" "triple_free (tl s)" "length (tl s) < 2 ^ 32 - 1"
    using block_comment_loop_rest [OF assms(1), of 1 ?k] that k
    by (auto simp: scan2 begins arrives_def intro!: agrees_found [OF assms(1)])
qed

end
