(* ===== verification/ScannerClaims.thy ===== *)
theory ScannerClaims
  imports ScannerFacts
begin

text \<open>
  What the external scanner finds, over every lexer that keeps the runtime's promises, and a lexer
  over a list of code points that keeps them, on which the theorems are applied.
\<close>

section \<open>A lexer over a list\<close>

definition text_lexer :: "(view \<times> 32 word) lexer" where
  "text_lexer = \<lparr>
     lookahead = (\<lambda>(v, c). peek (v_rest v)),
     lexer_advance = (\<lambda>(v, c) s. (v\<lparr>v_rest := tl (v_rest v)\<rparr>,
        if peek (v_rest v) = ch_newline then 0 else if v_rest v = [] then c else c + 1)),
     mark_end = (\<lambda>(v, c). (v\<lparr>v_marked := v_rest v\<rparr>, c)),
     get_column = (\<lambda>(v, c). (c, (v, c))),
     set_result_symbol = (\<lambda>(v, c) t. (v\<lparr>v_symbol := Some t\<rparr>, c))\<rparr>"

definition text_start :: "int list \<Rightarrow> view \<times> 32 word" where
  "text_start s = (\<lparr>v_rest = s, v_marked = s, v_symbol = None\<rparr>, 0)"

lemma text_lexer_lawful: "lawful text_lexer fst"
  by (auto simp: lawful_def text_lexer_def)

lemma text_start_rest [simp]: "v_rest (fst (text_start s)) = s"
  by (simp add: text_start_def)

abbreviation (input) scan :: "'l lexer \<Rightarrow> (token_type \<Rightarrow> bool) \<Rightarrow> 'l \<Rightarrow> (bool \<times> 'l) option" where
  "scan \<equiv> tree_sitter_landin_external_scanner_scan (None :: unit option)"

section \<open>The properties\<close>

text \<open>
  C22. The scanner returns, on every text and in every state of the parser, and a token it finds is
  never empty: it ends behind at least one code point that was not skipped.
\<close>

theorem scanner_returns:
  assumes "lawful lx view"
  shows "\<exists>m. tree_sitter_landin_external_scanner_scan payload lx valid l = Some (False, m)
     \<or> tree_sitter_landin_external_scanner_scan payload lx valid l = Some (True, m)
       \<and> length (v_marked (view m)) < length (dropWhile blank (v_rest (view l)))"
proof -
  let ?r = "dropWhile blank (v_rest (view l))"
  obtain m where m: "view m = (view l)\<lparr>v_rest := ?r\<rparr>"
    and scan: "tree_sitter_landin_external_scanner_scan payload lx valid l
       = (if lookahead lx m = ch_open \<and> at_line_start lx view l \<and> valid DESTRUCTURING_OPEN
          then Option.bind (destructuring_follows lx (mark_end lx (scanner_advance lx m)))
            (\<lambda>(follows, n).
              if follows then Some (True, set_result_symbol lx n DESTRUCTURING_OPEN)
              else not_found n)
          else if lookahead lx m \<noteq> ch_minus then not_found m
          else scan_minus lx valid (scanner_advance lx m))"
    using scan_starts [where view = view and l = l and payload = payload and valid = valid, OF assms] by blast
  have short: "length (v_rest (view n)) < length ?r"
    if "onward view (scanner_advance lx m) n" "lookahead lx m \<noteq> 0" for n
    using advance_shorter [OF assms that(2,1)] m by simp
  obtain b n where n: "destructuring_follows lx (mark_end lx (scanner_advance lx m)) = Some (b, n)"
      "v_marked (view n) = v_rest (view (scanner_advance lx m))"
    using destructuring_returns [OF assms, of "mark_end lx (scanner_advance lx m)"]
    by (auto simp: lawful_mark [OF assms])
  show ?thesis
    using scan_minus_returns [OF assms, of "scanner_advance lx m" valid] short short [OF onward_refl] n
    by (auto simp: scan not_found_def ends_onward_def lawful_result [OF assms])
qed

theorem scanner_returns_witness:
  "\<exists>m. scan text_lexer (\<lambda>t. True) (text_start [ch_space, ch_minus, ch_greater, 97]) = Some (False, m)
     \<or> scan text_lexer (\<lambda>t. True) (text_start [ch_space, ch_minus, ch_greater, 97]) = Some (True, m)
       \<and> length (v_marked (fst m)) < 3"
  using scanner_returns [OF text_lexer_lawful, of "None :: unit option" "\<lambda>t. True" "text_start [ch_space, ch_minus, ch_greater, 97]"]
  by (simp add: blank_def numeral_3_eq_3)



text \<open>
  A line comment reaches to the line's end, which is not part of it.
\<close>

lemma line_comment_extent:
  assumes "lawful lx view" and "dropWhile blank (v_rest (view l)) = ch_minus # ch_minus # s"
    and "valid COMMENT" and "\<not> begins [ch_open] s"
  shows "agrees view (Some (COMMENT, dropWhile comment_line_inside s))
      (tree_sitter_landin_external_scanner_scan payload lx valid l)"
  using assms by (rule scanner_comments(1))

lemma line_comment_extent_witness:
  "agrees fst (Some (COMMENT, [ch_newline, 98]))
     (scan text_lexer (\<lambda>t. True) (text_start [ch_minus, ch_minus, 97, ch_newline, 98]))"
  using line_comment_extent [OF text_lexer_lawful, of "text_start [ch_minus, ch_minus, 97, ch_newline, 98]"
      "[97, ch_newline, 98]" "\<lambda>t. True" "None :: unit option"]
  by (simp add: blank_def begins_def comment_line_inside_def)





section \<open>Where the scanner and the specification differ\<close>

text \<open>
  A difference to the specification. In the comment \<^verbatim>\<open>--(---()--)--\<close> the grammar sees a nested comment at the second minus sign of
  \<^verbatim>\<open>---(\<close>, so that the comment is the whole text. The scanner takes the minus signs in pairs, misses
  the opener and ends its token three code points early.
\<close>

theorem triple_dash_differs:
  "commented (ch_minus # comment_open @ comment_close @ comment_close) (comment_close @ [])
   \<and> map_option (\<lambda>(b, m). (b, v_symbol (fst m), v_marked (fst m))) (scan text_lexer (\<lambda>t. True)
     (text_start (comment_open @ ch_minus # comment_open @ comment_close @ comment_close)))
     = Some (True, Some COMMENT, comment_close)"
proof
  have "comment_end 1 (ch_minus # comment_open @ comment_close @ comment_close) = Some []" by code_simp
  then show "commented (ch_minus # comment_open @ comment_close @ comment_close) (comment_close @ [])"
    by (simp only: comment_end_iff)
  show "map_option (\<lambda>(b, m). (b, v_symbol (fst m), v_marked (fst m))) (scan text_lexer (\<lambda>t. True)
     (text_start (comment_open @ ch_minus # comment_open @ comment_close @ comment_close)))
     = Some (True, Some COMMENT, comment_close)"
    by code_simp
qed

text \<open>
  Another difference. In the line \<^verbatim>\<open>(a --( b )-- ) := c\<close> a block comment stands before the closing parenthesis. The scanner
  takes it for a line comment, finds no close on the line and no destructuring.
\<close>

theorem comment_hides_destructuring:
  "map_option fst (scan text_lexer (\<lambda>t. True) (text_start
     ([ch_open, 97, ch_space] @ comment_open @ [98] @ comment_close @ [ch_close, ch_colon, ch_equals, 99])))
     = Some False
   \<and> map_option fst (scan text_lexer (\<lambda>t. True) (text_start
     ([ch_open, 97, ch_space] @ [ch_close, ch_colon, ch_equals, 99]))) = Some True"
  by code_simp

end
