(* ===== verification/ToolStart.thy ===== *)
theory ToolStart
  imports ToolProcess HostRules
begin

text \<open>
  Facts about the tool processes, for every schedule. The interface is \<open>process_view\<close>: a predicate on
  the state that every turn of the environment keeps, and what is known of the failures; the rules of
  the process calls are proved for it once. Three predicates are such views: the descriptors and the
  programs started, the dispositions and the mask, and the reservation of a child.
\<close>

section \<open>The process calls under a predicate the environment keeps\<close>

locale process_view =
  fixes I :: "'z proc_world_scheme \<Rightarrow> bool" and ok :: "errno \<Rightarrow> bool"
  assumes I_turn: "I w \<Longrightarrow> next_pturn w = (tn, t) \<Longrightarrow> I t"
    and I_errno: "I w \<Longrightarrow> I (w\<lparr>w_errno := e\<rparr>)"
    and I_kill: "I w \<Longrightarrow> I (w\<lparr>q_kills := k\<rparr>)"
    and fault_ok: "I w \<Longrightarrow> next_pturn w = (tn, t) \<Longrightarrow> u_fault tn = Some e \<Longrightarrow> ok e"
begin

lemma pcall_rule:
  assumes "I w" and "\<And>t. I t \<Longrightarrow> ok (w_errno t) \<Longrightarrow> Q bad t"
    and "\<And>tn t e. I t \<Longrightarrow> act tn t = Inl e \<Longrightarrow> I (t\<lparr>w_errno := e\<rparr>) \<Longrightarrow> Q bad (t\<lparr>w_errno := e\<rparr>)"
    and "\<And>tn t r u. I t \<Longrightarrow> act tn t = Inr (r, u) \<Longrightarrow> Q r u"
  shows "wp (pcall bad act) Q w"
proof -
  obtain tn t where n: "next_pturn w = (tn, t)" by fastforce
  from I_turn [OF assms(1) n] have t: "I t" .
  show ?thesis
  proof (cases "u_fault tn")
    case (Some e)
    with n t fault_ok [OF assms(1) n Some] assms(2) [of "t\<lparr>w_errno := e\<rparr>"] show ?thesis
      by (simp add: wp_def pcall_def I_errno)
  next
    case None
    show ?thesis
    proof (cases "act tn t")
      case (Inl e)
      with None n t assms(3) [OF t Inl] show ?thesis by (simp add: wp_def pcall_def I_errno)
    next
      case (Inr p)
      then obtain r u where "p = (r, u)" by fastforce
      with Inr None n t assms(4) [OF t] show ?thesis by (simp add: wp_def pcall_def)
    qed
  qed
qed

lemma sigquery_rule:
  "I w \<Longrightarrow> (\<And>t. I t \<Longrightarrow> Q None t) \<Longrightarrow> (\<And>t. I t \<Longrightarrow> Q (Some (q_disp t n)) t) \<Longrightarrow> wp (sys_sigquery n) Q w"
  unfolding sys_sigquery_def by (rule pcall_rule) auto

lemma setup_rule:
  assumes "I w" and "\<And>r t. I t \<Longrightarrow> Q r t"
  shows "wp sys_setup Q w"
proof -
  obtain tn t where n: "next_pturn w = (tn, t)" by fastforce
  with I_turn [OF assms(1) n] assms(2) show ?thesis by (simp add: wp_def sys_setup_def)
qed

lemma get_errno_rule: "I w \<Longrightarrow> (\<And>r. Q r w) \<Longrightarrow> wp get_errno Q w"
  by (simp add: get_errno_def)

lemma gets_rule: "I w \<Longrightarrow> (\<And>r. Q r w) \<Longrightarrow> wp (gets f) Q w"
  by simp

lemma set_errno_rule: "I w \<Longrightarrow> (\<And>t. I t \<Longrightarrow> w_errno t = e \<Longrightarrow> Q () t) \<Longrightarrow> wp (set_errno e) Q w"
  by (simp add: set_errno_def I_errno)

lemma policy_rule:
  assumes "I w" and "\<And>r t. I t \<Longrightarrow> Q r t"
  shows "wp landin_child_wait_policy Q w"
  unfolding landin_child_wait_policy_def get_errno_def
  by (intro wp_intros sigquery_rule assms)

lemma add_actions_rule:
  assumes "\<And>r t. I t \<Longrightarrow> Q r t"
  shows "I w \<Longrightarrow> wp (add_actions as) Q w"
proof (induction as arbitrary: w)
  case Nil
  with assms show ?case by simp
next
  case (Cons a as)
  then show ?case unfolding add_actions.simps
    by (intro wp_intros setup_rule assms) assumption+
qed

end

section \<open>The descriptors of a started tool\<close>

definition runs :: "(int \<rightharpoonup> desc) \<Rightarrow> (int \<times> started) list \<Rightarrow> 'z proc_world_scheme \<Rightarrow> bool" where
  "runs F S w \<longleftrightarrow> map_of (w_fds w) = F \<and> q_started w = S"

lemma runs_deliver: "runs F S w \<Longrightarrow> runs F S (deliver n w)"
  by (simp add: runs_def deliver_def landin_cancel_notify_def landin_program_forward_def
      split: disposition.split)

interpretation starting: process_view "runs F S" "\<lambda>e. True" for F S
  by unfold_locales
    (auto simp: next_pturn_def runs_deliver runs_def split: list.splits intro!: runs_deliver [unfolded runs_def])

lemma runs_dup:
  assumes "runs F S w" and "\<And>t. runs F S t \<Longrightarrow> Q (-1) t"
    and "\<And>n t ds. int k \<le> n \<Longrightarrow> F n = None \<Longrightarrow> F fd = Some ds \<Longrightarrow> 
      runs (F(n \<mapsto> ds\<lparr>d_cloexec := (k \<noteq> 0)\<rparr>)) S t \<Longrightarrow> Q n t"
  shows "wp (sys_dup fd k) Q w"
proof -
  obtain tn w1 where n: "next_turn w = (tn, w1)" by fastforce
  then have w1: "w_fds w1 = w_fds w" "q_started w1 = q_started w"
    by (auto simp: next_turn_def split: list.splits)
  have fresh: "map_of (w_fds w1) (free_fd k (w_fds w1)) = None" "int k \<le> free_fd k (w_fds w1)"
    using free_fd_fresh [of "w_fds w1" k] by auto
  show ?thesis
  proof (cases "map_of (w_fds w) fd")
    case None
    with n w1 assms(1,2) show ?thesis
      by (auto simp: wp_def sys_dup_def call_def runs_def split: option.splits)
  next
    case (Some ds)
    with n w1 assms fresh show ?thesis
      by (auto simp: wp_def sys_dup_def call_def runs_def open_fd_def Let_def split: option.splits)
  qed
qed

lemma runs_shut:
  assumes "runs F S w" and "\<And>t. runs (F(fd := None)) S t \<Longrightarrow> Q () t"
  shows "wp (shut fd) Q w"
proof -
  obtain tn w1 where n: "next_turn w = (tn, w1)" by fastforce
  then have w1: "w_fds w1 = w_fds w" "q_started w1 = q_started w"
    by (auto simp: next_turn_def split: list.splits)
  show ?thesis
  proof (cases "map_of (w_fds w) fd")
    case None
    then have "(map_of (w_fds w))(fd := None) = map_of (w_fds w)" by auto
    with None n w1 assms show ?thesis
      by (auto simp: wp_def shut_def sys_close_def runs_def)
  next
    case (Some ds)
    have "map_of (al_del fd (w_fds w)) = (map_of (w_fds w))(fd := None)" by auto
    with Some n w1 assms show ?thesis
      by (auto simp: wp_def shut_def sys_close_def runs_def Let_def split: option.splits)
  qed
qed

text \<open>A descriptor but for its close-on-exec flag; and a copy that has the flag.\<close>

abbreviation plain :: "desc option \<Rightarrow> desc option" where
  "plain \<equiv> map_option (\<lambda>ds. ds\<lparr>d_cloexec := False\<rparr>)"

abbreviation flagged :: "desc option \<Rightarrow> desc option" where
  "flagged \<equiv> map_option (\<lambda>ds. ds\<lparr>d_cloexec := True\<rparr>)"

lemma plain_flagged [simp]: "plain (flagged x) = plain x"
  by (cases x) simp_all

lemma plain_obj: "plain x = plain y \<Longrightarrow> map_option d_obj x = map_option d_obj y"
proof -
  have obj: "map_option d_obj (plain z) = map_option d_obj z" for z by (cases z) simp_all
  assume "plain x = plain y"
  then have "map_option d_obj (plain x) = map_option d_obj (plain y)" by simp
  then show ?thesis by (simp add: obj)
qed

text \<open>The copies of the standard descriptors made so far: \<open>F0\<close> is the table before the first.\<close>

definition copied :: "(int \<rightharpoonup> desc) \<Rightarrow> int list \<Rightarrow> (int \<rightharpoonup> desc) \<Rightarrow> bool" where
  "copied F0 moved F \<longleftrightarrow> length moved = 3
     \<and> (\<forall>i < 3. 0 \<le> moved ! i \<longrightarrow> 3 \<le> moved ! i \<and> F0 (moved ! i) = None \<and> F0 (int i) \<noteq> None \<and> F (moved ! i) = flagged (F0 (int i)))
     \<and> (\<forall>fd. (\<forall>i < 3. fd \<noteq> moved ! i) \<or> fd < 0 \<longrightarrow> F fd = F0 fd)"

lemma copied_start: "copied F0 [-1, -1, -1] F0"
  by (auto simp: copied_def less_Suc_eq numeral_3_eq_3)

lemma copiedD:
  assumes "copied F0 moved F"
  shows "length moved = 3"
    and "i < 3 \<Longrightarrow> 0 \<le> moved ! i \<Longrightarrow>
      3 \<le> moved ! i \<and> F0 (moved ! i) = None \<and> F0 (int i) \<noteq> None \<and> F (moved ! i) = flagged (F0 (int i))"
    and "(\<And>i. i < 3 \<Longrightarrow> 0 \<le> fd \<Longrightarrow> fd \<noteq> moved ! i) \<Longrightarrow> F fd = F0 fd"
  using assms unfolding copied_def by (blast, blast, metis linorder_not_less)

lemma copied_other:
  assumes "copied F0 moved F" and "F0 fd \<noteq> None"
  shows "F fd = F0 fd"
  by (rule copiedD(3) [OF assms(1)]) (use copiedD(2) [OF assms(1)] assms(2) in auto)

lemma copied_low:
  assumes "copied F0 moved F" and "fd \<le> 2"
  shows "F fd = F0 fd"
  by (rule copiedD(3) [OF assms(1)]) (use copiedD(2) [OF assms(1)] assms(2) in force)

lemma copied_add:
  assumes "copied F0 moved F" and "0 \<le> given" and "given \<le> 2" and "moved ! nat given < 0"
    and "3 \<le> n" and "F n = None" and "F given = Some ds"
  shows "copied F0 (moved[nat given := n]) (F(n \<mapsto> ds\<lparr>d_cloexec := True\<rparr>))"
proof -
  note c = copiedD [OF assms(1)]
  have new: "n \<noteq> moved ! i" if "i < 3" for i
    using c(2) [OF that] assms(5,6) by (cases "0 \<le> moved ! i") auto
  then have none: "F0 n = None" using c(3) [of n] assms(6) by simp
  have some: "F0 given = Some ds" using copied_low [OF assms(1,3)] assms(7) by simp
  have small: "nat given < 3" using assms(2,3) by simp
  show ?thesis
    unfolding copied_def
  proof (intro conjI allI impI)
    show "length (moved[nat given := n]) = 3" using c(1) by simp
    fix i :: nat
    assume i: "i < 3" "0 \<le> moved[nat given := n] ! i"
    then show "3 \<le> moved[nat given := n] ! i" "F0 (moved[nat given := n] ! i) = None" "F0 (int i) \<noteq> None"
      and "(F(n \<mapsto> ds\<lparr>d_cloexec := True\<rparr>)) (moved[nat given := n] ! i) = flagged (F0 (int i))"
      using c(2) [of i] new [of i] none some small assms(2,5) c(1)
      by (cases "i = nat given"; auto)+
  next
    fix fd
    assume h: "(\<forall>i<3. fd \<noteq> moved[nat given := n] ! i) \<or> fd < 0"
    then have "fd \<noteq> n" using small assms(5) c(1) by (auto dest: spec [of _ "nat given"])
    moreover have "fd \<noteq> moved ! i" if "i < 3" "0 \<le> fd" for i
      using h that assms(4) by (cases "i = nat given") auto
    ultimately show "(F(n \<mapsto> ds\<lparr>d_cloexec := True\<rparr>)) fd = F0 fd" using c(3) [of fd] by simp
  qed
qed

lemma copied_failed:
  assumes "copied F0 moved F" and "moved ! k < 0"
  shows "copied F0 (moved[k := -1]) F"
proof -
  note c = copiedD [OF assms(1)]
  show ?thesis
    unfolding copied_def
  proof (intro conjI allI impI)
    show "length (moved[k := -1]) = 3" using c(1) by simp
    fix i :: nat
    assume "i < 3" "0 \<le> moved[k := -1] ! i"
    then show "3 \<le> moved[k := -1] ! i" "F0 (moved[k := -1] ! i) = None" "F0 (int i) \<noteq> None"
      "F (moved[k := -1] ! i) = flagged (F0 (int i))"
      using c(1) c(2) [of i] by (cases "i = k"; auto)+
  next
    fix fd
    assume h: "(\<forall>i<3. fd \<noteq> moved[k := -1] ! i) \<or> fd < 0"
    have "fd \<noteq> moved ! i" if "i < 3" "0 \<le> fd" for i
      using h that assms(2) by (cases "i = k") auto
    then show "F fd = F0 fd" using c(3) [of fd] by simp
  qed
qed

text \<open>A source for the actions: the given one, or a copy of it above the standard descriptors.\<close>

definition source_of :: "(int \<rightharpoonup> desc) \<Rightarrow> int \<Rightarrow> int \<Rightarrow> (int \<rightharpoonup> desc) \<Rightarrow> bool" where
  "source_of F0 given out F \<longleftrightarrow>
     (if given < 0 then out = given
      else 0 \<le> out \<longrightarrow> 3 \<le> out \<and> plain (F out) = plain (F0 given) \<and> (out = given \<or> given \<le> 2 \<and> F0 out = None))"

lemma source_of_keeps: "source_of F0 given out F \<Longrightarrow> F0 given \<noteq> None \<Longrightarrow> F \<subseteq>\<^sub>m G \<Longrightarrow> source_of F0 given out G"
  by (auto simp: source_of_def map_le_def dom_def split: if_splits)

abbreviation copies :: "int list \<Rightarrow> int set" where
  "copies moved \<equiv> {fd \<in> set moved. 0 \<le> fd}"

lemma copies_update: "copies (moved[k := n]) \<subseteq> insert n (copies moved)"
  using set_update_subset_insert [of moved k n] by auto

lemma tool_source_rule:
  assumes "runs F S w" and "copied F0 moved F" and "0 \<le> given \<Longrightarrow> F0 given \<noteq> None"
    and "\<And>out m t G. runs G S t \<Longrightarrow> copied F0 m G \<Longrightarrow> F \<subseteq>\<^sub>m G \<Longrightarrow> source_of F0 given out G \<Longrightarrow>
      copies m \<subseteq> insert out (copies moved) \<Longrightarrow> Q (out, m) t"
  shows "wp (landin_tool_source given moved) Q w"
proof -
  have len: "length moved = 3" using assms(2) by (simp add: copied_def)
  consider "given < 0 \<or> 2 < given" | "0 \<le> given" "given \<le> 2" "moved ! nat given < 0"
    | "0 \<le> given" "given \<le> 2" "0 \<le> moved ! nat given" by linarith
  then show ?thesis
  proof cases
    case 1
    then have "source_of F0 given given F"
      using copied_other [OF assms(2)] assms(3) by (auto simp: source_of_def)
    then have "Q (given, moved) w" by (rule assms(4) [OF assms(1,2) map_le_refl]) auto
    with 1 show ?thesis by (auto simp: landin_tool_source_def)
  next
    case 2
    have failed: "Q (-1, moved[nat given := -1]) t" if "runs F S t" for t
      by (rule assms(4) [OF that copied_failed [OF assms(2) 2(3)]]) (use 2 copies_update [of moved "nat given" "-1"] in \<open>simp_all add: source_of_def\<close>)
    have made: "Q (n, moved[nat given := n]) t"
      if n: "int 3 \<le> n" "F n = None" "F given = Some ds" "runs (F(n \<mapsto> ds\<lparr>d_cloexec := True\<rparr>)) S t" for n ds t
    proof (rule assms(4) [OF n(4)])
      show "copied F0 (moved[nat given := n]) (F(n \<mapsto> ds\<lparr>d_cloexec := True\<rparr>))"
        using copied_add [OF assms(2) 2 _ n(2,3)] n(1) by simp
      then have "F0 n = None" using 2 n(1) len by (auto simp: copied_def dest: spec [of _ "nat given"])
      then show "source_of F0 given n (F(n \<mapsto> ds\<lparr>d_cloexec := True\<rparr>))"
        using n copied_low [OF assms(2) 2(2)] 2 by (simp add: source_of_def)
      show "F \<subseteq>\<^sub>m F(n \<mapsto> ds\<lparr>d_cloexec := True\<rparr>)" using n(2) by (auto simp: map_le_def)
      show "copies (moved[nat given := n]) \<subseteq> insert n (copies moved)" by (rule copies_update)
    qed
    show ?thesis using 2
      by (simp add: landin_tool_source_def) (rule runs_dup [OF assms(1)], use failed made in auto)
  next
    case 3
    then have "nat given < 3" by simp
    with 3 assms(2) have "source_of F0 given (moved ! nat given) F"
      by (auto simp: source_of_def copied_def)
    then have "Q (moved ! nat given, moved) w" by (rule assms(4) [OF assms(1,2) map_le_refl]) auto
    with 3 show ?thesis by (auto simp: landin_tool_source_def)
  qed
qed

text \<open>
  The descriptors the file actions give the child: three replaced, the sources closed, and of the others
  those that are not to be closed when a program starts.
\<close>

definition inherited :: "(int \<rightharpoonup> desc) \<Rightarrow> int \<rightharpoonup> desc" where
  "inherited F fd = (case F fd of None \<Rightarrow> None | Some ds \<Rightarrow> if d_cloexec ds then None else Some ds)"

definition child_fds :: "bool \<Rightarrow> int \<Rightarrow> int \<Rightarrow> int \<Rightarrow> int \<Rightarrow> (int \<rightharpoonup> desc) \<Rightarrow> int \<rightharpoonup> desc" where
  "child_fds no_input input capture errors directory F fd =
     (if fd = 0 then (if 0 \<le> input then plain (F input) else if no_input then None else inherited F 0)
      else if fd = 1 then plain (F capture)
      else if fd = 2 then plain (F (if errors < 0 then capture else errors))
      else if 0 \<le> fd \<and> fd \<in> {input, capture, errors, directory} then None
      else inherited F fd)"

lemma map_of_filter_keys: "map_of (filter (\<lambda>p. P (fst p)) xs) k = (if P k then map_of xs k else None)"
  by (induction xs) auto

lemma map_of_exec_fds: "map_of (exec_fds fds) = inherited (map_of fds)"
  unfolding exec_fds_def by (rule ext, subst map_of_filter_keys) (simp add: inherited_def split: option.split)

lemma inherited_plain: "F fd = plain x \<Longrightarrow> inherited F fd = plain x"
  by (cases x) (simp_all add: inherited_def)

lemma run_actions_append:
  "run_actions (as @ bs) st = (case run_actions as st of Inl e \<Rightarrow> Inl e | Inr st' \<Rightarrow> run_actions bs st')"
  by (induction as st rule: run_actions.induct) (auto split: option.splits)

lemma run_closings:
  "run_actions (map Closefd cs) (fds, cwd) = Inr (fold al_del cs fds, cwd)"
  by (induction cs arbitrary: fds) simp_all

lemma map_of_fold_al_del: "map_of (fold al_del cs fds) fd = (if fd \<in> set cs then None else map_of fds fd)"
  by (induction cs arbitrary: fds) auto

definition closings :: "bool \<Rightarrow> int \<Rightarrow> int \<Rightarrow> int \<Rightarrow> int \<Rightarrow> int list" where
  "closings no_input input capture errors directory =
     (if no_input then [0] else []) @ (if 0 \<le> input then [input] else [])
     @ (if capture \<noteq> input then [capture] else [])
     @ (if 0 \<le> errors \<and> errors \<noteq> capture \<and> errors \<noteq> input then [errors] else [])
     @ (if 0 \<le> directory \<and> directory \<noteq> capture \<and> directory \<noteq> input \<and> directory \<noteq> errors
        then [directory] else [])"

lemma set_closings:
  assumes "0 \<le> capture"
  shows "fd \<in> set (closings no_input input capture errors directory)
     \<longleftrightarrow> fd = 0 \<and> no_input \<or> 0 \<le> fd \<and> fd \<in> {input, capture, errors, directory}"
proof -
  have mem: "fd \<in> set (if c then [x] else []) \<longleftrightarrow> c \<and> fd = x" for c x by (cases c) simp_all
  show ?thesis
    using assms unfolding closings_def set_append Un_iff mem insert_iff empty_iff by metis
qed

lemma start_actions_split:
  "start_actions no_input input capture errors directory =
     ((if 0 \<le> directory then [Fchdir directory] else []) @ (if 0 \<le> input then [Dup2 input 0] else [])
      @ [Dup2 capture 1, Dup2 (if errors < 0 then 1 else errors) 2])
     @ map Closefd (closings no_input input capture errors directory)"
proof -
  have closing: "map Closefd (if c then [x] else []) = (if c then [Closefd x] else [])" for c x
    by (cases c) simp_all
  show ?thesis by (simp only: start_actions_def closings_def map_append closing append_assoc)
qed

lemma start_actions_fds:
  assumes "run_actions (start_actions no_input input capture errors directory) (fds, None) = Inr (fds', cwd)"
    and "3 \<le> capture" and "input < 0 \<or> 3 \<le> input" and "errors < 0 \<or> 3 \<le> errors"
    and "directory < 0 \<or> 3 \<le> directory"
    and "no_input \<Longrightarrow> input < 0"
  shows "map_of (exec_fds fds') = child_fds no_input input capture errors directory (map_of fds)
     \<and> cwd = (if directory < 0 then None else map_option d_obj (map_of fds directory))
     \<and> map_of fds capture \<noteq> None"
proof -
  let ?dups = "(if 0 \<le> directory then [Fchdir directory] else []) @ (if 0 \<le> input then [Dup2 input 0] else [])
      @ [Dup2 capture 1, Dup2 (if errors < 0 then 1 else errors) 2]"
  let ?cs = "closings no_input input capture errors directory"
  from assms(1) obtain mid where dups: "run_actions ?dups (fds, None) = Inr (mid, cwd)"
      and fds': "fds' = fold al_del ?cs mid"
    unfolding start_actions_split run_actions_append [of ?dups]
    by (auto simp: run_closings split: sum.splits)
  have mid: "map_of mid fd = (if fd = 0 \<and> 0 \<le> input then plain (map_of fds input) else if fd = 1 then plain (map_of fds capture)
      else if fd = 2 then plain (map_of fds (if errors < 0 then capture else errors)) else map_of fds fd)"
    and rest: "cwd = (if directory < 0 then None else map_option d_obj (map_of fds directory))"
      "map_of fds capture \<noteq> None" for fd
    using dups assms(2-5)
    by (cases "directory < 0"; cases "input < 0"; cases "errors < 0"; auto split: option.splits)+
  have "inherited (map_of fds') fd = child_fds no_input input capture errors directory (map_of fds) fd" for fd
  proof -
    have closed: "fd \<in> set ?cs \<longleftrightarrow> fd = 0 \<and> no_input \<or> 0 \<le> fd \<and> fd \<in> {input, capture, errors, directory}"
      by (rule set_closings) (use assms(2) in simp)
    have low: "fd \<notin> {input, capture, errors, directory}" if "0 \<le> fd" "fd \<le> 2"
      using that assms(2-5) by auto
    have at: "map_of fds' fd = (if fd \<in> set ?cs then None else map_of mid fd)"
      by (simp add: fds' map_of_fold_al_del)
    have gone: "inherited (map_of fds') fd = None" if "fd \<in> set ?cs" using at that by (simp add: inherited_def)
    have same: "inherited (map_of fds') fd = inherited (map_of fds) fd" if "map_of fds' fd = map_of fds fd"
      using that by (simp add: inherited_def)
    consider "fd = 0" | "fd = 1" | "fd = 2" | "fd \<noteq> 0" "fd \<noteq> 1" "fd \<noteq> 2" by blast
    then show ?thesis
    proof cases
      case 1
      then show ?thesis using low closed at mid assms(6) gone same inherited_plain [of "map_of fds'" 0 "map_of fds input"]
        by (cases "0 \<le> input"; cases no_input) (auto simp: child_fds_def)
    next
      case 2
      then show ?thesis using low closed at mid inherited_plain [of "map_of fds'" 1 "map_of fds capture"]
        by (auto simp: child_fds_def)
    next
      case 3
      then show ?thesis
        using low closed at mid inherited_plain [of "map_of fds'" 2 "map_of fds (if errors < 0 then capture else errors)"]
        by (auto simp: child_fds_def)
    next
      case 4
      then show ?thesis using closed at mid gone same by (auto simp: child_fds_def)
    qed
  qed
  with rest show ?thesis by (auto simp: map_of_exec_fds fun_eq_iff)
qed

lemma runs_spawn:
  assumes "runs F S w" and "\<And>e t. runs F S t \<Longrightarrow> Q (Inl e) t"
    and "\<And>pid t fds fds' cwd D K. map_of fds = F \<Longrightarrow> run_actions as (fds, None) = Inr (fds', cwd) \<Longrightarrow>
      runs F ((pid, \<lparr>s_args = args, s_env = env, s_fds = exec_fds fds', s_directory = cwd, s_group = a_group attr,
        s_disp = D, s_mask = K\<rparr>) # S) t \<Longrightarrow>
      Q (Inr pid) t"
  shows "wp (sys_posix_spawn as attr args env) Q w"
proof -
  obtain tn t where n: "next_pturn w = (tn, t)" by fastforce
  from starting.I_turn [OF assms(1) n] have t: "runs F S t" .
  show ?thesis
  proof (cases "u_fault tn")
    case (Some e)
    with n t assms(2) show ?thesis by (simp add: wp_def sys_posix_spawn_def)
  next
    case None
    with n t assms(2,3) show ?thesis
      by (auto simp: wp_def sys_posix_spawn_def runs_def split: sum.splits)
  qed
qed

lemma close_moved_rule:
  assumes "\<And>t. runs (\<lambda>fd. if fd \<in> set moved \<and> 0 \<le> fd then None else F fd) S t \<Longrightarrow> Q () t"
  shows "runs F S w \<Longrightarrow> wp (close_moved moved) Q w"
  using assms
proof (induction moved arbitrary: F w)
  case Nil
  then show ?case by simp
next
  case (Cons n moved)
  let ?F = "if 0 \<le> n then F(n := None) else F"
  have eq: "(\<lambda>fd. if fd \<in> set moved \<and> 0 \<le> fd then None else ?F fd)
      = (\<lambda>fd. if fd \<in> set (n # moved) \<and> 0 \<le> fd then None else F fd)" by (rule ext) auto
  have rest: "wp (close_moved moved) Q t" if "runs ?F S t" for t
    by (rule Cons.IH [OF that]) (use Cons.prems(2) eq in simp)
  show ?case
  proof (cases "0 \<le> n")
    case True
    with rest show ?thesis
      by (simp add: shut_if_open_def) (rule runs_shut [OF Cons.prems(1)], simp)
  next
    case False
    with rest Cons.prems(1) show ?thesis by (simp add: shut_if_open_def)
  qed
qed

lemma copied_closed:
  assumes "copied F0 moved F"
  shows "(\<lambda>fd. if fd \<in> set moved \<and> 0 \<le> fd then None else F fd) = F0"
proof
  fix fd
  note c = copiedD [OF assms]
  show "(if fd \<in> set moved \<and> 0 \<le> fd then None else F fd) = F0 fd"
  proof (cases "fd \<in> set moved \<and> 0 \<le> fd")
    case True
    then obtain i where "i < 3" "moved ! i = fd" using c(1) by (auto simp: in_set_conv_nth)
    with c(2) [of i] True show ?thesis by simp
  next
    case False
    then have "F fd = F0 fd" using c(1) by (intro c(3)) (auto simp: in_set_conv_nth)
    with False show ?thesis by auto
  qed
qed

definition sources_ok :: "(int \<rightharpoonup> desc) \<Rightarrow> int \<times> int \<times> int \<times> int \<Rightarrow> int \<times> int \<times> int \<times> int
    \<Rightarrow> (int \<rightharpoonup> desc) \<Rightarrow> bool" where
  "sources_ok F0 = (\<lambda>(gi, gc, ge, gd) (i, c, e, d) F.
     source_of F0 gi i F \<and> source_of F0 gc c F \<and> source_of F0 ge e F \<and> source_of F0 gd d F
     \<and> (0 \<le> gi \<longrightarrow> 0 \<le> i) \<and> 0 \<le> c \<and> (0 \<le> ge \<longrightarrow> 0 \<le> e) \<and> (0 \<le> gd \<longrightarrow> 0 \<le> d))"

lemma source_of_weaken:
  "source_of F0 given out F \<Longrightarrow> F \<subseteq>\<^sub>m G \<Longrightarrow> (0 \<le> given \<Longrightarrow> F0 given \<noteq> None) \<Longrightarrow> source_of F0 given out G"
  by (auto simp: source_of_def map_le_def dom_def split: if_splits)

lemma move_sources_rule:
  assumes "runs F0 S w"
    and "\<And>fd. fd \<in> {gi, gc, ge, gd} \<Longrightarrow> 0 \<le> fd \<Longrightarrow> F0 fd \<noteq> None"
    and failed: "\<And>e m t F. runs F S t \<Longrightarrow> copied F0 m F \<Longrightarrow> Q (Inl e, m) t"
    and placed: "\<And>s m t F. runs F S t \<Longrightarrow> copied F0 m F \<Longrightarrow> sources_ok F0 (gi, gc, ge, gd) s F \<Longrightarrow>
      copies m \<subseteq> (case s of (i, c, e, d) \<Rightarrow> {i, c, e, d}) \<Longrightarrow> Q (Inr s, m) t"
  shows "wp (move_sources gi gc ge gd) Q w"
proof -
  have finish: "Q (if 0 \<le> gi \<and> i < 0 \<or> c < 0 \<or> 0 \<le> ge \<and> e < 0 \<or> 0 \<le> gd \<and> d < 0
          then Inl (if err \<noteq> EOK then err else EBADF) else Inr (i, c, e, d), m4) t"
    if "runs F4 S t" "copied F0 m4 F4" "F1 \<subseteq>\<^sub>m F2" "F2 \<subseteq>\<^sub>m F3" "F3 \<subseteq>\<^sub>m F4"
      "source_of F0 gi i F1" "source_of F0 gc c F2" "source_of F0 ge e F3" "source_of F0 gd d F4"
      "copies m1 \<subseteq> insert i (copies [-1, -1, -1])" "copies m2 \<subseteq> insert c (copies m1)"
      "copies m3 \<subseteq> insert e (copies m2)" "copies m4 \<subseteq> insert d (copies m3)"
    for F1 F2 F3 F4 i c e d m1 m2 m3 m4 t err
  proof -
    have "F1 \<subseteq>\<^sub>m F4" "F2 \<subseteq>\<^sub>m F4" using that(3-5) map_le_trans by blast+
    then have "source_of F0 gi i F4" "source_of F0 gc c F4" "source_of F0 ge e F4"
      using that(5-8) assms(2) by (auto intro: source_of_weaken)
    moreover have "copies [-1, -1, -1] = {}" by auto
    then have "copies m4 \<subseteq> {i, c, e, d}" using that(10-13) by blast
    ultimately show ?thesis using that(1,2,9) failed placed by (auto simp: sources_ok_def)
  qed
  show ?thesis
    unfolding move_sources_def get_errno_def
    apply (rule wp_seq, rule tool_source_rule [OF assms(1) copied_start], simp add: assms(2), rule wp_case_prod, erule Pair_inject, hypsubst)
    apply (rule wp_seq, rule tool_source_rule, assumption, assumption, simp add: assms(2), rule wp_case_prod, erule Pair_inject, hypsubst)
    apply (rule wp_seq, rule tool_source_rule, assumption, assumption, simp add: assms(2), rule wp_case_prod, erule Pair_inject, hypsubst)
    apply (rule wp_seq, rule tool_source_rule, assumption, assumption, simp add: assms(2), rule wp_case_prod, erule Pair_inject, hypsubst)
    apply (intro wp_intros)
    apply (rule finish; assumption)
    done
qed

text \<open>The sources' numbers do not matter to the child: what counts is the given descriptors.\<close>

lemma child_fds_of_sources:
  assumes "copied F0 m F" and "sources_ok F0 (gi, gc, ge, gd) (i, c, e, d) F" and "copies m \<subseteq> {i, c, e, d}"
    and "no_input \<Longrightarrow> gi < 0" and "map_of fds = F"
    and "run_actions (start_actions no_input i c e d) (fds, None) = Inr (fds', cwd)"
  shows "map_of (exec_fds fds') = child_fds no_input gi gc ge gd F0
     \<and> cwd = (if gd < 0 then None else map_option d_obj (F0 gd)) \<and> F0 gc \<noteq> None"
proof -
  have src: "source_of F0 gi i F" "source_of F0 gc c F" "source_of F0 ge e F" "source_of F0 gd d F"
    and pos: "0 \<le> gi \<longrightarrow> 0 \<le> i" "0 \<le> c" "0 \<le> ge \<longrightarrow> 0 \<le> e" "0 \<le> gd \<longrightarrow> 0 \<le> d"
    using assms(2) by (auto simp: sources_ok_def)
  have low: "i < 0 \<or> 3 \<le> i" "3 \<le> c" "e < 0 \<or> 3 \<le> e" "d < 0 \<or> 3 \<le> d"
    using src pos by (auto simp: source_of_def split: if_splits)
  have sgn: "i < 0 \<longleftrightarrow> gi < 0" "0 \<le> gc" "e < 0 \<longleftrightarrow> ge < 0" "d < 0 \<longleftrightarrow> gd < 0"
    using src pos by (auto simp: source_of_def split: if_splits)
  have from_source: "0 \<le> gi \<longrightarrow> plain (F i) = plain (F0 gi)" "plain (F c) = plain (F0 gc)"
    "0 \<le> ge \<longrightarrow> plain (F e) = plain (F0 ge)" "0 \<le> gd \<longrightarrow> plain (F d) = plain (F0 gd)"
    using src pos sgn(2) by (auto simp: source_of_def split: if_splits)
  have acts: "map_of (exec_fds fds') = child_fds no_input i c e d F"
    "cwd = (if d < 0 then None else map_option d_obj (F d))" "F c \<noteq> None"
    using start_actions_fds [OF assms(6) low(2,1,3,4)] assms(4,5) sgn(1) by auto
  have high: "fd \<in> {i, c, e, d} \<longrightarrow> fd \<in> {gi, gc, ge, gd} \<or> F0 fd = None" if "0 \<le> fd" for fd
    using src pos sgn that by (auto simp: source_of_def split: if_splits)
  have kept: "fd \<in> {gi, gc, ge, gd} \<longrightarrow> fd \<in> {i, c, e, d}" if "3 \<le> fd" for fd
    using src pos sgn that by (auto simp: source_of_def split: if_splits)
  have same: "F fd = F0 fd" if "fd \<notin> {i, c, e, d}" for fd
    by (rule copiedD(3) [OF assms(1)]) (use that assms(3) copiedD(1) [OF assms(1)] in \<open>auto simp: set_conv_nth\<close>)
  have "map_of (exec_fds fds') fd = child_fds no_input gi gc ge gd F0 fd" for fd
  proof -
    consider "fd < 0" | "fd = 0" | "fd = 1" | "fd = 2" | "3 \<le> fd" by linarith
    then show ?thesis
    proof cases
      case 1
      then have "F fd = F0 fd" using copied_low [OF assms(1)] by simp
      with 1 acts show ?thesis by (simp add: child_fds_def inherited_def)
    next
      case 5
      show ?thesis
      proof (cases "fd \<in> {i, c, e, d}")
        case True
        then have "map_of (exec_fds fds') fd = None" using acts(1) 5 by (simp add: child_fds_def inherited_def)
        moreover have "child_fds no_input gi gc ge gd F0 fd = None"
        proof (cases "fd \<in> {gi, gc, ge, gd}")
          case True
          with 5 show ?thesis by (simp add: child_fds_def)
        next
          case False
          have "0 \<le> fd" using 5 by simp
          from high [OF this] \<open>fd \<in> {i, c, e, d}\<close> False have "F0 fd = None" by blast
          with False 5 show ?thesis by (simp add: child_fds_def inherited_def)
        qed
        ultimately show ?thesis by simp
      next
        case False
        with 5 kept [OF 5] same [OF False] acts(1) show ?thesis by (simp add: child_fds_def inherited_def)
      qed
    next
      case 2
      have "F 0 = F0 0" by (rule copied_low [OF assms(1)]) simp
      with 2 acts(1) from_source(1) sgn(1) show ?thesis
        by (cases "gi < 0") (simp_all add: child_fds_def inherited_def)
    next
      case 3
      with acts(1) from_source(2) show ?thesis by (simp add: child_fds_def)
    next
      case 4
      with acts(1) from_source(2,3) sgn(3) show ?thesis by (cases "ge < 0") (simp_all add: child_fds_def)
    qed
  qed
  moreover have "map_option d_obj (F d) = map_option d_obj (F0 gd)" if "0 \<le> gd"
    by (rule plain_obj) (use from_source(4) that in simp)
  moreover have "F0 gc \<noteq> None" using acts(3) from_source(2) by (cases "F0 gc") auto
  ultimately show ?thesis using acts(2) sgn by (auto simp: fun_eq_iff)
qed

lemma close_copied_rule:
  assumes "copied F0 m F" and "runs F S w" and "\<And>t. runs F0 S t \<Longrightarrow> Q () t"
  shows "wp (close_moved m) Q w"
  by (rule close_moved_rule [OF _ assms(2)]) (simp add: copied_closed [OF assms(1)] assms(3))

text \<open>What a start does: nothing but an error, or one more program with the descriptors given.\<close>

definition start_result :: "cstring list \<Rightarrow> cstring list \<Rightarrow> int \<times> int \<times> int \<times> int \<Rightarrow> (int \<rightharpoonup> desc)
    \<Rightarrow> (int \<times> started) list \<Rightarrow> start_error option \<times> int \<Rightarrow> (int \<times> started) list \<Rightarrow> bool" where
  "start_result args env = (\<lambda>(gi, gc, ge, gd) F S (error, pid) S'. case error of
     Some e \<Rightarrow> pid = 0 \<and> S' = S
   | None \<Rightarrow> (\<exists>child. S' = (pid, child) # S \<and> s_args child = args \<and> s_env child = env \<and> s_group child
       \<and> map_of (s_fds child) = child_fds (gi < 0 \<and> 0 \<in> {gc, ge, gd}) gi gc ge gd F
       \<and> s_directory child = (if gd < 0 then None else map_option d_obj (F gd)) \<and> F gc \<noteq> None))"

lemma start_rule:
  fixes w :: "'z proc_world_scheme"
  assumes "runs F0 S w" and "\<And>fd. fd \<in> {gi, gc, ge, gd} \<Longrightarrow> 0 \<le> fd \<Longrightarrow> F0 fd \<noteq> None"
  shows "wp (landin_tool_start_in_directory environ args env isolated gi gc ge gd)
     (\<lambda>r t. \<exists>S'. runs F0 S' t \<and> start_result args (if isolated then env else environ) (gi, gc, ge, gd) F0 S r S') w"
    (is "wp _ ?Q w")
proof -
  let ?no_input = "gi < 0 \<and> (gc = 0 \<or> ge = 0 \<or> gd = 0)" and ?env = "if isolated then env else environ"
  have no: "gi < 0 \<and> 0 \<in> {gc, ge, gd} \<longleftrightarrow> ?no_input" by auto
  have error: "?Q (Some e, 0) t" if "runs F0 S t" for e and t :: "'z proc_world_scheme"
    using that by (auto simp: start_result_def)
  have failed: "wp (do { close_moved m; ret (Some (Host_error e), 0) }) ?Q t"
    if "runs F S t" "copied F0 m F" for m F e and t :: "'z proc_world_scheme"
    by (rule wp_seq, rule close_copied_rule [OF that(2,1)]) (simp add: error)
  have spawn: "wp (do { started \<leftarrow> do { recorded \<leftarrow> add_actions (start_actions ?no_input i c e d);
              case recorded of Some e \<Rightarrow> ret (Inl e)
              | None \<Rightarrow> sys_posix_spawn (start_actions ?no_input i c e d) tool_attributes args ?env };
            close_moved m;
            ret (case started of Inl e \<Rightarrow> (Some (Host_error e), 0) | Inr pid \<Rightarrow> (None, pid)) }) ?Q t"
    if t: "runs F S t" and m: "copied F0 m F" and s: "sources_ok F0 (gi, gc, ge, gd) (i, c, e, d) F"
      and cm: "copies m \<subseteq> {i, c, e, d}" for i c e d m F and t :: "'z proc_world_scheme"
  proof -
    have fail: "wp (do { close_moved m;
        ret (case Inl e of Inl e \<Rightarrow> (Some (Host_error e), 0) | Inr pid \<Rightarrow> (None, pid)) }) ?Q u"
      if "runs F S u" for e and u :: "'z proc_world_scheme"
      using failed [OF that m, of e] by simp
    have good: "wp (do { close_moved m;
        ret (case Inr pid of Inl e \<Rightarrow> (Some (Host_error e), 0) | Inr pid \<Rightarrow> (None, pid)) }) ?Q u"
      if "map_of fds = F" "run_actions (start_actions ?no_input i c e d) (fds, None) = Inr (fds', cwd)"
        "runs F ((pid, \<lparr>s_args = args, s_env = ?env, s_fds = exec_fds fds', s_directory = cwd, s_group = a_group tool_attributes,
          s_disp = D, s_mask = K\<rparr>) # S) u"
      for pid fds fds' cwd D K and u :: "'z proc_world_scheme"
    proof (rule wp_seq, rule close_copied_rule [OF m that(3)])
      fix v :: "'z proc_world_scheme"
      assume v: "runs F0 ((pid, \<lparr>s_args = args, s_env = ?env, s_fds = exec_fds fds', s_directory = cwd, s_group = a_group tool_attributes,
          s_disp = D, s_mask = K\<rparr>) # S) v"
      have "map_of (exec_fds fds') = child_fds ?no_input gi gc ge gd F0
          \<and> cwd = (if gd < 0 then None else map_option d_obj (F0 gd)) \<and> F0 gc \<noteq> None"
        by (rule child_fds_of_sources [OF m s cm _ that(1,2)]) simp
      with v show "wp (ret (case Inr pid of Inl e \<Rightarrow> (Some (Host_error e), 0) | Inr pid \<Rightarrow> (None, pid))) ?Q v"
        by (auto simp: start_result_def no tool_attributes_def)
    qed
    show ?thesis
      apply (intro wp_seq)
      apply (rule starting.add_actions_rule [OF _ t])
      apply (rule wp_case_option)
       apply (rule runs_spawn, assumption)
        apply (erule fail)
       apply (erule (2) good)
      apply (rule wp_ret, erule fail)
      done
  qed
  have tail: "wp (do {
        (sources, moved) \<leftarrow> (case r of None \<Rightarrow> move_sources gi gc ge gd
            | Some e \<Rightarrow> ret (Inl e, [-1, -1, -1]));
        started \<leftarrow> (case sources of
            Inl e \<Rightarrow> ret (Inl e)
          | Inr (input, capture, errors, directory) \<Rightarrow> do {
              recorded \<leftarrow> add_actions (start_actions ?no_input input capture errors directory);
              case recorded of
                None \<Rightarrow> sys_posix_spawn (start_actions ?no_input input capture errors directory) tool_attributes args ?env
              | Some e \<Rightarrow> ret (Inl e)
            });
        close_moved moved;
        ret (case started of Inl e \<Rightarrow> (Some (Host_error e), 0) | Inr pid \<Rightarrow> (None, pid))
      }) ?Q t"
    if t: "runs F0 S t" for r and t :: "'z proc_world_scheme"
  proof -
    have stop: "wp (do { started \<leftarrow> ret (Inl e); close_moved m;
        ret (case started of Inl e \<Rightarrow> (Some (Host_error e), 0) | Inr pid \<Rightarrow> (None, pid)) }) ?Q u"
      if "runs F S u" "copied F0 m F" for e m F and u :: "'z proc_world_scheme"
      using failed [OF that, of e] by simp
    show ?thesis
      apply (rule wp_seq, rule wp_case_option)
       apply (rule move_sources_rule [OF t assms(2)], assumption, assumption)
        apply (rule wp_case_prod, erule Pair_inject, hypsubst, simp only: sum.case, erule (1) stop)
       apply (rule wp_case_prod, erule Pair_inject, hypsubst, simp only: sum.case)
       subgoal for s m u F sources moved
         by (cases s; hypsubst; simp only: prod.case; erule (3) spawn)
      apply (rule wp_ret, rule wp_case_prod, erule Pair_inject, hypsubst, simp only: sum.case)
      apply (rule stop [OF t copied_start])
      done
  qed
  show ?thesis
    unfolding landin_tool_start_in_directory_def Let_def using assms(1)
    apply -
    apply (rule wp_seq, rule starting.policy_rule, assumption)
    apply (rule wp_case_option)
     apply (rule wp_seq, rule starting.setup_rule, assumption)
     apply (rule wp_case_option)
      apply (rule wp_seq, rule starting.setup_rule, assumption)
      apply (rule wp_case_option)
       apply (rule wp_seq, rule starting.setup_rule, assumption)
       apply (rule wp_seq)
       apply (rule wp_case_option)
        apply (rule starting.setup_rule, assumption)
        apply (erule tail)
       apply (rule wp_ret, erule tail)
      apply (rule wp_ret, erule error)+
    done
qed

end
