(* ===== verification/ToolCancel.thy ===== *)
theory ToolCancel
  imports ToolStart
begin

text \<open>
  The handlers and the reservation of a child, for every schedule: what the cancellation installs and
  restores, what running a program in the foreground restores, and that a child is held exactly as
  long as it has not been waited for.
\<close>

section \<open>Dispositions\<close>

text \<open>\<open>S\<close>: this process's descriptors and the programs started; then dispositions, cancellation, mask.\<close>

definition disposed :: "(int \<times> desc) list \<times> (int \<times> started) list \<Rightarrow> (nat \<Rightarrow> disposition) \<Rightarrow> disposition list \<Rightarrow> bool
    \<Rightarrow> nat list \<Rightarrow> 'z proc_world_scheme \<Rightarrow> bool" where
  "disposed S D V A K w \<longleftrightarrow> (w_fds w, q_started w) = S \<and> q_disp w = D \<and> k_cancel_saved w = V \<and> k_cancel_active w = A \<and> q_mask w = K"

lemma deliver_fields [simp]:
  "q_disp (deliver n w) = q_disp w" "q_mask (deliver n w) = q_mask w"
  "k_cancel_saved (deliver n w) = k_cancel_saved w" "k_cancel_active (deliver n w) = k_cancel_active w"
  "q_children (deliver n w) = q_children w" "w_fds (deliver n w) = w_fds w" "q_started (deliver n w) = q_started w"
  by (simp_all add: deliver_def landin_cancel_notify_def landin_program_forward_def
      split: disposition.split)

lemma disposed_deliver [simp]: "disposed S D V A K (deliver n w) \<longleftrightarrow> disposed S D V A K w"
  by (simp add: disposed_def)

interpretation handling: process_view "disposed S D V A K" "\<lambda>e. True" for S D V A K
  by unfold_locales (auto simp: next_pturn_def disposed_def split: list.splits)

lemma disposed_sigquery:
  assumes "disposed S D V A K w" and "\<And>t. disposed S D V A K t \<Longrightarrow> Q None t"
    and "\<And>t. disposed S D V A K t \<Longrightarrow> Q (Some (D n)) t"
  shows "wp (sys_sigquery n) Q w"
  by (rule handling.sigquery_rule [OF assms(1)]) (use assms(2,3) in \<open>auto simp: disposed_def\<close>)

lemma disposed_sigaction:
  assumes "disposed S D V A K w" and "\<And>t. disposed S D V A K t \<Longrightarrow> Q (-1) t"
    and "\<And>t. disposed S (D(n := d)) V A K t \<Longrightarrow> Q 0 t"
  shows "wp (sys_sigaction n d) Q w"
  unfolding sys_sigaction_def
  by (rule handling.pcall_rule [OF assms(1)]) (use assms(2,3) in \<open>auto simp: disposed_def\<close>)

lemma disposed_exchange:
  assumes "disposed S D V A K w" and "\<And>t. disposed S (D(n := d)) V A K t \<Longrightarrow> Q (D n) t"
  shows "wp (sig_exchange n d) Q w"
proof -
  obtain tn t where n: "next_pturn w = (tn, t)" by fastforce
  with handling.I_turn [OF assms(1) n] assms(2) show ?thesis
    by (auto simp: wp_def sig_exchange_def disposed_def)
qed

lemma disposed_set:
  assumes "disposed S D V A K w" and "\<And>t. disposed S (D(n := d)) V A K t \<Longrightarrow> Q () t"
  shows "wp (sig_set n d) Q w"
  unfolding sig_set_def
  by (rule wp_seq, rule disposed_exchange [OF assms(1)], rule wp_ret, erule assms(2))

lemma disposed_look:
  assumes "disposed S D V A K w" and "\<And>t. disposed S D V A K t \<Longrightarrow> Q (D n) t"
  shows "wp (sig_look n) Q w"
proof -
  obtain tn t where n: "next_pturn w = (tn, t)" by fastforce
  with handling.I_turn [OF assms(1) n] assms(2) show ?thesis
    by (auto simp: wp_def sig_look_def disposed_def)
qed

fun put_back :: "(nat \<times> disposition) list \<Rightarrow> (nat \<Rightarrow> disposition) \<Rightarrow> nat \<Rightarrow> disposition" where
  "put_back [] D = D"
| "put_back ((n, d) # rest) D = put_back rest (D(n := d))"

lemma disposed_restore:
  assumes "\<And>t. disposed S (put_back l D) V A K t \<Longrightarrow> Q () t"
  shows "disposed S D V A K w \<Longrightarrow> wp (restore_signals l) Q w"
  using assms
proof (induction l arbitrary: D w)
  case Nil
  then show ?case by simp
next
  case (Cons p l)
  obtain n d where p: "p = (n, d)" by fastforce
  show ?case unfolding p restore_signals.simps
    by (rule wp_seq, rule disposed_set [OF Cons.prems(1)], erule Cons.IH) (use Cons.prems(2) p in \<open>simp add: fun_upd_def\<close>)
qed

lemma put_back_apply: "put_back l D n = (case map_of (rev l) n of None \<Rightarrow> D n | Some d \<Rightarrow> d)"
proof (induction l arbitrary: D)
  case (Cons p l)
  then show ?case by (cases p) (auto simp: map_add_def split: option.splits)
qed simp

section \<open>Cancellation\<close>

text \<open>The dispositions after a begin: a signal that is ignored stays ignored.\<close>

definition handled :: "nat list \<Rightarrow> (nat \<Rightarrow> disposition) \<Rightarrow> nat \<Rightarrow> disposition" where
  "handled ns D n = (if n \<in> set ns \<and> D n \<noteq> SIG_IGN then Cancel_notify else D n)"

lemma handled_back: "put_back (map (\<lambda>n. (n, D n)) ns) (handled ns D) = D"
proof
  fix n
  show "put_back (map (\<lambda>n. (n, D n)) ns) (handled ns D) n = D n"
    by (cases "n \<in> set ns")
      (auto simp: put_back_apply handled_def rev_map map_of_map_restrict restrict_map_def
        split: option.splits)
qed

lemma cancel_install_rule:
  assumes "\<And>e t. disposed S D V A K t \<Longrightarrow> Q (Inl e) t"
    and "\<And>t. disposed S (handled (rev past @ ns) D) V A K t \<Longrightarrow> Q (Inr (map D (rev past @ ns))) t"
    and "distinct (past @ ns)"
  shows "disposed S (handled past D) V A K w \<Longrightarrow> wp (cancel_install ns (map (\<lambda>n. (n, D n)) past)) Q w"
  using assms(2,3)
proof (induction ns arbitrary: past w)
  case Nil
  then show ?case by (simp add: rev_map handled_def [abs_def] comp_def)
next
  case (Cons n ns)
  have fail: "wp (do { error \<leftarrow> get_errno; restore_signals (map (\<lambda>n. (n, D n)) past); ret (Inl error) }) Q t"
    if "disposed S (handled past D) V A K t" for t
    unfolding get_errno_def
    by (rule wp_seq, rule wp_get, rule wp_seq, rule disposed_restore [OF _ that], rule wp_ret, rule assms(1))
      (simp add: handled_back)
  have same: "handled past D n = D n" using Cons.prems(3) by (simp add: handled_def)
  have go: "wp (cancel_install ns ((n, D n) # map (\<lambda>n. (n, D n)) past)) Q t"
    if "disposed S (handled (n # past) D) V A K t" for t
    using Cons.IH [of "n # past" t] that Cons.prems(2,3) by simp
  have ign: "handled (n # past) D = handled past D" if "D n = SIG_IGN"
    using that by (auto simp: handled_def fun_eq_iff)
  have put: "(handled past D)(n := Cancel_notify) = handled (n # past) D" if "D n \<noteq> SIG_IGN"
    using that by (auto simp: handled_def fun_eq_iff)
  show ?case
    unfolding cancel_install.simps
  proof (rule wp_seq, rule disposed_sigquery [OF Cons.prems(1)], goal_cases)
    case (1 t)
    then show ?case using fail [of t] by simp
  next
    case (2 t)
    show ?case
    proof (cases "D n = SIG_IGN")
      case True
      with go [of t] ign 2 show ?thesis by (simp add: same)
    next
      case False
      have "wp (sys_sigaction n Cancel_notify) (\<lambda>r t. wp (if r \<noteq> 0
            then do { error \<leftarrow> get_errno; restore_signals (map (\<lambda>n. (n, D n)) past); ret (Inl error) }
            else cancel_install ns ((n, D n) # map (\<lambda>n. (n, D n)) past)) Q t) t"
        by (rule disposed_sigaction [OF 2]) (use fail go put [OF False] in auto)
      with False show ?thesis by (simp add: same)
    qed
  qed
qed

lemma begin_rule:
  assumes "disposed S D V False K w"
    and "\<And>e t. disposed S D V False K t \<Longrightarrow> Q (Some e) t"
    and "\<And>t. disposed S (handled cancel_numbers D) (map D cancel_numbers) True K t \<Longrightarrow> Q None t"
  shows "wp landin_cancellation_begin Q w"
proof -
  have 0: "disposed S (handled [] D) V False K (w\<lparr>w_cancel := 0\<rparr>)"
    using assms(1) by (simp add: disposed_def handled_def [abs_def])
  have dist: "distinct ([] @ cancel_numbers)"
    by (simp add: cancel_numbers_def SIGINT_def SIGTERM_def SIGHUP_def)
  have "wp (cancel_install cancel_numbers (map (\<lambda>n. (n, D n)) [])) (\<lambda>r t. wp (case r of Inl error \<Rightarrow> ret (Some error)
       | Inr saved \<Rightarrow> do {
           modify (\<lambda>w. w\<lparr>k_cancel_saved := saved, k_cancel_active := True\<rparr>);
           ret None
         }) Q t) (w\<lparr>w_cancel := 0\<rparr>)"
    by (rule cancel_install_rule [OF _ _ dist 0])
      (use assms(2,3) in \<open>simp_all add: disposed_def\<close>)
  with assms(1) show ?thesis by (simp add: landin_cancellation_begin_def disposed_def)
qed

lemma end_rule:
  assumes "disposed S (handled cancel_numbers D) (map D cancel_numbers) True K w"
    and "\<And>t. disposed S D (map D cancel_numbers) False K t \<Longrightarrow> w_cancel t = 0 \<Longrightarrow> Q () t"
  shows "wp landin_cancellation_end Q w"
proof -
  have zip: "zip cancel_numbers (map D cancel_numbers) = map (\<lambda>n. (n, D n)) cancel_numbers"
    by (simp add: zip_map2 zip_same_conv_map)
  have act: "k_cancel_active w" "k_cancel_saved w = map D cancel_numbers"
    using assms(1) by (simp_all add: disposed_def)
  have "wp (restore_signals (map (\<lambda>n. (n, D n)) cancel_numbers))
      (\<lambda>r t. Q () (t\<lparr>k_cancel_active := False, w_cancel := 0\<rparr>)) w"
    by (rule disposed_restore [OF _ assms(1)])
      (use assms(2) handled_back [of D cancel_numbers] in \<open>simp add: disposed_def\<close>)
  with act zip show ?thesis by (simp add: landin_cancellation_end_def)
qed

lemma deliver_first:
  "n \<noteq> 0 \<Longrightarrow> q_disp w n = Cancel_notify \<Longrightarrow> n \<notin> set (q_mask w) \<Longrightarrow>
   w_cancel (deliver n w) = (if w_cancel w = 0 then n else w_cancel w)"
  by (simp add: deliver_def landin_cancel_notify_def)

lemma deliver_all_first:
  "\<forall>n \<in> set ns. n \<noteq> 0 \<and> q_disp w n = Cancel_notify \<and> n \<notin> set (q_mask w) \<Longrightarrow>
   w_cancel (fold deliver ns w) = (if w_cancel w = 0 \<and> ns \<noteq> [] then hd ns else w_cancel w)"
  by (induction ns arbitrary: w) (auto simp: deliver_first)

section \<open>Running a program\<close>

lemma disposed_children: "disposed S D V A K (w\<lparr>q_children := c\<rparr>) \<longleftrightarrow> disposed S D V A K w"
  by (simp add: disposed_def)

lemma disposed_kill:
  assumes "disposed S D V A K w" and "\<And>r t. disposed S D V A K t \<Longrightarrow> Q r t"
  shows "wp (sys_kill target n) Q w"
proof -
  have "wp (pcall (-1) (\<lambda>_ w. if map_of (q_children w) \<bar>target\<bar> = None then Inl ESRCH
      else Inr (0, w\<lparr>q_children := kill_child \<bar>target\<bar> n (q_children w)\<rparr>))) Q
     (w\<lparr>q_kills := (target, n) # q_kills w\<rparr>)"
    by (rule handling.pcall_rule [OF handling.I_kill [OF assms(1)]])
      (use assms(2) in \<open>auto simp: disposed_children split: if_splits\<close>)
  then show ?thesis by (simp add: wp_def sys_kill_def)
qed

lemma disposed_waitpid:
  assumes "disposed S D V A K w" and "\<And>r t. disposed S D V A K t \<Longrightarrow> Q r t"
  shows "wp (sys_waitpid pid h) Q w"
  unfolding sys_waitpid_def
  by (rule handling.pcall_rule [OF assms(1)])
    (use assms(2) in \<open>auto simp: disposed_children split: option.splits if_splits\<close>)

lemma disposed_wait_loop:
  assumes "\<And>r t. disposed S D V A K t \<Longrightarrow> Q r t"
  shows "disposed S D V A K w \<Longrightarrow> wp (State (wait_loop child h)) Q w"
proof (induction child h w rule: wait_loop.induct)
  case (1 child h w)
  obtain r t where r: "run_state (sys_waitpid child h) w = (r, t)" by fastforce
  then have t: "disposed S D V A K t" using wpD [OF disposed_waitpid [OF 1(2), of "\<lambda>_. disposed S D V A K"]] by simp
  show ?case
  proof (cases "r = None \<and> w_errno t = EINTR")
    case True
    then have "wp (State (wait_loop child h)) Q t" using 1(1) [of None t] r t by auto
    with True r show ?thesis by (simp add: wp_def wait_loop.simps [of child h w])
  next
    case False
    with r t assms show ?thesis
      by (auto simp: wp_def wait_loop.simps [of child h w] split: option.splits)
  qed
qed

lemma disposed_spawn:
  assumes "disposed S D V A K w" and "\<And>e t. disposed S D V A K t \<Longrightarrow> Q (Inl e) t"
    and "\<And>pid fds cwd t. run_actions as (fst S, None) = Inr (fds, cwd) \<Longrightarrow>
      disposed (fst S, (pid, \<lparr>s_args = args, s_env = env, s_fds = exec_fds fds, s_directory = cwd, s_group = a_group attr,
        s_disp = exec_disposition (a_defaults attr) D,
        s_mask = (case a_mask attr of None \<Rightarrow> K | Some m \<Rightarrow> m)\<rparr>) # snd S) D V A K t \<Longrightarrow> Q (Inr pid) t"
  shows "wp (sys_posix_spawn as attr args env) Q w"
proof -
  obtain tn t where n: "next_pturn w = (tn, t)" by fastforce
  with handling.I_turn [OF assms(1) n] assms(2,3) show ?thesis
    by (auto simp: wp_def sys_posix_spawn_def disposed_def split: option.splits sum.splits)
qed

lemma disposed_catch:
  assumes "disposed S D V A K w"
    and "\<And>t. disposed S (if D n = SIG_IGN then D else D(n := Program_forward)) V A K t \<Longrightarrow> Q (D n) t"
  shows "wp (landin_program_catch n) Q w"
  unfolding landin_program_catch_def
proof (rule wp_seq, rule disposed_look [OF assms(1)], goal_cases)
  case (1 t)
  show ?case
  proof (cases "D n = SIG_IGN")
    case True
    with assms(2) [of t] 1 show ?thesis by simp
  next
    case False
    have "wp (sig_set n Program_forward) (\<lambda>_. Q (D n)) t"
      by (rule disposed_set [OF 1]) (use assms(2) False in simp)
    with False show ?thesis by simp
  qed
qed

lemma fold_deliver_disposed [simp]: "disposed S D V A K (fold deliver ns w) \<longleftrightarrow> disposed S D V A K w"
  by (induction ns arbitrary: w) simp_all

lemma disposed_set_mask:
  assumes "disposed S D V A K w" and "\<And>t. disposed S D V A blocked t \<Longrightarrow> Q () t"
  shows "wp (set_mask blocked) Q w"
proof -
  have "disposed S D V A blocked (w\<lparr>q_mask := blocked, q_pending := []\<rparr>)"
    using assms(1) by (simp add: disposed_def)
  then show ?thesis using assms(2) by (simp add: set_mask_def Let_def)
qed

lemma disposed_modify:
  assumes "disposed S D V A K w" and "\<And>v. disposed S D V A K v \<Longrightarrow> disposed S D V A K (f v)"
    and "\<And>t. disposed S D V A K t \<Longrightarrow> Q () t"
  shows "wp (modify f) Q w"
  using assms by simp

lemma disposed_raise:
  "disposed S D V A K v \<Longrightarrow>
   disposed S D V A K (if k_program_pending v \<noteq> 0 then deliver (k_program_pending v) v else v)"
  by simp

definition caught :: "nat \<Rightarrow> (nat \<Rightarrow> disposition) \<Rightarrow> nat \<Rightarrow> disposition" where
  "caught n D = (if D n = SIG_IGN then D else D(n := Program_forward))"

lemma program_restores:
  "(((caught SIGHUP (caught SIGTERM (D(SIGINT := SIG_IGN, SIGQUIT := SIG_IGN))))
      (SIGTERM := D SIGTERM, SIGHUP := D SIGHUP))(SIGINT := D SIGINT, SIGQUIT := D SIGQUIT)) = D"
  by (auto simp: fun_eq_iff caught_def SIGINT_def SIGQUIT_def SIGTERM_def SIGHUP_def)

lemma caught_other:
  "(D(SIGINT := SIG_IGN)) SIGQUIT = D SIGQUIT"
  "(D(SIGINT := SIG_IGN, SIGQUIT := SIG_IGN)) SIGTERM = D SIGTERM"
  "(caught SIGTERM (D(SIGINT := SIG_IGN, SIGQUIT := SIG_IGN))) SIGHUP = D SIGHUP"
  by (auto simp: caught_def SIGINT_def SIGQUIT_def SIGTERM_def SIGHUP_def)

lemma await_rule:
  assumes "disposed S D V A K w" and "\<And>r t. disposed S D V A K t \<Longrightarrow> Q r t"
  shows "wp (await_program pid) Q w"
  unfolding await_program_def get_errno_def
  by (rule wp_seq, rule wp_get, rule wp_seq, rule wp_if)
    (auto intro!: wp_seq wp_ret wp_get disposed_kill disposed_wait_loop assms)

text \<open>
  What a foreground run starts: nothing, and it fails; or one program, in the caller's group and directory
  and with the caller's environment and its descriptors that are not close-on-exec, for which interrupt and quit have their defaults,
  what else was ignored stays ignored, and the mask is the caller's.
\<close>

definition program_started :: "cstring list \<Rightarrow> cstring list \<Rightarrow> (nat \<Rightarrow> disposition) \<Rightarrow> nat list
    \<Rightarrow> (int \<times> desc) list \<times> (int \<times> started) list \<Rightarrow> bool \<Rightarrow> int \<Rightarrow> (int \<times> desc) list \<times> (int \<times> started) list \<Rightarrow> bool" where
  "program_started environ args D K S failed child S' \<longleftrightarrow>
     S' = S \<and> failed \<and> child = 0
     \<or> S' = (fst S, (child, \<lparr>s_args = args, s_env = environ, s_fds = exec_fds (fst S), s_directory = None, s_group = False,
         s_disp = (\<lambda>n. if n = SIGINT \<or> n = SIGQUIT \<or> D n \<noteq> SIG_IGN then SIG_DFL else SIG_IGN),
         s_mask = K\<rparr>) # snd S)"

lemma exec_caught:
  "exec_disposition [SIGINT, SIGQUIT] (caught SIGHUP (caught SIGTERM (D(SIGINT := SIG_IGN, SIGQUIT := SIG_IGN))))
   = (\<lambda>n. if n = SIGINT \<or> n = SIGQUIT \<or> D n \<noteq> SIG_IGN then SIG_DFL else SIG_IGN)"
  by (auto simp: fun_eq_iff exec_disposition_def caught_def SIGINT_def SIGQUIT_def SIGTERM_def SIGHUP_def)

lemma run_program_rule:
  assumes "disposed S D V A K w"
    and "\<And>error number status child t S'. disposed S' D V A old t \<Longrightarrow>
      program_started environ args D old S (error \<noteq> None) child S' \<Longrightarrow> Q (error, number, status, child) t"
  shows "wp (run_program environ args old) Q w"
proof -
  let ?E = "D(SIGINT := SIG_IGN, SIGQUIT := SIG_IGN)"
  let ?C = "caught SIGHUP (caught SIGTERM ?E)"
  have last: "wp (do { modify (\<lambda>w. w\<lparr>k_program_child := 0\<rparr>); sig_set SIGINT (D SIGINT);
      sig_set SIGQUIT (D SIGQUIT); ret (error, number, status, child) }) Q t"
    if t: "disposed S' (?C(SIGTERM := D SIGTERM, SIGHUP := D SIGHUP)) V A old t"
      and s: "program_started environ args D old S (error \<noteq> None) child S'" for S' error number status child t
    by (rule wp_seq, rule disposed_modify [OF t], simp add: disposed_def,
        rule wp_seq, rule disposed_set, assumption, rule wp_seq, rule disposed_set, assumption,
        rule wp_ret, rule assms(2) [OF _ s], simp add: program_restores)
  show ?thesis
    unfolding run_program_def
    apply (rule wp_seq, rule disposed_exchange [OF assms(1)])
    apply (rule wp_seq, rule disposed_exchange, assumption)
    apply (rule wp_seq, rule disposed_modify, assumption, simp add: disposed_def)
    apply (rule wp_seq, rule disposed_catch, assumption, fold caught_def)
    apply (rule wp_seq, rule disposed_catch, assumption, fold caught_def)
    apply (simp only: caught_other)
    apply (rule wp_seq, rule disposed_spawn, assumption)
    subgoal for t1 t2 t3 t4 t5 e t
    proof -
      assume t: "disposed S ?C V A K t"
      show ?thesis unfolding sum.case
        apply (rule wp_seq, rule wp_seq, rule disposed_set [OF t], rule disposed_set, assumption)
        apply (rule wp_seq, rule disposed_set_mask, assumption)
        apply (rule wp_seq, rule wp_seq, rule disposed_modify, assumption, erule disposed_raise)
        apply (rule wp_ret, erule last, simp add: program_started_def)
        done
    qed
    subgoal for t1 t2 t3 t4 t5 pid fds cwd t
    proof -
      assume "run_actions [] (fst S, None) = Inr (fds, cwd)"
        and "disposed (fst S, (pid, \<lparr>s_args = args, s_env = environ, s_fds = exec_fds fds, s_directory = cwd,
          s_group = a_group (program_attributes old),
          s_disp = exec_disposition (a_defaults (program_attributes old)) ?C,
          s_mask = (case a_mask (program_attributes old) of None \<Rightarrow> K | Some m \<Rightarrow> m)\<rparr>) # snd S) ?C V A K t"
      then obtain S' where t: "disposed S' ?C V A K t" and s: "program_started environ args D old S b pid S'" for b
        by (force simp: program_attributes_def exec_caught program_started_def)
      show ?thesis unfolding sum.case
        apply (rule wp_seq, rule disposed_modify [OF t], simp add: disposed_def)
        apply (rule wp_seq, rule disposed_set_mask, assumption)
        apply (rule wp_seq, rule wp_seq, rule await_rule, assumption, rule wp_case_prod, rule wp_case_prod)
        apply (rule wp_seq, rule disposed_set, assumption, rule wp_seq, rule disposed_set, assumption)
        apply (rule wp_ret, erule last, rule s)
        done
    qed
    done
qed

lemma disposed_mask: "disposed S D V A K w \<Longrightarrow> (disposed S D V A K w \<Longrightarrow> Q K w) \<Longrightarrow> wp (gets q_mask) Q w"
  by (simp add: disposed_def)

lemma disposed_block:
  "disposed S D V A K w \<Longrightarrow> (\<And>t. disposed S D V A (ns @ K) t \<Longrightarrow> Q () t) \<Longrightarrow> wp (block_signals ns) Q w"
  by (simp add: block_signals_def disposed_def)

lemma program_run_rule:
  assumes "disposed S D V A K w"
    and "\<And>error number status child t S'. disposed S' D V A K t \<Longrightarrow>
      program_started environ args D K S (error \<noteq> None) child S' \<Longrightarrow> Q (error, number, status, child) t"
  shows "wp (landin_program_run environ args) Q w"
proof -
  have stop: "Q (Some e, 0, 0, 0) t" if "disposed S D V A K t" for e t
    by (rule assms(2) [OF that]) (simp add: program_started_def)
  have setups: "wp sys_setup R t" if "disposed S D V A K' t" "\<And>r t. disposed S D V A K' t \<Longrightarrow> R r t" for K' R t
    by (rule handling.setup_rule [OF that])
  have undo: "wp (do { set_mask K; ret (Some e, 0, 0, 0) }) Q t" if "disposed S D V A K' t" for K' e t
    by (rule wp_seq, rule disposed_set_mask [OF that], rule wp_ret, erule stop)
  have again: "wp (case e of None \<Rightarrow> sys_setup | Some e \<Rightarrow> ret (Some e)) R t"
    if "disposed S D V A K' t" "\<And>r t. disposed S D V A K' t \<Longrightarrow> R r t" for e K' R t
    by (rule wp_case_option, rule setups [OF that(1)], erule that(2), rule wp_ret, rule that(2) [OF that(1)])
  show ?thesis
    unfolding landin_program_run_def
    apply (rule wp_seq, rule handling.policy_rule [OF assms(1)], rule wp_case_option)
     apply (rule wp_seq, rule setups, assumption, rule wp_case_option)
      apply (rule wp_seq, rule disposed_mask, assumption)
      apply (rule wp_seq, rule disposed_block, assumption)
      apply (rule wp_seq, rule setups, assumption, rule wp_case_option)
       apply (rule wp_seq, rule setups, assumption)
       apply (rule wp_seq, rule again, assumption)
       apply (rule wp_seq, rule again, assumption)
       apply (rule wp_case_option)
        apply (rule wp_seq, rule run_program_rule, assumption)
        apply (intro wp_intros, erule assms(2), simp)
       apply (erule undo)
      apply (erule undo)
     apply (rule wp_ret, erule stop)
    apply (rule wp_ret, erule stop)
    done
qed

section \<open>The reservation of a child\<close>

text \<open>An environment that reaps no child of this process and reports no \<open>ECHILD\<close> of its own.\<close>

definition honest :: "pturn \<Rightarrow> bool" where
  "honest u \<longleftrightarrow> u_fault u \<noteq> Some ECHILD \<and> (\<forall>cs. dom (map_of (u_children u cs)) = dom (map_of cs))"

definition tied :: "bool \<Rightarrow> int \<Rightarrow> 'z proc_world_scheme \<Rightarrow> bool" where
  "tied b child w \<longleftrightarrow> list_all honest (q_turns w) \<and> (child \<in> dom (map_of (q_children w))) = b"

lemma honest_idle: "honest idle_pturn"
  by (simp add: honest_def idle_pturn_def)

lemma tied_next:
  assumes "tied b child w" and "next_pturn w = (tn, t)"
  shows "tied b child t \<and> honest tn"
proof (cases "q_turns w")
  case Nil
  with assms honest_idle show ?thesis by (auto simp: next_pturn_def)
next
  case (Cons u us)
  with assms have "tn = u" "t = deliver (u_signal u) (w\<lparr>q_turns := us, q_children := u_children u (q_children w)\<rparr>)"
    "honest u" "list_all honest us" "(child \<in> dom (map_of (q_children w))) = b"
    by (auto simp add: next_pturn_def tied_def)
  then show ?thesis by (simp only: tied_def honest_def deliver_turns deliver_fields) simp
qed

interpretation reserving: process_view "tied b child" "\<lambda>e. e \<noteq> ECHILD" for b child
proof unfold_locales
  show "tied b child t" if "tied b child w" "next_pturn w = (tn, t)" for w tn t
    using tied_next [OF that] by blast
  show "e \<noteq> ECHILD" if "tied b child w" "next_pturn w = (tn, t)" "u_fault tn = Some e" for w tn t e
    using tied_next [OF that(1,2)] that(3) by (auto simp: honest_def)
qed (simp_all add: tied_def)

lemma tied_map_of: "tied True child w \<Longrightarrow> \<exists>s. map_of (q_children w) child = Some s"
  by (auto simp: tied_def)

lemma tied_kill:
  assumes "tied True child w" and "\<bar>target\<bar> = child"
    and "\<And>t. tied True child t \<Longrightarrow> w_errno t \<noteq> ECHILD \<Longrightarrow> Q (-1) t" and "\<And>t. tied True child t \<Longrightarrow> Q 0 t"
  shows "wp (sys_kill target n) Q w"
proof -
  have "wp (pcall (-1) (\<lambda>_ w. if map_of (q_children w) \<bar>target\<bar> = None then Inl ESRCH
      else Inr (0, w\<lparr>q_children := kill_child \<bar>target\<bar> n (q_children w)\<rparr>))) Q
     (w\<lparr>q_kills := (target, n) # q_kills w\<rparr>)"
    by (rule reserving.pcall_rule [OF reserving.I_kill [OF assms(1)]])
      (use assms(2-4) in \<open>auto simp: tied_def kill_child_def dom_def split: if_splits\<close>)
  then show ?thesis by (simp add: wp_def sys_kill_def)
qed

lemma tied_waitid:
  assumes "tied True child w"
    and "\<And>t. tied True child t \<Longrightarrow> w_errno t \<noteq> ECHILD \<Longrightarrow> Q None t"
    and "\<And>pid t. tied True child t \<Longrightarrow> pid = 0 \<or> pid = child \<Longrightarrow> Q (Some pid) t"
  shows "wp (sys_waitid child) Q w"
  unfolding sys_waitid_def
  by (rule reserving.pcall_rule [OF assms(1)])
    (use assms(2,3) in \<open>auto dest: tied_map_of split: option.splits\<close>)

lemma tied_waitpid:
  assumes "tied True child w"
    and "\<And>t. tied True child t \<Longrightarrow> w_errno t \<noteq> ECHILD \<Longrightarrow> Q None t"
    and "\<And>t. tied True child t \<Longrightarrow> h \<Longrightarrow> Q (Some (0, Live)) t"
    and "\<And>s t. tied False child t \<Longrightarrow> Q (Some (child, s)) t"
  shows "wp (sys_waitpid child h) Q w"
  unfolding sys_waitpid_def
proof (rule reserving.pcall_rule [OF assms(1)], goal_cases)
  case (1 t)
  then show ?case by (rule assms(2))
next
  case (2 tn t e)
  then show ?case by (auto dest: tied_map_of split: option.splits if_splits)
next
  case (3 tn t r u)
  from 3(1) obtain s where s: "map_of (q_children t) child = Some s" by (auto dest: tied_map_of)
  have gone: "tied False child (t\<lparr>q_children := al_del child (q_children t)\<rparr>)"
    using 3(1) by (auto simp: tied_def)
  show ?case
    using 3 s assms(3) [of t] assms(4) [OF gone] by (auto split: if_splits)
qed

lemma tied_wait_loop:
  assumes "\<And>t. tied True child t \<Longrightarrow> w_errno t \<noteq> ECHILD \<Longrightarrow> Q None t"
    and "\<And>t. tied True child t \<Longrightarrow> h \<Longrightarrow> Q (Some (0, Live)) t"
    and "\<And>s t. tied False child t \<Longrightarrow> Q (Some (child, s)) t"
  shows "tied True child w \<Longrightarrow> wp (State (wait_loop child h)) Q w"
  using assms
proof (induction child h w rule: wait_loop.induct)
  case (1 child h w)
  obtain r t where r: "run_state (sys_waitpid child h) w = (r, t)" by fastforce
  let ?R = "\<lambda>r t. r = None \<and> tied True child t \<and> w_errno t \<noteq> ECHILD
     \<or> r = Some (0, Live) \<and> h \<and> tied True child t \<or> (\<exists>s. r = Some (child, s)) \<and> tied False child t"
  have t: "?R r t" by (rule wpD [OF tied_waitpid [OF 1(2), of ?R] r]) auto
  show ?case
  proof (cases "r = None \<and> w_errno t = EINTR")
    case True
    then have "wp (State (wait_loop child h)) Q t" using 1(1) [of None t] r t 1(3-5) by auto
    with True r show ?thesis by (simp add: wp_def wait_loop.simps [of child h w])
  next
    case False
    with r t 1(3-5) show ?thesis
      by (auto simp: wp_def wait_loop.simps [of child h w] split: option.splits)
  qed
qed

lemma tied_observe_loop:
  assumes "\<And>t. tied True child t \<Longrightarrow> w_errno t \<noteq> ECHILD \<Longrightarrow> Q None t"
    and "\<And>pid t. tied True child t \<Longrightarrow> pid = 0 \<or> pid = child \<Longrightarrow> Q (Some pid) t"
  shows "tied True child w \<Longrightarrow> wp (State (observe_loop child)) Q w"
  using assms
proof (induction child w rule: observe_loop.induct)
  case (1 child w)
  obtain r t where r: "run_state (sys_waitid child) w = (r, t)" by fastforce
  let ?R = "\<lambda>r t. r = None \<and> tied True child t \<and> w_errno t \<noteq> ECHILD
     \<or> (\<exists>pid. r = Some pid \<and> (pid = 0 \<or> pid = child)) \<and> tied True child t"
  have t: "?R r t" by (rule wpD [OF tied_waitid [OF 1(2), of ?R] r]) auto
  show ?case
  proof (cases "r = None \<and> w_errno t = EINTR")
    case True
    then have "wp (State (observe_loop child)) Q t" using 1(1) [of None t] r t 1(3,4) by auto
    with True r show ?thesis by (simp add: wp_def observe_loop.simps [of child w])
  next
    case False
    with r t 1(3,4) show ?thesis
      by (auto simp: wp_def observe_loop.simps [of child w] split: option.splits)
  qed
qed

lemma tied_wait:
  assumes "tied True child w" and "0 < child"
    and "\<And>r t. tied True child t \<Longrightarrow> r \<noteq> child \<Longrightarrow> w_errno t \<noteq> ECHILD \<or> 0 \<le> r \<Longrightarrow> Q (r, None, True) t"
    and "\<And>s t. tied False child t \<Longrightarrow> Q (child, s, False) t"
  shows "wp (landin_tool_wait_reserved child h) Q w"
  using assms(2) unfolding landin_tool_wait_reserved_def get_errno_def
  by (simp, intro tied_wait_loop [OF _ _ _ assms(1)]) (use assms(2-4) in auto)

definition stopped :: "int \<Rightarrow> int \<Rightarrow> 'z proc_world_scheme \<Rightarrow> bool" where
  "stopped child r t \<longleftrightarrow> r = child \<and> tied False child t
     \<or> r \<noteq> child \<and> tied True child t \<and> (w_errno t \<noteq> ECHILD \<or> 0 \<le> r)"

lemma stopped_reserved: "0 < child \<Longrightarrow> stopped child r t \<Longrightarrow>
    tied (\<not> (r = child \<or> r < 0 \<and> w_errno t = ECHILD)) child t"
  by (auto simp: stopped_def)

lemma stopped_failed: "0 < child \<Longrightarrow> tied True child t \<Longrightarrow> w_errno t \<noteq> ECHILD \<Longrightarrow> stopped child (-1) t"
  by (simp add: stopped_def)

lemma leader_rule:
  assumes "tied True child w" and "w_errno w \<noteq> ECHILD"
    and "\<And>t. tied True child t \<Longrightarrow> Q True t" and "\<And>t. tied True child t \<Longrightarrow> w_errno t \<noteq> ECHILD \<Longrightarrow> Q False t"
  shows "wp (group_of_ended_leader child) Q w"
proof -
  have keep: "wp (do { set_errno e; ret False }) Q t" if "tied True child t" "e \<noteq> ECHILD" for e t
    by (rule wp_seq, rule reserving.set_errno_rule [OF that(1)], rule wp_ret, rule assms(4)) (use that(2) in auto)
  have "wp (sys_waitid child) (\<lambda>observed t. wp (do { e \<leftarrow> get_errno;
       if observed = Some child then ret True
       else if observed = None \<and> e = ECHILD then ret False
       else do { set_errno (w_errno w); ret False } }) Q t) w"
    by (rule tied_waitid [OF assms(1)])
      (use assms(2,3) keep in \<open>auto simp: get_errno_def\<close>)
  with assms keep [OF assms(1,2)] show ?thesis by (simp add: group_of_ended_leader_def get_errno_def)
qed

lemma wait_stops:
  assumes "tied True child w" and "0 < child" and "\<And>r s t. stopped child r t \<Longrightarrow> Q (r, s) t"
  shows "wp (landin_tool_wait child h) Q w"
  unfolding landin_tool_wait_def
  by (rule wp_seq, rule tied_wait [OF assms(1,2)])
    (use assms(2,3) in \<open>auto simp: stopped_def\<close>)

lemma stop_rule:
  assumes "tied True child w" and "0 < child" and "\<And>r s t. stopped child r t \<Longrightarrow> Q (r, s) t"
  shows "wp (landin_tool_stop child) Q w"
proof -
  have fail: "Q (-1, None) t" if "tied True child t" "w_errno t \<noteq> ECHILD" for t
    by (rule assms(3), rule stopped_failed [OF assms(2) that])
  have wait: "wp (landin_tool_wait child False) Q t" if "tied True child t" for t
    by (rule wait_stops [OF that assms(2)]) (rule assms(3))
  have direct: "wp (do { direct \<leftarrow> sys_kill child SIGKILL; e2 \<leftarrow> get_errno;
       if direct \<noteq> 0 \<and> e2 \<noteq> ESRCH then ret (-1, None) else landin_tool_wait child False }) Q t"
    if "tied True child t" for t
    by (rule wp_seq, rule tied_kill [OF that])
      (use assms(2) fail wait in \<open>auto simp: get_errno_def\<close>)
  have "wp (sys_kill (- child) SIGKILL) (\<lambda>killed t. wp (do { e \<leftarrow> get_errno;
      go_on \<leftarrow> (if killed \<noteq> 0 \<and> e \<noteq> ESRCH then group_of_ended_leader child else ret True);
      if \<not> go_on then ret (-1, None)
      else do { direct \<leftarrow> sys_kill child SIGKILL; e2 \<leftarrow> get_errno;
       if direct \<noteq> 0 \<and> e2 \<noteq> ESRCH then ret (-1, None) else landin_tool_wait child False } }) Q t) w"
  proof (rule tied_kill [OF assms(1)], goal_cases)
    case 1
    then show ?case using assms(2) by simp
  next
    case (2 t)
    have "wp (group_of_ended_leader child) (\<lambda>go_on t. wp (if \<not> go_on then ret (-1, None)
      else do { direct \<leftarrow> sys_kill child SIGKILL; e2 \<leftarrow> get_errno;
       if direct \<noteq> 0 \<and> e2 \<noteq> ESRCH then ret (-1, None) else landin_tool_wait child False }) Q t) t"
      by (rule leader_rule [OF 2]) (use direct fail in auto)
    with 2 direct [OF 2(1)] show ?case by (simp add: get_errno_def)
  next
    case (3 t)
    with direct [OF 3] show ?case by (simp add: get_errno_def)
  qed
  with assms(2) show ?thesis by (simp add: landin_tool_stop_def)
qed

lemma watch_rule:
  assumes "\<And>t. tied True child t \<Longrightarrow> Q True t" and "\<And>t. tied True child t \<Longrightarrow> w_errno t \<noteq> ECHILD \<Longrightarrow> Q False t"
  shows "tied True child w \<Longrightarrow> wp (watch_end k child) Q w"
proof (induction k arbitrary: w)
  case 0
  with assms(1) show ?case by simp
next
  case (Suc k)
  show ?case unfolding watch_end.simps get_errno_def
    by (rule wp_seq, rule tied_waitid [OF Suc.prems])
      (use assms Suc.IH in auto)
qed

lemma fallback_rule:
  assumes "tied True child w" and "w_errno w \<noteq> ECHILD" and "0 < child"
    and "\<And>t. tied True child t \<Longrightarrow> Q (Inl True) t" and "\<And>t. tied True child t \<Longrightarrow> Q (Inr ()) t"
  shows "wp (cancel_fallback child number) Q w"
proof -
  have direct: "wp (do { sent \<leftarrow> landin_cancel_forward child number; e2 \<leftarrow> get_errno;
      if sent \<noteq> 0 \<and> e2 \<noteq> ESRCH then ret (Inl True) else ret (Inr ()) }) Q t"
    if "tied True child t" for t
    unfolding landin_cancel_forward_def
    by (rule wp_seq, rule tied_kill [OF that]) (use assms(3-5) in \<open>auto simp: get_errno_def\<close>)
  have denied: "wp (do { set_errno e; ret (Inl True) }) Q t" if "tied True child t" for e t
    by (rule wp_seq, rule reserving.set_errno_rule [OF that], rule wp_ret, erule assms(4))
  have "wp (State (observe_loop child)) (\<lambda>observed t. wp (do { e \<leftarrow> get_errno;
       case observed of None \<Rightarrow> ret (Inl (e \<noteq> ECHILD))
       | Some pid \<Rightarrow>
           if pid = 0 then
             (if w_errno w \<noteq> ESRCH then do { set_errno (w_errno w); ret (Inl True) }
              else do {
                sent \<leftarrow> landin_cancel_forward child number;
                e2 \<leftarrow> get_errno;
                if sent \<noteq> 0 \<and> e2 \<noteq> ESRCH then ret (Inl True) else ret (Inr ())
              })
           else if pid \<noteq> child then do { set_errno ECHILD; ret (Inl False) }
           else ret (Inr ()) }) Q t) w"
    by (rule tied_observe_loop [OF _ _ assms(1)])
      (use assms(3-5) direct denied in \<open>auto simp: get_errno_def\<close>)
  with assms show ?thesis by (simp add: cancel_fallback_def get_errno_def)
qed

lemma cancel_rule:
  assumes "tied True child w" and "0 < child"
    and "\<And>r s b t. tied b child t \<Longrightarrow> Q (r, s, b) t"
  shows "wp (landin_tool_cancel_reserved child) Q w"
proof -
  have settled: "Q (r, s, \<not> (r = child \<or> r < 0 \<and> w_errno t = ECHILD)) t" if "stopped child r t" for r s t
    by (rule assms(3) [OF stopped_reserved [OF assms(2) that]])
  have stop: "wp (do { (result, status) \<leftarrow> landin_tool_stop child; e2 \<leftarrow> get_errno;
        ret (result, status, \<not> (result = child \<or> result < 0 \<and> e2 = ECHILD)) }) Q t"
    if "tied True child t" for t
    by (rule wp_seq, rule stop_rule [OF that assms(2)])
      (use settled in \<open>auto simp: get_errno_def\<close>)
  have watch: "wp (do { watched \<leftarrow> watch_end 50 child; e \<leftarrow> get_errno;
        if \<not> watched then ret (-1, None, e \<noteq> ECHILD)
        else do { (result, status) \<leftarrow> landin_tool_stop child; e2 \<leftarrow> get_errno;
          ret (result, status, \<not> (result = child \<or> result < 0 \<and> e2 = ECHILD)) } }) Q t"
    if "tied True child t" for t
    by (rule wp_seq, rule watch_rule [OF _ _ that])
      (use assms(3) stop in \<open>auto simp: get_errno_def\<close>)
  have "wp (landin_cancel_forward (- child) number) (\<lambda>sent t. wp (do {
       fallback \<leftarrow> (if sent \<noteq> 0 then cancel_fallback child number else ret (Inr ()));
       case fallback of
         Inl owned \<Rightarrow> ret (-1, None, owned)
       | Inr _ \<Rightarrow> do { watched \<leftarrow> watch_end 50 child; e \<leftarrow> get_errno;
        if \<not> watched then ret (-1, None, e \<noteq> ECHILD)
        else do { (result, status) \<leftarrow> landin_tool_stop child; e2 \<leftarrow> get_errno;
          ret (result, status, \<not> (result = child \<or> result < 0 \<and> e2 = ECHILD)) } } }) Q t) w" for number
    unfolding landin_cancel_forward_def
  proof (rule tied_kill [OF assms(1)], goal_cases)
    case 1
    then show ?case using assms(2) by simp
  next
    case (2 t)
    show ?case
      by (rule wp_seq, rule wp_if, rule fallback_rule [OF 2 assms(2)])
        (use assms(3) watch in auto)
  next
    case (3 t)
    with watch [OF 3] show ?case by simp
  qed
  moreover have "wp (do { set_errno EINVAL; ret (-1, None, True) }) Q w"
    by (rule wp_seq, rule reserving.set_errno_rule [OF assms(1)], rule wp_ret, erule assms(3))
  ultimately show ?thesis using assms(2)
    by (simp add: landin_tool_cancel_reserved_def landin_cancellation_requested_def)
qed

end
