(* ===== verification/ToolClaims.thy ===== *)
theory ToolClaims
  imports ToolCancel Samples
begin

text \<open>
  The properties of the tool processes: what a started tool reads and writes, what the invocation's
  cancellation and a foreground run leave of the dispositions, and the reservation of a child.
\<close>

section \<open>A process for the witnesses\<close>

definition tool_world :: proc_world where
  "tool_world = \<lparr>w_fs = sample_fs, w_fds = [(0, sample_desc 5), (1, sample_desc 6), (2, sample_desc 7), (5, sample_desc 1)],
     w_errno = EOK, w_turns = [], w_cancel = 0, w_hook = None, w_log = [], w_host = Linux,
     w_root = (1, 1), w_cwd = ''/'', w_uid = 0, w_gid = 0, w_groups = [], w_pid = 7,
     w_volumes = (\<lambda>_. \<lparr>v_type = TMPFS, v_case = 1\<rparr>), w_tmpdir = None, w_nofile = 64,
     w_strerror = (\<lambda>_. ''error''),
     q_children = [(12, Live)], q_turns = [], q_disp = (\<lambda>n. if n = SIGHUP then SIG_IGN else SIG_DFL),
     q_nocldwait = False, q_mask = [], q_pending = [], q_kills = [], q_started = [], k_captures = [],
     k_cancel_active = False, k_cancel_saved = [], k_program_child = 0, k_program_pending = 0\<rparr>"

section \<open>The properties\<close>

text \<open>
  C24. What a started tool gets. Whatever calls fail, and whichever of the descriptors given are
  themselves among the standard ones, a start either fails and starts nothing, or starts one program
  whose standard input, output, error output and directory are the objects given: the input given,
  or the caller's (none, if the caller's number 0 is one of the files given); the capture; the errors
  given, or the capture. It inherits none of the descriptors given under any other number and no other
  that is close-on-exec, leads a group
  of its own, and has exactly the environment given when it is isolated, the caller's otherwise. The
  caller's own descriptors are as before.
\<close>

theorem tool_start_descriptors:
  assumes "\<forall>fd \<in> {input, capture, errors, directory}. 0 \<le> fd \<longrightarrow> map_of (w_fds w) fd \<noteq> None"
  shows "case run_state (landin_tool_start_in_directory environ args env isolated input capture errors directory) w of
     (r, t) \<Rightarrow> map_of (w_fds t) = map_of (w_fds w)
       \<and> start_result args (if isolated then env else environ) (input, capture, errors, directory) (map_of (w_fds w)) (q_started w)
           r (q_started t)"
proof -
  have "runs (map_of (w_fds w)) (q_started w) w" by (simp add: runs_def)
  from start_rule [OF this, of input capture errors directory environ args env isolated] assms
  show ?thesis by (auto simp: wp_def runs_def case_prod_beta)
qed

text \<open>The standard output is given as the input and the standard input as the capture.\<close>

theorem tool_start_descriptors_witness:
  "case run_state (landin_tool_start_in_directory [''A=a''] [''/bin/cc''] [''PATH=/bin''] True 1 0 (-1) 5) tool_world of
     (r, t) \<Rightarrow> map_of (w_fds t) = map_of (w_fds tool_world)
       \<and> start_result [''/bin/cc''] [''PATH=/bin''] (1, 0, -1, 5) (map_of (w_fds tool_world)) [] r (q_started t)"
proof -
  have "\<forall>fd \<in> {1, 0, -1, 5}. 0 \<le> fd \<longrightarrow> map_of (w_fds tool_world) fd \<noteq> None"
    by (simp add: tool_world_def)
  from tool_start_descriptors [OF this, where args = "[''/bin/cc'']" and isolated = True
      and env = "[''PATH=/bin'']" and environ = "[''A=a'']"]
  show ?thesis by (simp add: tool_world_def)
qed

text \<open>
  C25. The cancellation's handlers. Beginning either fails and leaves every disposition as it was, or
  puts the handler on interrupt, termination and hangup, except where the signal is ignored; the end
  that follows, whatever happened between, gives every signal its old disposition back and forgets
  the signal received.
\<close>

theorem cancellation_round_trip:
  fixes w :: "'z proc_world_scheme"
  assumes "\<not> k_cancel_active w" and "run_state landin_cancellation_begin w = (e, t)"
  shows "e \<noteq> None \<and> q_disp t = q_disp w \<and> \<not> k_cancel_active t
     \<or> e = None \<and> q_disp t = handled cancel_numbers (q_disp w) \<and> k_cancel_active t
       \<and> (\<forall>u :: 'z proc_world_scheme. k_cancel_active u \<and> k_cancel_saved u = k_cancel_saved t \<and> q_disp u = q_disp t \<longrightarrow>
            (case run_state landin_cancellation_end u of
               (_, v) \<Rightarrow> q_disp v = q_disp w \<and> \<not> k_cancel_active v \<and> w_cancel v = 0))"
proof -
  have w: "disposed (w_fds w, q_started w) (q_disp w) (k_cancel_saved w) False (q_mask w) w"
    using assms(1) by (simp add: disposed_def)
  have "e \<noteq> None \<and> disposed (w_fds w, q_started w) (q_disp w) (k_cancel_saved w) False (q_mask w) t
      \<or> e = None \<and> disposed (w_fds w, q_started w) (handled cancel_numbers (q_disp w))
        (map (q_disp w) cancel_numbers) True (q_mask w) t"
    by (rule wpD [OF begin_rule [OF w] assms(2)]) auto
  then show ?thesis
  proof
    assume e: "e = None \<and> disposed (w_fds w, q_started w) (handled cancel_numbers (q_disp w))
        (map (q_disp w) cancel_numbers) True (q_mask w) t"
    have "case run_state landin_cancellation_end u of
        (_, v) \<Rightarrow> q_disp v = q_disp w \<and> \<not> k_cancel_active v \<and> w_cancel v = 0"
      if u: "k_cancel_active u" "k_cancel_saved u = k_cancel_saved t" "q_disp u = q_disp t" for u :: "'z proc_world_scheme"
    proof -
      have "disposed (w_fds u, q_started u) (handled cancel_numbers (q_disp w))
          (map (q_disp w) cancel_numbers) True (q_mask u) u"
        using u e by (simp add: disposed_def)
      then have "wp landin_cancellation_end
          (\<lambda>_ v. q_disp v = q_disp w \<and> \<not> k_cancel_active v \<and> w_cancel v = 0) u"
        by (rule end_rule) (simp add: disposed_def)
      then show ?thesis by (simp add: wp_def)
    qed
    with e show ?thesis by (simp add: disposed_def)
  qed (simp add: disposed_def)
qed

theorem cancellation_round_trip_witness:
  "case run_state landin_cancellation_begin tool_world of (e, t) \<Rightarrow>
     e \<noteq> None \<and> q_disp t = q_disp tool_world \<and> \<not> k_cancel_active t
     \<or> e = None \<and> q_disp t = handled cancel_numbers (q_disp tool_world) \<and> k_cancel_active t"
proof -
  have "\<not> k_cancel_active tool_world" by (simp add: tool_world_def)
  from cancellation_round_trip [OF this surjective_pairing]
  show ?thesis by (auto simp: case_prod_beta)
qed

text \<open>
  The first signal counts. Of the signals that arrive while the handler is installed, the one that
  arrived first is what the invocation is told it was cancelled by, however many follow.
\<close>

lemma first_signal_counts:
  assumes "\<forall>n \<in> set ns. n \<noteq> 0 \<and> q_disp w n = Cancel_notify \<and> n \<notin> set (q_mask w)"
  shows "fst (run_state landin_cancellation_requested (fold deliver ns w))
     = (if w_cancel w = 0 \<and> ns \<noteq> [] then hd ns else w_cancel w)"
  using deliver_all_first [OF assms] by (simp add: landin_cancellation_requested_def)

lemma first_signal_counts_witness:
  "fst (run_state landin_cancellation_requested
     (fold deliver [SIGTERM, SIGINT, SIGTERM] (tool_world\<lparr>q_disp := \<lambda>n. Cancel_notify\<rparr>))) = SIGTERM"
  using first_signal_counts [of "[SIGTERM, SIGINT, SIGTERM]" "tool_world\<lparr>q_disp := \<lambda>n. Cancel_notify\<rparr>"]
  by (simp add: tool_world_def SIGTERM_def SIGINT_def)

text \<open>
  C26. The reservation of a child is exact. Waiting for a child, or cancelling it, reports that the
  child is still held exactly when it has not been waited for, on every path: so a process number is
  never given up while it still needs a wait, and never signalled after it may have been reused. The
  environment neither reaps this process's child nor invents an \<open>ECHILD\<close>.
\<close>

theorem reservation_exact:
  assumes "list_all honest (q_turns w)" and "child \<in> fst ` set (q_children w)" and "0 < child"
  shows "(case run_state (landin_tool_wait_reserved child no_hang) w of
       ((r, status, owned), t) \<Rightarrow> owned = (child \<in> fst ` set (q_children t)))
     \<and> (case run_state (landin_tool_cancel_reserved child) w of
       ((r, status, owned), t) \<Rightarrow> owned = (child \<in> fst ` set (q_children t)))"
proof -
  have w: "tied True child w" using assms(1,2) by (simp add: tied_def dom_map_of_conv_image_fst)
  have "wp (landin_tool_wait_reserved child no_hang) (\<lambda>(r, s, b) t. tied b child t) w"
    by (rule tied_wait [OF w assms(3)]) auto
  moreover have "wp (landin_tool_cancel_reserved child) (\<lambda>(r, s, b) t. tied b child t) w"
    by (rule cancel_rule [OF w assms(3)]) auto
  ultimately show ?thesis
    by (simp add: wp_def tied_def dom_map_of_conv_image_fst case_prod_beta)
qed

theorem reservation_exact_witness:
  "(case run_state (landin_tool_wait_reserved 12 True) tool_world of
       ((r, status, owned), t) \<Rightarrow> owned = (12 \<in> fst ` set (q_children t)))
     \<and> (case run_state (landin_tool_cancel_reserved 12) tool_world of
       ((r, status, owned), t) \<Rightarrow> owned = (12 \<in> fst ` set (q_children t)))"
  by (rule reservation_exact) (simp_all add: tool_world_def)

text \<open>
  C27. A foreground run leaves the signals as they were. Whether the program starts or not, ends or
  cannot be waited for, and whichever signals arrive, every disposition and the mask are afterwards
  what they were before. It fails and starts nothing, or starts one program, in the caller's group, with
  the caller's environment, mask and descriptors that are not close-on-exec, which an interrupt or quit ends again although the
  caller ignores them meanwhile, and which ignores whatever else the caller ignored before.
\<close>

theorem program_run_restores:
  "case run_state (landin_program_run environ args) w of ((error, number, status, child), t) \<Rightarrow>
     q_disp t = q_disp w \<and> q_mask t = q_mask w
     \<and> program_started environ args (q_disp w) (q_mask w) (w_fds w, q_started w) (error \<noteq> None) child
         (w_fds t, q_started t)"
proof -
  have "wp (landin_program_run environ args) (\<lambda>(error, number, status, child) t. q_disp t = q_disp w \<and> q_mask t = q_mask w
      \<and> program_started environ args (q_disp w) (q_mask w) (w_fds w, q_started w) (error \<noteq> None) child
         (w_fds t, q_started t)) w"
    by (rule program_run_rule [of "(w_fds w, q_started w)" "q_disp w" "k_cancel_saved w" "k_cancel_active w" "q_mask w"])
      (simp_all add: disposed_def)
  then show ?thesis by (auto simp: wp_def split: prod.splits)
qed

end
