(* ===== verification/Inheritance.thy ===== *)
theory Inheritance
  imports ToolClaims PublicationClaims
begin

text \<open>
  A descriptor that reaches the tools. The root of a publication is pinned with \<^verbatim>\<open>dup\<close>, whose copy is not
  close-on-exec, and it is kept until the last publication below the root is finished: every tool started
  meanwhile inherits it.
\<close>

section \<open>The descriptor a root is pinned with\<close>

text \<open>The descriptors of \<open>T\<close> are in the table, as they were, and the anchors are \<open>R\<close>.\<close>

definition tabled :: "(int \<rightharpoonup> desc) \<Rightarrow> anchor list \<Rightarrow> 'z pub_world_scheme \<Rightarrow> bool" where
  "tabled T R w \<longleftrightarrow> T \<subseteq>\<^sub>m map_of (w_fds w) \<and> g_roots w = R"

interpretation tabling: reading "tabled T R :: 'z pub_world_scheme \<Rightarrow> bool" "\<lambda>fd. T fd = None"
  for T :: "int \<rightharpoonup> desc" and R :: "anchor list"
proof unfold_locales
  fix w w1 :: "'z pub_world_scheme" and t
  assume "tabled T R w" "next_turn w = (t, w1)"
  then show "tabled T R w1" by (auto simp: tabled_def next_turn_def split: list.splits)
next
  fix w u :: "'z pub_world_scheme" and n k ds
  assume t: "tabled T R w" and o: "open_fd k ds w = (n, u)"
  then have "map_of (w_fds w) n = None" using free_fd_fresh [of "w_fds w" k] by (auto simp: open_fd_def Let_def)
  with t o show "0 \<le> n \<and> T n = None \<and> tabled T R u"
    using free_fd_fresh [of "w_fds w" k] by (auto simp: tabled_def open_fd_def Let_def map_le_def dom_def)
qed (auto simp: tabled_def barrier_def map_le_def dom_def split: option.splits)

lemma dup_inheritable:
  assumes "tabled T R (w :: 'z pub_world_scheme)" and "T fd = Some ds" and "\<And>t. tabled T R t \<Longrightarrow> Q (-1) t"
    and "\<And>n t. 0 \<le> n \<Longrightarrow> tabled (T(n \<mapsto> ds\<lparr>d_cloexec := False\<rparr>)) R t \<Longrightarrow> Q n t"
  shows "wp (sys_dup fd 0) Q w"
  unfolding sys_dup_def using assms(1,3)
proof (rule tabling.on_call)
  fix tn r and t u :: "'z pub_world_scheme"
  assume t: "tabled T R t" and u: "(case map_of (w_fds t) fd of None \<Rightarrow> Inl EBADF
     | Some ds \<Rightarrow> Inr (open_fd 0 (ds\<lparr>d_cloexec := (0 \<noteq> 0)\<rparr>) t)) = Inr (r, u)"
  have "map_of (w_fds t) fd = Some ds" using t assms(2) by (auto simp: tabled_def map_le_def dom_def)
  with u have o: "open_fd 0 (ds\<lparr>d_cloexec := False\<rparr>) t = (r, u)" by simp
  have "tabled T R u" "T r = None" using tabling.opened [OF t o] by simp_all
  moreover have "map_of (w_fds u) r = Some (ds\<lparr>d_cloexec := False\<rparr>)" "0 \<le> r"
    using o free_fd_fresh [of "w_fds t" 0] by (auto simp: open_fd_def Let_def)
  ultimately show "Q r u" using assms(4) by (simp add: tabled_def map_le_def dom_def)
qed

lemma choose_pins:
  assumes "map_of (w_fds w) fd = Some ds" and "find (\<lambda>r. an_path r = root) (g_roots w) = None"
    and "run_state (choose_anchor fd root) w = (Some k, t)"
  shows "\<exists>a. g_roots t = a # g_roots w \<and> an_id a = k \<and> an_path a = root
    \<and> map_of (w_fds t) (an_fd a) = Some (ds\<lparr>d_cloexec := False\<rparr>)"
proof -
  let ?Q = "\<lambda>r t. \<forall>k. r = Some k \<longrightarrow> (\<exists>a. g_roots t = a # g_roots w \<and> an_id a = k \<and> an_path a = root
    \<and> map_of (w_fds t) (an_fd a) = Some (ds\<lparr>d_cloexec := False\<rparr>))"
  have w: "tabled [fd \<mapsto> ds] (g_roots w) w" using assms(1) by (simp add: tabled_def map_le_def)
  have fails: "wp (do { close_fd fd; ret None }) ?Q u" for u by (simp add: wp_def case_prod_beta)
  have pins: "wp (do { pinned \<leftarrow> sys_dup fd 0;
       if pinned < 0 then do { close_fd fd; ret None }
       else do {
         k \<leftarrow> gets g_next_id;
         modify (\<lambda>w. w\<lparr>g_next_id := Suc k, g_roots := \<lparr>an_id = k, an_path = root,
           an_fd = pinned, an_identity = selected, an_refs = 0\<rparr> # g_roots w\<rparr>);
         ret (Some k)
       } }) ?Q u" if u: "tabled [fd \<mapsto> ds] (g_roots w) u" for u selected
    by (rule wp_seq, rule dup_inheritable [OF u], simp, rule wp_if, rule fails, simp, rule wp_if, simp)
       (simp add: tabled_def map_le_def)
  have "wp (choose_anchor fd root) ?Q w"
    unfolding choose_anchor_def
    apply (rule wp_seq, rule tabling.on_fstat [OF w], rule wp_case_option, rule fails)
    apply (rule wp_seq, rule wp_get, rule wp_case_option)
     apply (rule wp_seq, rule tabling.on_alloc, assumption)
     apply (rule wp_seq, rule wp_if, rule tabling.on_alloc, assumption, rule wp_if, rule fails, rule pins, assumption)
     apply (rule wp_ret, rule wp_if, rule fails, rule pins, assumption)
    using assms(2) apply (simp add: tabled_def)
    done
  from wpD [OF this assms(3)] show ?thesis by simp
qed

section \<open>Property\<close>

text \<open>
  C28. A defect: a pinned root reaches every tool. When a publication pins a new root, each tool that starts
  while that descriptor is open has the root's directory open under the same number, unless the number is a
  standard descriptor or one of the files given. Every other descriptor of the publications is opened
  close-on-exec; this one is made by \<^verbatim>\<open>dup\<close>, which clears the flag.
\<close>

theorem pinned_root_inherited:
  assumes "map_of (w_fds w) fd = Some ds" and "find (\<lambda>r. an_path r = root) (g_roots w) = None"
    and "run_state (choose_anchor fd root) w = (Some k, w1)"
    and "map_of (w_fds v) = map_of (w_fds w1)"
    and "\<forall>n \<in> {input, capture, errors, directory}. 0 \<le> n \<longrightarrow> map_of (w_fds v) n \<noteq> None"
    and "run_state (landin_tool_start_in_directory environ args env isolated input capture errors directory) v
      = ((None, pid), v1)"
  shows "\<exists>a child. g_roots w1 = a # g_roots w \<and> an_id a = k \<and> q_started v1 = (pid, child) # q_started v
    \<and> (an_fd a \<in> {0, 1, 2, input, capture, errors, directory}
       \<or> map_option d_obj (map_of (s_fds child) (an_fd a)) = Some (d_obj ds))"
proof -
  obtain a where a: "g_roots w1 = a # g_roots w" "an_id a = k"
    "map_of (w_fds w1) (an_fd a) = Some (ds\<lparr>d_cloexec := False\<rparr>)"
    using choose_pins [OF assms(1-3)] by blast
  have "runs (map_of (w_fds v)) (q_started v) v" by (simp add: runs_def)
  from wpD [OF start_rule [OF this, of input capture errors directory environ args env isolated] assms(6)] assms(5)
  obtain child where "q_started v1 = (pid, child) # q_started v"
    "map_of (s_fds child) = child_fds (input < 0 \<and> 0 \<in> {capture, errors, directory}) input capture errors directory
      (map_of (w_fds v))"
    by (auto simp: start_result_def runs_def)
  with a assms(4) show ?thesis by (auto simp: child_fds_def inherited_def)
qed

section \<open>A run\<close>

text \<open>A process whose descriptor 3 is a root directory, opened close-on-exec; then the same table where a tool starts.\<close>

definition rooted_world :: pub_world where
  "rooted_world = sample_world\<lparr>w_fds := [(0, sample_desc 5), (1, sample_desc 6), (2, sample_desc 7),
     (3, sample_desc 1\<lparr>d_cloexec := True\<rparr>)]\<rparr>"

lemma rooted_choice:
  "case run_state (choose_anchor 3 ''/'') rooted_world of (r, t) \<Rightarrow>
     r = Some 2 \<and> map an_fd (g_roots t) = [4] \<and> w_fds t = (4, sample_desc 1) # w_fds rooted_world"
  by (simp add: choose_anchor_def rooted_world_def sample_world_def sys_fstat_def sys_dup_def alloc_def call_def next_turn_def
      idle_turn_def fd_obj_def stat_of_def sample_fs_def sample_desc_def new_inode_def open_fd_def free_fd_def)

definition inheriting_world :: proc_world where
  "inheriting_world = tool_world\<lparr>w_fds := (4, sample_desc 1) # w_fds rooted_world\<rparr>"

lemma inheriting_start:
  "fst (run_state (landin_tool_start_in_directory [] [''/bin/cc''] [] True (-1) 1 (-1) (-1)) inheriting_world) = (None, 1)"
  by code_simp

lemma pinned_root_inherited_witness:
  "case run_state (choose_anchor 3 ''/'') rooted_world of (_, w1) \<Rightarrow>
   case run_state (landin_tool_start_in_directory [] [''/bin/cc''] [] True (-1) 1 (-1) (-1)) inheriting_world of (_, v1) \<Rightarrow>
   \<exists>child. q_started v1 = [(1, child)] \<and> map an_fd (g_roots w1) = [4]
     \<and> map_option d_obj (map_of (s_fds child) 4) = Some (1, 1)"
proof -
  obtain r w1 where w1: "run_state (choose_anchor 3 ''/'') rooted_world = (r, w1)" by fastforce
  obtain v1 where v1: "run_state (landin_tool_start_in_directory [] [''/bin/cc''] [] True (-1) 1 (-1) (-1)) inheriting_world
      = ((None, 1), v1)"
    using inheriting_start by (metis prod.collapse)
  have r: "r = Some 2" "map an_fd (g_roots w1) = [4]" "w_fds w1 = (4, sample_desc 1) # w_fds rooted_world"
    using rooted_choice w1 by simp_all
  have fd: "map_of (w_fds rooted_world) 3 = Some (sample_desc 1\<lparr>d_cloexec := True\<rparr>)"
    and known: "find (\<lambda>r. an_path r = ''/'') (g_roots rooted_world) = None"
    and same: "map_of (w_fds inheriting_world) = map_of (w_fds w1)"
    and given: "\<forall>n \<in> {-1, 1, -1, -1}. 0 \<le> n \<longrightarrow> map_of (w_fds inheriting_world) n \<noteq> None"
    by (simp_all add: rooted_world_def sample_world_def inheriting_world_def r(3))
  have "q_started inheriting_world = []" by (simp add: inheriting_world_def tool_world_def)
  with pinned_root_inherited [OF fd known w1 [unfolded r(1)] same given v1] r(2) w1 v1
  show ?thesis by (auto simp: sample_desc_def)
qed

end
