(* ===== verification/Boundaries.thy ===== *)
theory Boundaries
  imports PublicationStep FormatReplace ToolProcess
begin

text \<open>
  The public registry boundaries: the functions of
  \<^verbatim>\<open>landin_publication.c\<close>, \<^verbatim>\<open>landin_file_identity.c\<close>, \<^verbatim>\<open>landin_format_replace.c\<close> and
  \<^verbatim>\<open>landin_tool_process.c\<close> that take a registry's mutex around the operation of the same name with the
  suffix \<^verbatim>\<open>_locked\<close>, and the order in which threads take the four mutexes.

  The first part is what one thread sees: the state is the world and the mutexes the thread holds.
  A default mutex that its owner locks again does not return, and unlocking one that is not held
  ends the process: both are \<open>None\<close>. The second part is what several threads do to each other: each
  runs a sequence of public calls, of which only the locking and the work between are looked at.
\<close>

section \<open>The mutexes of one thread\<close>

datatype mutex = Publication_registry | Private_registry | Format_registry | Capture_registry

text \<open>The mutexes held, and what the locking calls leave in \<^verbatim>\<open>errno\<close>.\<close>

record lock_state =
  lk_held :: "mutex list"
  lk_leaves :: errno

definition registry_lock :: "mutex \<Rightarrow> lock_state \<times> 'z world_scheme \<Rightarrow> (lock_state \<times> 'z world_scheme) option" where
  "registry_lock m = (\<lambda>(k, w).
     let saved = w_errno w; called = w\<lparr>w_errno := lk_leaves k\<rparr> in
     if m \<in> set (lk_held k) then None
     else Some (k\<lparr>lk_held := m # lk_held k\<rparr>, called\<lparr>w_errno := saved\<rparr>))"

definition registry_unlock :: "mutex \<Rightarrow> lock_state \<times> 'z world_scheme \<Rightarrow> (lock_state \<times> 'z world_scheme) option" where
  "registry_unlock m = (\<lambda>(k, w).
     let saved = w_errno w; called = w\<lparr>w_errno := lk_leaves k\<rparr> in
     if m \<notin> set (lk_held k) then None
     else Some (k\<lparr>lk_held := remove1 m (lk_held k)\<rparr>, called\<lparr>w_errno := saved\<rparr>))"

definition bounded :: "mutex \<Rightarrow> ('z world_scheme, 'a) state \<Rightarrow> lock_state \<times> 'z world_scheme
    \<Rightarrow> ('a \<times> lock_state \<times> 'z world_scheme) option" where
  "bounded m body s = Option.bind (registry_lock m s) (\<lambda>(k, w).
     case run_state body w of (result, t) \<Rightarrow>
       map_option (\<lambda>u. (result, u)) (registry_unlock m (k, t)))"

lemma bounded_run:
  "bounded m body (k, w) = (if m \<in> set (lk_held k) then None
     else case run_state body w of (r, t) \<Rightarrow> Some (r, k, t))"
  by (simp add: bounded_def registry_lock_def registry_unlock_def Let_def split: prod.split)

definition landin_publication_stage_directory where
  "landin_publication_stage_directory text = bounded Publication_registry (landin_publication_stage_directory_locked text)"

definition landin_publication_rebase_argument where
  "landin_publication_rebase_argument arg directory room = bounded Publication_registry (landin_publication_rebase_argument_locked arg directory room)"

definition landin_publication_stage_write where
  "landin_publication_stage_write path bs = bounded Publication_registry (landin_publication_stage_write_locked path bs)"

definition landin_publication_stage_mkdir where
  "landin_publication_stage_mkdir path = bounded Publication_registry (landin_publication_stage_mkdir_locked path)"

definition landin_read_snapshot where
  "landin_read_snapshot path = bounded Publication_registry (landin_read_snapshot_locked path)"

definition landin_publication_open where
  "landin_publication_open path flags root stage_room room = bounded Publication_registry (landin_publication_open_locked path flags root stage_room room)"

definition landin_publication_step where
  "landin_publication_step token action paths ids room = bounded Publication_registry (landin_publication_step_locked token action paths ids room)"

definition landin_private_directory where
  "landin_private_directory prefix capacity = bounded Private_registry (landin_private_directory_locked prefix capacity)"

definition landin_remove_tree where
  "landin_remove_tree path = bounded Private_registry (landin_remove_tree_locked path)"

definition landin_private_parent where
  "landin_private_parent path = bounded Private_registry (landin_private_parent_locked path)"

definition landin_private_open where
  "landin_private_open path flags mode = bounded Private_registry (landin_private_open_locked path flags mode)"

definition landin_private_read_descriptor where
  "landin_private_read_descriptor path = bounded Private_registry (landin_private_read_descriptor_locked path)"

definition landin_private_path_current where
  "landin_private_path_current path = bounded Private_registry (landin_private_path_current_locked path)"

definition landin_private_mkdir where
  "landin_private_mkdir path = bounded Private_registry (landin_private_mkdir_locked path)"

definition landin_private_write where
  "landin_private_write path bs = bounded Private_registry (landin_private_write_locked path bs)"

definition landin_private_argument_directory where
  "landin_private_argument_directory argument = bounded Private_registry (landin_private_argument_directory_locked argument)"

definition landin_private_rebase_argument where
  "landin_private_rebase_argument argument directory room = bounded Private_registry (landin_private_rebase_argument_locked argument directory room)"

definition landin_open_update where
  "landin_open_update path room = bounded Format_registry (landin_open_update_locked path room)"

definition landin_update_identity where
  "landin_update_identity token = bounded Format_registry (landin_update_identity_locked token)"

definition landin_close_update where
  "landin_close_update token = bounded Format_registry (landin_close_update_locked token)"

definition landin_replace_update where
  "landin_replace_update token data room = bounded Format_registry (landin_replace_update_locked token data room)"

definition landin_replace_existing_file where
  "landin_replace_existing_file path data room = bounded Format_registry (landin_replace_existing_file_locked path data room)"

definition landin_tool_capture where
  "landin_tool_capture capacity = bounded Capture_registry (landin_tool_capture_locked capacity)"

definition landin_tool_capture_read where
  "landin_tool_capture_read fd = bounded Capture_registry (landin_tool_capture_read_locked fd)"

definition landin_tool_capture_close where
  "landin_tool_capture_close fd capacity = bounded Capture_registry (landin_tool_capture_close_locked fd capacity)"

section \<open>The mutexes of several threads\<close>

text \<open>The lock order of the sources' comment: Publication before Private.\<close>

fun lock_rank :: "mutex \<Rightarrow> nat" where
  "lock_rank Publication_registry = 0"
| "lock_rank Format_registry = 1"
| "lock_rank Capture_registry = 2"
| "lock_rank Private_registry = 3"

instantiation mutex :: linorder
begin

definition less_eq_mutex :: "mutex \<Rightarrow> mutex \<Rightarrow> bool" where
  "less_eq_mutex m n \<longleftrightarrow> lock_rank m \<le> lock_rank n"

definition less_mutex :: "mutex \<Rightarrow> mutex \<Rightarrow> bool" where
  "less_mutex m n \<longleftrightarrow> lock_rank m < lock_rank n"

instance
proof
  fix m n :: mutex
  show "m \<le> n \<Longrightarrow> n \<le> m \<Longrightarrow> m = n" by (cases m; cases n) (simp_all add: less_eq_mutex_def)
qed (auto simp: less_eq_mutex_def less_mutex_def)

end

text \<open>The public functions, by the registry whose mutex they take.\<close>

datatype entry_point =
    Publication_stage_directory | Publication_rebase_argument | Publication_stage_write
  | Publication_stage_mkdir | Read_snapshot | Publication_open | Publication_step
  | Private_directory | Remove_tree | Private_parent | Private_open | Private_read_descriptor
  | Private_path_current | Private_mkdir | Private_write | Private_argument_directory
  | Private_rebase_argument | Unlink_file
  | Open_update | Update_identity | Close_update | Replace_update | Replace_existing_file
  | Tool_capture | Tool_capture_read | Tool_capture_close

fun boundary :: "entry_point \<Rightarrow> mutex" where
  "boundary e = (if e \<in> {Publication_stage_directory, Publication_rebase_argument, Publication_stage_write,
        Publication_stage_mkdir, Read_snapshot, Publication_open, Publication_step} then Publication_registry
     else if e \<in> {Open_update, Update_identity, Close_update, Replace_update, Replace_existing_file}
     then Format_registry
     else if e \<in> {Tool_capture, Tool_capture_read, Tool_capture_close} then Capture_registry
     else Private_registry)"

text \<open>Two functions call a public function of the private registry under their own mutex: reading a
  snapshot may call \<^verbatim>\<open>landin_private_open\<close>, and opening a publication calls \<^verbatim>\<open>landin_private_parent\<close>
  through \<^verbatim>\<open>parent_for\<close>, each at most once.\<close>

definition calls_private :: "entry_point \<Rightarrow> bool" where
  "calls_private e \<longleftrightarrow> e = Read_snapshot \<or> e = Publication_open"

datatype action = Acquire mutex | Work mutex | Release mutex

text \<open>What a call does to the mutexes; \<open>nested\<close> says whether it takes the nested call.\<close>

definition call_actions :: "entry_point \<times> bool \<Rightarrow> action list" where
  "call_actions = (\<lambda>(e, nested). let m = boundary e in
     [Acquire m, Work m]
     @ (if nested \<and> calls_private e
        then [Acquire Private_registry, Work Private_registry, Release Private_registry, Work m] else [])
     @ [Release m])"

type_synonym machine = "(mutex \<Rightarrow> nat option) \<times> action list list"

inductive moves :: "machine \<Rightarrow> machine \<Rightarrow> bool" where
  acquire: "i < length ts \<Longrightarrow> ts ! i = Acquire m # xs \<Longrightarrow> own m = None
    \<Longrightarrow> moves (own, ts) (own(m := Some i), ts[i := xs])"
| work: "i < length ts \<Longrightarrow> ts ! i = Work m # xs \<Longrightarrow> moves (own, ts) (own, ts[i := xs])"
| release: "i < length ts \<Longrightarrow> ts ! i = Release m # xs \<Longrightarrow> own m = Some i
    \<Longrightarrow> moves (own, ts) (own(m := None), ts[i := xs])"

definition start_threads :: "(entry_point \<times> bool) list list \<Rightarrow> machine" where
  "start_threads calls = (\<lambda>_. None, map (\<lambda>cs. concat (map call_actions cs)) calls)"

definition remaining :: "action list list \<Rightarrow> nat" where
  "remaining ts = sum_list (map length ts)"

text \<open>A thread that holds \<open>H\<close> takes its mutexes in the lock order, works under them and gives them back.\<close>

fun orderly :: "mutex set \<Rightarrow> action list \<Rightarrow> bool" where
  "orderly H [] \<longleftrightarrow> H = {}"
| "orderly H (Acquire m # xs) \<longleftrightarrow> (\<forall>h \<in> H. h < m) \<and> orderly (insert m H) xs"
| "orderly H (Work m # xs) \<longleftrightarrow> m \<in> H \<and> orderly H xs"
| "orderly H (Release m # xs) \<longleftrightarrow> m \<in> H \<and> orderly (H - {m}) xs"

definition holds :: "(mutex \<Rightarrow> nat option) \<Rightarrow> nat \<Rightarrow> mutex set" where
  "holds own i = {m. own m = Some i}"

lemma holds_nothing [simp]: "holds (\<lambda>_. None) i = {}"
  by (simp add: holds_def)

lemma holds_acquired: "own m = None \<Longrightarrow> holds (own(m \<mapsto> i)) j = (if j = i then insert m (holds own i) else holds own j)"
  by (auto simp: holds_def)

lemma holds_released: "own m = Some i \<Longrightarrow> holds (own(m := None)) j = (if j = i then holds own i - {m} else holds own j)"
  by (auto simp: holds_def)

definition in_order :: "machine \<Rightarrow> bool" where
  "in_order = (\<lambda>(own, ts). (\<forall>i < length ts. orderly (holds own i) (ts ! i))
     \<and> (\<forall>m i. own m = Some i \<longrightarrow> i < length ts))"

lemma publication_before_private: "Publication_registry < Private_registry"
  by (simp add: less_mutex_def)

lemma call_actions_orderly: "orderly {} xs \<Longrightarrow> orderly {} (call_actions c @ xs)"
  by (auto simp: call_actions_def Let_def calls_private_def publication_before_private split: prod.split)

lemma start_in_order: "in_order (start_threads calls)"
proof -
  have "orderly {} (concat (map call_actions cs))" for cs
    by (induction cs) (auto simp: call_actions_orderly)
  then show ?thesis by (simp add: in_order_def start_threads_def)
qed

lemma remaining_update:
  "i < length ts \<Longrightarrow> ts ! i = a # xs \<Longrightarrow> remaining ts = Suc (remaining (ts[i := xs]))"
  unfolding remaining_def
  by (induction ts arbitrary: i) (auto simp: nth_Cons split: nat.splits)

lemma moves_in_order:
  assumes "moves (own, ts) (own', ts')" and "in_order (own, ts)"
  shows "in_order (own', ts') \<and> remaining ts = Suc (remaining ts') \<and> length ts' = length ts"
proof -
  have ok: "\<And>i. i < length ts \<Longrightarrow> orderly (holds own i) (ts ! i)"
    and bound: "\<And>m i. own m = Some i \<Longrightarrow> i < length ts"
    using assms(2) by (auto simp: in_order_def)
  from assms(1) show ?thesis
  proof (cases rule: moves.cases)
    case (acquire i m xs)
    show ?thesis using acquire ok [of i] ok bound
      unfolding in_order_def by (auto simp: holds_acquired remaining_update nth_list_update)
  next
    case (work i m xs)
    show ?thesis using work ok [of i] ok bound
      unfolding in_order_def by (auto simp: remaining_update nth_list_update)
  next
    case (release i m xs)
    show ?thesis using release ok [of i] ok bound
      unfolding in_order_def by (auto simp: holds_released remaining_update nth_list_update)
  qed
qed

lemma in_order_progress:
  assumes "in_order (own, ts)"
  shows "remaining ts = 0 \<and> own = (\<lambda>_. None) \<or> (\<exists>s. moves (own, ts) s)"
proof -
  have ok: "\<And>i. i < length ts \<Longrightarrow> orderly (holds own i) (ts ! i)"
    and bound: "\<And>m i. own m = Some i \<Longrightarrow> i < length ts"
    using assms by (auto simp: in_order_def)
  have act: "\<exists>s. moves (own, ts) s"
    if i: "i < length ts" "ts ! i = a # xs" and free: "\<And>m. a = Acquire m \<Longrightarrow> own m = None" for i a xs
    using ok [OF i(1)] i free by (cases a) (auto simp: holds_def intro: moves.intros)
  show ?thesis
  proof (cases "\<exists>m. own m \<noteq> None")
    case False
    then have none: "own = (\<lambda>_. None)" by auto
    show ?thesis
    proof (cases "remaining ts = 0")
      case False
      then obtain i where "i < length ts" "ts ! i \<noteq> []" by (auto simp: remaining_def set_conv_nth)
      with none act [of i] show ?thesis by (cases "ts ! i") auto
    qed (use none in simp)
  next
    case True
    let ?held = "{m. own m \<noteq> None}"
    have fin: "finite ?held" by (rule finite_subset [of _ "set [Publication_registry, Private_registry, Format_registry, Capture_registry]"])
        (auto, metis mutex.exhaust)
    let ?m = "Max ?held"
    from True have "?m \<in> ?held" using Max_in [OF fin] by auto
    then obtain i where i: "own ?m = Some i" by auto
    then have held: "?m \<in> holds own i" by (simp add: holds_def)
    from bound [OF i] have il: "i < length ts" .
    from held ok [OF il] obtain a xs where ts: "ts ! i = a # xs" by (cases "ts ! i") auto
    have "own m = None" if "a = Acquire m" for m
    proof (rule ccontr)
      assume "own m \<noteq> None"
      then have "m \<le> ?m" using fin by (intro Max_ge) auto
      moreover have "?m < m" using ok [OF il] ts that held by simp
      ultimately show False by simp
    qed
    from act [OF il ts this] show ?thesis by blast
  qed
qed

lemma reachable_in_order:
  "(moves ^^ n) (start_threads calls) (own, ts) \<Longrightarrow>
     in_order (own, ts) \<and> n + remaining ts = remaining (snd (start_threads calls)) \<and> length ts = length calls"
proof (induction n arbitrary: own ts)
  case 0
  then show ?case using start_in_order [of calls] by (auto simp: start_threads_def)
next
  case (Suc n)
  then obtain own' ts' where "(moves ^^ n) (start_threads calls) (own', ts')" "moves (own', ts') (own, ts)"
    by auto
  with Suc.IH moves_in_order show ?case by fastforce
qed

text \<open>
  C29. The registries' mutexes never deadlock. However many threads make whatever public calls, and
  however they are interleaved, some thread can always go on until all calls have returned; that takes
  as many steps as the calls have, and then no mutex is held.
\<close>

theorem no_deadlock:
  assumes "(moves ^^ n) (start_threads calls) (own, ts)"
  shows "n + remaining ts = remaining (snd (start_threads calls))
     \<and> (remaining ts = 0 \<and> own = (\<lambda>_. None) \<or> (\<exists>s. moves (own, ts) s))"
  using reachable_in_order [OF assms] in_order_progress by blast

theorem no_deadlock_witness:
  "\<exists>s. moves (start_threads [[(Publication_open, True)], [(Private_open, False)]]) s"
  using no_deadlock [of 0 "[[(Publication_open, True)], [(Private_open, False)]]" _ "snd (start_threads [[(Publication_open, True)], [(Private_open, False)]])"]
  by (auto simp: start_threads_def remaining_def call_actions_def)




end
