(* ===== verification/StaleCapture.thy ===== *)
theory StaleCapture
  imports Samples PublicationStep
begin


















end
