(* ===== verification/OwnedFacts.thy ===== *)
theory OwnedFacts
  imports PublicationEvents PrivateRegistry
begin

text \<open>
  What the removal of an owned private directory does to the name space, read off the history: the
  cleanup directory it makes and removes, the entry it moves aside and puts back, and that nothing
  else happens as long as the entry was not verified to be the owned directory.
\<close>

section \<open>Creation\<close>


lemma sees_read_random_aux:
  "sees F ok L M w \<Longrightarrow> (\<And>r t. sees F ok L M t \<Longrightarrow> Q r t) \<Longrightarrow> case read_random fd room used w of (r, t) \<Rightarrow> Q r t"
proof (induction fd room used w rule: read_random.induct)
  case (1 fd room used w)
  show ?case
  proof (cases "room \<le> length used")
    case True
    then show ?thesis using 1(3,4) by (simp add: read_random.simps)
  next
    case False
    obtain got w1 where got: "run_state (sys_read_device fd (room - length used)) w = (got, w1)" by fastforce
    have w1: "sees F ok L M w1"
      using wpD [OF seen.on_read_device [OF 1(3)] got, of "\<lambda>r t. sees F ok L M t"] by simp
    show ?thesis
      using False got w1 1(1) [OF False got [symmetric]] 1(2) [OF False got [symmetric]] 1(4)
      by (subst read_random.simps) (auto split: option.split)
  qed
qed

lemma sees_read_random [sees_rules]:
  assumes "sees F ok L M w" and "\<And>r t. sees F ok L M t \<Longrightarrow> Q r t"
  shows "wp (State (read_random fd room used)) Q w"
  using sees_read_random_aux [OF assms] by (simp add: wp_def)









section \<open>Removal\<close>
















section \<open>Properties\<close>









end
