(* ===== verification/MoveFacts.thy ===== *)
theory MoveFacts
  imports PublicationEvents FileIdentity
begin

text \<open>
  What \<^verbatim>\<open>landin_move_file_noreplace\<close> does to the name space, for every schedule, and a run in which
  another process's file is lost.
\<close>

section \<open>The calls by path\<close>





section \<open>A replacement is lost\<close>

text \<open>
  The old name is removed by its spelling: a file that another process has put there after the link
  was made is removed with it, and the move reports success.
\<close>

definition replaced :: turn where
  "replaced = idle_turn\<lparr>t_peer := (\<lambda>f. add_entry (1, 1) ''out'' (1, 8)
     (del_entry (1, 1) ''out'' (((1, 8), new_inode (Reg ''other'') 420 0 0) # f)))\<rparr>"

lemma move_removes_replacement:
  "case run_state (landin_move_file_noreplace ''/out'' ''/copy'')
      (sample_world\<lparr>w_turns := [idle_turn, idle_turn, replaced]\<rparr>) of (r, t) \<Rightarrow>
     r = 1 \<and> hd (w_log t) = Unlinked (1, 1) ''out'' (1, 8) \<and> map_option i_nlink (map_of (w_fs t) (1, 8)) = Some 0"
  by code_simp

end
