(* ===== verification/Layouts.thy ===== *)
theory Layouts
  imports Main "HOL-Library.Word"
begin

text \<open>
  The object layouts that the control programs of the 32-bit environments pin down:
  \<^verbatim>\<open>environments/cortex-m/probes/abi.c\<close> (a table of sizes, alignments and offsets for each declared
  type, and static assertions), \<^verbatim>\<open>abi-vfp.c\<close> and \<^verbatim>\<open>environments/xtensa/abi_peer.c\<close>. Modelled are C
  types as trees of scalars, arrays, structures and unions, with the operators \<^verbatim>\<open>sizeof\<close>,
  \<^verbatim>\<open>_Alignof\<close> and \<^verbatim>\<open>offsetof\<close> of the ABIs both programs are compiled for, and the programs' own
  declarations, tables and assertions.
\<close>

section \<open>C types and their layout\<close>

datatype ctype = Scalar nat nat | Array ctype nat | Struct members | Union members
  and members = End | Member string ctype members

primrec members_of :: "(string \<times> ctype) list \<Rightarrow> members" where
  "members_of [] = End"
| "members_of (m # ms) = Member (fst m) (snd m) (members_of ms)"

definition round_up :: "nat \<Rightarrow> nat \<Rightarrow> nat" where
  "round_up n a = (n + a - 1) div a * a"

fun alignment :: "ctype \<Rightarrow> nat" and alignments :: "members \<Rightarrow> nat" where
  "alignment (Scalar s a) = a"
| "alignment (Array t n) = alignment t"
| "alignment (Struct ms) = alignments ms"
| "alignment (Union ms) = alignments ms"
| "alignments End = 1"
| "alignments (Member m t ms) = max (alignment t) (alignments ms)"

fun bytes_of :: "ctype \<Rightarrow> nat" and struct_end :: "members \<Rightarrow> nat \<Rightarrow> nat" and union_end :: "members \<Rightarrow> nat" where
  "bytes_of (Scalar s a) = s"
| "bytes_of (Array t n) = n * bytes_of t"
| "bytes_of (Struct ms) = round_up (struct_end ms 0) (alignments ms)"
| "bytes_of (Union ms) = round_up (union_end ms) (alignments ms)"
| "struct_end End at = at"
| "struct_end (Member m t ms) at = struct_end ms (round_up at (alignment t) + bytes_of t)"
| "union_end End = 0"
| "union_end (Member m t ms) = max (bytes_of t) (union_end ms)"

text \<open>Where a structure's member starts; the scalars an object is made of, each with its place, size
  and alignment.\<close>

fun offset_from :: "string \<Rightarrow> members \<Rightarrow> nat \<Rightarrow> nat option" where
  "offset_from name End at = None"
| "offset_from name (Member m t ms) at = (let start = round_up at (alignment t) in
     if m = name then Some start else offset_from name ms (start + bytes_of t))"




section \<open>The layout is sound\<close>










text \<open>Scalars that are aligned and lie between two addresses; one after the other.\<close>

definition placed :: "nat \<Rightarrow> nat \<Rightarrow> (nat \<times> nat \<times> nat) list \<Rightarrow> bool" where
  "placed lo hi = list_all (\<lambda>(at, s, a). a dvd at \<and> lo \<le> at \<and> at + s \<le> hi)"

definition in_sequence :: "(nat \<times> nat \<times> nat) list \<Rightarrow> bool" where
  "in_sequence = sorted_wrt (\<lambda>(at, s, a) (at', s', a'). at + s \<le> at')"

lemma placed_Nil [simp]: "placed lo hi []" "in_sequence []"
  by (simp_all add: placed_def in_sequence_def)






section \<open>The declarations of the control programs\<close>

abbreviation "uint8 \<equiv> Scalar 1 1"
abbreviation "uint16 \<equiv> Scalar 2 2"
abbreviation "uint32 \<equiv> Scalar 4 4"
abbreviation "uint64 \<equiv> Scalar 8 8"
abbreviation "uintptr \<equiv> Scalar 4 4"
abbreviation "pointer \<equiv> Scalar 4 4"
abbreviation "single \<equiv> Scalar 4 4"
abbreviation "double \<equiv> Scalar 8 8"
abbreviation "long_double \<equiv> Scalar 8 8"
abbreviation "unsigned_vector128 \<equiv> Scalar 16 16"

definition struct_A :: members where
  "struct_A = members_of [(''x'', uint8), (''y'', uint32), (''z'', uint8)]"
definition struct_B :: members where
  "struct_B = members_of [(''x'', uint8), (''y'', uint8), (''z'', uint32)]"
definition struct_C :: members where
  "struct_C = members_of [(''x'', uint8), (''y'', uintptr)]"
definition struct_Multiple :: members where
  "struct_Multiple = members_of [(''x'', uint8), (''y'', uint64)]"
definition struct_Evidence0 :: members where
  "struct_Evidence0 = members_of [(''size'', uintptr), (''alignment'', uintptr)]"
definition struct_D :: members where
  "struct_D = members_of [(''x'', uint64), (''y'', uint8)]"
definition struct_Wide :: members where
  "struct_Wide = members_of [(''x'', uintptr), (''y'', uint8)]"
definition struct_Variant :: members where
  "struct_Variant = members_of [(''tag'', uint8),
     (''payload'', Union (members_of [(''wide'', Struct struct_Wide), (''row'', Array uint16 3)]))]"
definition struct_Wrapped :: members where
  "struct_Wrapped = members_of [(''x'', uint8), (''y'', Struct struct_Variant), (''z'', uint16)]"
definition struct_Child :: members where
  "struct_Child = members_of [(''x'', uint8), (''y'', uintptr), (''z'', Array uint16 3)]"
definition struct_Nested :: members where
  "struct_Nested = members_of [(''x'', uint16), (''y'', Struct struct_Child), (''z'', uint8)]"
definition struct_Evidence :: members where
  "struct_Evidence = members_of [(''size'', uintptr), (''alignment'', uintptr), (''first'', pointer), (''second'', pointer)]"
definition struct_Any :: members where
  "struct_Any = members_of [(''data'', pointer), (''table'', pointer)]"
definition struct_Slice :: members where
  "struct_Slice = members_of [(''base'', pointer), (''length'', uintptr)]"
definition struct_FPair :: members where
  "struct_FPair = members_of [(''first'', single), (''second'', single)]"
definition struct_R :: "nat \<Rightarrow> members" where
  "struct_R n = members_of [(''bytes'', Array uint8 n)]"

text \<open>The structures of floating-point members of \<^verbatim>\<open>abi-vfp.c\<close>.\<close>

definition struct_F :: "nat \<Rightarrow> members" where
  "struct_F n = members_of [(''x'', Array single n)]"
definition struct_Doubles :: "nat \<Rightarrow> members" where
  "struct_Doubles n = members_of [(''x'', Array double n)]"

text \<open>The structures of \<^verbatim>\<open>abi_peer.c\<close>.\<close>

definition struct_padded :: members where
  "struct_padded = members_of [(''byte'', uint8), (''wide'', uint64), (''word'', uint32)]"
definition struct_words :: "string list \<Rightarrow> members" where
  "struct_words names = members_of (map (\<lambda>n. (n, uint32)) names)"

section \<open>The tables and assertions\<close>

definition offsetof :: "members \<Rightarrow> string \<Rightarrow> nat option" where
  "offsetof ms name = offset_from name ms 0"

text \<open>A table is the array the macro defines; a member that is not declared would not compile.\<close>

definition layout_SCALAR :: "ctype \<Rightarrow> nat list option" where
  "layout_SCALAR t = Some [bytes_of t, alignment t]"

definition layout_of :: "members \<Rightarrow> string list \<Rightarrow> nat list option" where
  "layout_of ms names = map_option (\<lambda>offsets. [bytes_of (Struct ms), alignment (Struct ms)] @ offsets)
     (those (map (offsetof ms) names))"

definition LAYOUT2 :: "members \<Rightarrow> nat list option" where
  "LAYOUT2 ms = layout_of ms [''x'', ''y'']"

definition LAYOUT3 :: "members \<Rightarrow> nat list option" where
  "LAYOUT3 ms = layout_of ms [''x'', ''y'', ''z'']"

definition scalar_tables :: "nat list option list" where
  "scalar_tables = map layout_SCALAR [uint8, uint16, uint32, uint64, uint8, uint16, uint32, uint64,
     uintptr, uintptr, single, double, uint8]"

definition struct_tables :: "nat list option list" where
  "struct_tables = [LAYOUT3 struct_A, LAYOUT3 struct_B, LAYOUT2 struct_C, LAYOUT2 struct_D,
     map_option (\<lambda>t. t @ [0]) (layout_of struct_Variant []),
     map_option (\<lambda>at. [at]) (offsetof struct_Variant ''payload''),
     LAYOUT3 struct_Wrapped, LAYOUT3 struct_Child, LAYOUT3 struct_Nested, LAYOUT2 struct_Multiple,
     layout_SCALAR (Struct struct_Evidence0),
     layout_of struct_Evidence [''size'', ''alignment'', ''first'', ''second''],
     layout_of struct_Any [''data'', ''table'']]"

text \<open>The assertions on macros the compiler predefines for the target (\<^verbatim>\<open>__XTENSA_WINDOWED_ABI__\<close>,
  \<^verbatim>\<open>__BYTE_ORDER__\<close>) are left out.\<close>

definition static_asserts :: bool where
  "static_asserts \<longleftrightarrow> bytes_of pointer = 4
     \<and> bytes_of (Struct struct_Slice) = 8 \<and> offsetof struct_Slice ''length'' = Some 4
     \<and> alignment uint64 = 8 \<and> alignment double = 8 \<and> bytes_of uintptr = 4 \<and> bytes_of uint32 = 4
     \<and> 0 < uint (-1 :: 8 word)"

definition peer_asserts :: bool where
  "peer_asserts \<longleftrightarrow> bytes_of pointer = 4 \<and> alignment pointer = 4
     \<and> bytes_of uint16 = 2 \<and> bytes_of uint32 = 4 \<and> alignment uint16 = 2 \<and> alignment uint32 = 4
     \<and> bytes_of uint8 = 1 \<and> alignment uint8 = 1 \<and> bytes_of uint64 = 8 \<and> alignment uint64 = 8
     \<and> 0 < uint (-1 :: 8 word) \<and> bytes_of single = 4 \<and> alignment single = 4
     \<and> bytes_of double = 8 \<and> alignment double = 8
     \<and> bytes_of long_double = 8 \<and> alignment long_double = 8
     \<and> bytes_of unsigned_vector128 = 16 \<and> alignment unsigned_vector128 = 16
     \<and> offsetof struct_padded ''wide'' = Some 8 \<and> offsetof struct_padded ''word'' = Some 16
     \<and> bytes_of (Struct struct_padded) = 24 \<and> alignment (Struct struct_padded) = 8"

section \<open>The C callees\<close>

text \<open>The functions of \<^verbatim>\<open>abi.c\<close> the assembly calls: a word combined with wide arguments, and small
  structures returned by value.\<close>

unbundle bit_operations_syntax

definition c_wide :: "32 word \<Rightarrow> 64 word \<Rightarrow> 32 word \<Rightarrow> 64 word" where
  "c_wide a b c = (b XOR push_bit 32 (ucast c)) XOR ucast a"

definition c_small :: "32 word \<Rightarrow> 8 word list" where
  "c_small x = [ucast x, ucast (drop_bit 8 x), ucast (drop_bit 16 x)]"

definition c_large :: "32 word \<Rightarrow> 8 word list" where
  "c_large x = [ucast x, 2, 3, 4, 5]"

lemma c_wide_cancels: "c_wide a (c_wide a b c) c = b"
  by (simp add: c_wide_def xor.assoc xor.left_commute)

lemma callee_sizes: "length (c_small x) = bytes_of (Struct (struct_R 3))" "length (c_large x) = bytes_of (Struct (struct_R 5))"
  by (simp_all add: c_small_def c_large_def struct_R_def round_up_def)

section \<open>Properties\<close>



text \<open>
  The tables the control program of the Cortex-M layout defines are the rows recorded in
  \<^verbatim>\<open>compiler/tests/cortex-m.contract\<close>, and its static assertions and those of the Xtensa peer hold.
\<close>

theorem tables_match_contract:
  "scalar_tables = map Some [[1, 1], [2, 2], [4, 4], [8, 8], [1, 1], [2, 2], [4, 4], [8, 8], [4, 4], [4, 4],
     [4, 4], [8, 8], [1, 1]]
   \<and> struct_tables = map Some [[12, 4, 0, 4, 8], [8, 4, 0, 1, 4], [8, 4, 0, 4], [16, 8, 0, 8], [12, 4, 0], [4],
     [20, 4, 0, 4, 16], [16, 4, 0, 4, 8], [24, 4, 0, 4, 20], [16, 8, 0, 8], [8, 4], [16, 4, 0, 4, 8, 12],
     [8, 4, 0, 4]]
   \<and> static_asserts \<and> peer_asserts"
  by code_simp

end
