(* ===== verification/PackedFields.thy ===== *)
theory PackedFields
  imports Main "HOL-Library.Word" "HOL-Library.Monad_Syntax"
begin

text \<open>
  Model of \<^verbatim>\<open>environments/cortex-m/probes/packed.c\<close>, the control program for packed register images:
  bit fields of a 32-bit word taken out and put in, and the program that checks them and then drives
  a device. The device is the one the program is run against, \<^verbatim>\<open>EncodingPeripheral\<close> of
  \<^verbatim>\<open>environments/cortex-m/models.py\<close>, with its trace; an access it refuses ends the run.
\<close>

unbundle bit_operations_syntax

section \<open>Fields of a word\<close>

text \<open>\<open>(1u << bits) - 1u\<close>; the shift is defined for fewer than 32 bits.\<close>

definition field_mask :: "nat \<Rightarrow> 32 word" where
  "field_mask bits = push_bit bits 1 - 1"

definition extract_field :: "32 word \<Rightarrow> nat \<Rightarrow> nat \<Rightarrow> 32 word" where
  "extract_field raw first bits = drop_bit first raw AND field_mask bits"

definition insert_field :: "32 word \<Rightarrow> 32 word \<Rightarrow> nat \<Rightarrow> nat \<Rightarrow> 32 word" where
  "insert_field raw value first bits = (let m = push_bit first (field_mask bits) in
     (raw AND NOT m) OR push_bit first value)"

definition named :: "32 word \<Rightarrow> bool" where
  "named raw \<longleftrightarrow> raw = 0 \<or> raw = 1 \<or> raw = 4"

lemma field_mask_bits: "bits < 32 \<Longrightarrow> bit (field_mask bits) n \<longleftrightarrow> n < bits"
proof -
  assume "bits < 32"
  moreover have "field_mask bits = mask bits" by (simp add: field_mask_def mask_eq_decr_exp push_bit_of_1)
  ultimately show ?thesis by (auto simp: bit_mask_iff)
qed

lemma extract_bits: "bits < 32 \<Longrightarrow> bit (extract_field raw first bits) n \<longleftrightarrow> n < bits \<and> bit raw (first + n)"
  by (auto simp: extract_field_def bit_and_iff bit_drop_bit_eq field_mask_bits)

lemma insert_bits:
  assumes "bits < 32" and "first + bits \<le> 32"
  shows "bit (insert_field raw value first bits) n \<longleftrightarrow>
    n < 32 \<and> (if n < first then bit raw n else if n < first + bits then bit value (n - first)
      else bit raw n \<or> bit value (n - first))"
  using assms by (auto simp: insert_field_def Let_def bit_or_iff bit_and_iff bit_not_iff bit_push_bit_iff field_mask_bits dest: bit_imp_le_length)


lemma small_bits:
  assumes "value < push_bit bits (1 :: 32 word)" and "bits < 32" and "bits \<le> n"
  shows "\<not> bit value n"
proof -
  have "unat (2 ^ bits :: 32 word) = 2 ^ bits"
    by (rule of_nat_inverse) (use power_strict_increasing [OF assms(2), of "2::nat"] in simp_all)
  then have "unat value < 2 ^ bits"
    using assms(1) by (simp add: word_less_nat_alt push_bit_of_1)
  also have "(2::nat) ^ bits \<le> 2 ^ n" using assms(3) by simp
  finally have "\<not> bit (unat value) n" by (simp add: bit_iff_odd)
  then show ?thesis by (simp add: bit_unsigned_iff)
qed

lemma extract_inserted:
  assumes "bits < 32" and "first + bits \<le> 32" and "value < push_bit bits 1"
  shows "extract_field (insert_field raw value first bits) first bits = value"
  by (rule bit_word_eqI) (use assms small_bits [OF assms(3,1)] in \<open>auto simp: extract_bits insert_bits not_less\<close>)

lemma insert_extracted:
  assumes "bits < 32" and "first + bits \<le> 32"
  shows "insert_field raw (extract_field raw first bits) first bits = raw"
  by (rule bit_word_eqI) (use assms in \<open>auto simp: extract_bits insert_bits\<close>)

lemma insert_elsewhere:
  assumes "bits < 32" and "first + bits \<le> 32" and "value < push_bit bits 1" and "n < first \<or> first + bits \<le> n"
  shows "bit (insert_field raw value first bits) n \<longleftrightarrow> bit raw n"
  using assms small_bits [OF assms(3,1), of "n - first"]
  by (auto simp: insert_bits dest: bit_imp_le_length)

lemma insert_nothing: "insert_field raw 0 first bits = raw AND NOT (push_bit first (field_mask bits))"
  by (simp add: insert_field_def Let_def)

section \<open>The device\<close>

datatype access = R32 "32 word" "32 word" | W32 "32 word" "32 word" | R16 "32 word" "16 word" | W16 "32 word" "16 word"

record encoding_device =
  dv_normal :: "32 word"
  dv_destructive :: "32 word"
  dv_command :: "32 word"
  dv_pending :: "32 word"
  dv_count :: "16 word"
  dv_ones :: "32 word"
  dv_events :: "access list"

definition device_reset :: encoding_device where
  "device_reset = \<lparr>dv_normal = 0xa50000f0, dv_destructive = 0x9b, dv_command = 0, dv_pending = 0xf3,
     dv_count = 0xffff, dv_ones = 0xffffff00, dv_events = []\<rparr>"

definition seen :: "access \<Rightarrow> encoding_device \<Rightarrow> encoding_device" where
  "seen a d = d\<lparr>dv_events := dv_events d @ [a]\<rparr>"

text \<open>Word accesses by offset; \<open>None\<close> is a refused access.\<close>

definition image_read :: "32 word \<Rightarrow> encoding_device \<Rightarrow> (32 word \<times> encoding_device) option" where
  "image_read offset d =
     (if offset = 0 then Some (dv_normal d, seen (R32 0 (dv_normal d)) d)
      else if offset = 4 then Some (dv_destructive d, seen (R32 4 (dv_destructive d)) (d\<lparr>dv_destructive := 0\<rparr>))
      else if offset = 12 then Some (dv_pending d, seen (R32 12 (dv_pending d)) d)
      else if offset = 20 then Some (dv_ones d, seen (R32 20 (dv_ones d)) d)
      else None)"

definition image_write :: "32 word \<Rightarrow> 32 word \<Rightarrow> encoding_device \<Rightarrow> encoding_device option" where
  "image_write offset v d =
     (if offset = 0 then (if v AND 0xffffff00 \<noteq> 0xa5000000 then None else Some (seen (W32 0 v) (d\<lparr>dv_normal := v\<rparr>)))
      else if offset = 8 then (if v AND 0xffffff00 \<noteq> 0 then None else Some (seen (W32 8 v) (d\<lparr>dv_command := v\<rparr>)))
      else if offset = 12 then (if v AND 0xffffff00 \<noteq> 0 then None
        else Some (seen (W32 12 v) (d\<lparr>dv_pending := dv_pending d AND NOT v\<rparr>)))
      else if offset = 20 then (if v AND 0xffffff00 \<noteq> 0xffffff00 then None else Some (seen (W32 20 v) (d\<lparr>dv_ones := v\<rparr>)))
      else None)"

text \<open>The halfword \<open>COUNT\<close> at offset 16.\<close>

definition count_read :: "encoding_device \<Rightarrow> 16 word \<times> encoding_device" where
  "count_read d = (dv_count d, seen (R16 16 (dv_count d)) d)"

definition count_write :: "16 word \<Rightarrow> encoding_device \<Rightarrow> encoding_device" where
  "count_write v d = seen (W16 16 v) (d\<lparr>dv_count := v\<rparr>)"

section \<open>The program\<close>

definition require_that :: "bool \<Rightarrow> 32 word \<Rightarrow> 32 word" where
  "require_that ok failures = (if ok then failures else failures + 1)"

definition valid_names :: "8 word list" where
  "valid_names = [1, 1, 0, 0, 1, 0, 0, 0]"

text \<open>The body of the loop over the four two-bit fields, and of the loop over the patterns.\<close>

definition field_check :: "32 word \<Rightarrow> nat \<Rightarrow> 32 word \<Rightarrow> 32 word" where
  "field_check raw i failures = (let v = extract_field raw (2 * i) 2;
     failures = require_that (insert_field raw v (2 * i) 2 = raw) failures
     in require_that (insert_field raw 0 (2 * i) 2 = raw AND NOT (push_bit (2 * i) 3)) failures)"

definition pattern_check :: "nat \<Rightarrow> 32 word \<Rightarrow> 32 word" where
  "pattern_check raw failures = (let failures = fold (field_check (of_nat raw)) [0 ..< 4] failures
     in require_that ((if named (extract_field (of_nat raw) 0 3) then 1 else 0) = valid_names ! (raw mod 8)) failures)"

definition exhaust_patterns :: "32 word \<Rightarrow> 32 word" where
  "exhaust_patterns failures = fold pattern_check [0 ..< 256] failures"

text \<open>The accesses of the device, in the program's order; the result is the count of failures.\<close>

definition drive_device :: "32 word \<Rightarrow> encoding_device \<Rightarrow> (32 word \<times> encoding_device) option" where
  "drive_device failures d = do {
     (raw, d) \<leftarrow> image_read 0 d;
     let failures = require_that (raw = 0xa50000f0) failures;
     let raw = insert_field raw 1 4 2;
     let failures = require_that (raw = 0xa50000d0) failures;
     d \<leftarrow> image_write 0 raw d;
     (raw, d) \<leftarrow> image_read 0 d;
     let failures = require_that (extract_field raw 4 3 = 5 \<and> \<not> named (extract_field raw 4 3)) failures;
     (raw, d) \<leftarrow> image_read 4 d;
     let failures = require_that (raw = 0x9b \<and> extract_field raw 0 3 = 3 \<and> \<not> named (raw AND 7)) failures;
     (raw, d) \<leftarrow> image_read 4 d;
     let failures = require_that (raw = 0) failures;
     d \<leftarrow> image_write 8 0x51 d;
     d \<leftarrow> image_write 12 2 d;
     (raw, d) \<leftarrow> image_read 12 d;
     let failures = require_that (raw = 0xf1) failures;
     d \<leftarrow> image_write 12 0 d;
     (raw, d) \<leftarrow> image_read 12 d;
     let failures = require_that (raw = 0xf1) failures;
     (count, d) \<leftarrow> Some (count_read d);
     let failures = require_that (count = 0xffff) failures;
     let d = count_write 0 d;
     (count, d) \<leftarrow> Some (count_read d);
     let failures = require_that (count = 0) failures;
     let d = count_write 0xffff d;
     d \<leftarrow> image_write 20 0xffffff51 d;
     (raw, d) \<leftarrow> image_read 20 d;
     let failures = require_that (raw = 0xffffff51) failures;
     Some (failures, d)
   }"

record probe_end =
  pr_result :: "32 word"
  pr_stage :: "32 word"
  pr_failures :: "32 word"
  pr_device :: encoding_device

definition probe :: "encoding_device \<Rightarrow> probe_end option" where
  "probe d = do {
     (failures, d) \<leftarrow> drive_device (exhaust_patterns 0) d;
     Some \<lparr>pr_result = (if failures = 0 then 0x640 else 0xbad), pr_stage = 1, pr_failures = failures, pr_device = d\<rparr>
   }"

lemma field_check_passes: "i < 4 \<Longrightarrow> field_check raw i failures = failures"
proof -
  assume "i < 4"
  then have "insert_field raw (extract_field raw (2 * i) 2) (2 * i) 2 = raw" by (intro insert_extracted) simp_all
  moreover have "field_mask 2 = 3" by (simp add: field_mask_def)
  ultimately show ?thesis
    by (simp add: field_check_def Let_def insert_nothing require_that_def)
qed

lemma low_pattern: "extract_field (of_nat raw) 0 3 = of_nat (raw mod 8)"
proof -
  have "extract_field (of_nat raw) 0 3 = take_bit 3 (of_nat raw)"
    by (rule bit_word_eqI) (auto simp: extract_bits bit_take_bit_iff)
  then show ?thesis by (simp only: take_bit_of_nat) (simp add: take_bit_eq_mod)
qed

lemma named_pattern: "k < 8 \<Longrightarrow> (if named (of_nat k) then 1 else 0) = valid_names ! k"
proof -
  have "list_all (\<lambda>k. (if named (of_nat k) then 1 else 0) = valid_names ! k) [0 ..< 8]" by code_simp
  then show "k < 8 \<Longrightarrow> ?thesis" by (simp add: list_all_iff)
qed

lemma fold_unchanged: "(\<And>x. x \<in> set xs \<Longrightarrow> f x s = s) \<Longrightarrow> fold f xs s = s"
  by (induction xs) simp_all

lemma pattern_check_passes: "pattern_check raw failures = failures"
proof -
  have "fold (field_check (of_nat raw)) [0 ..< 4] failures = failures"
    by (rule fold_unchanged) (simp add: field_check_passes)
  then show ?thesis
    by (simp add: pattern_check_def Let_def low_pattern named_pattern require_that_def)
qed

lemma exhaust_patterns_passes: "exhaust_patterns failures = failures"
  unfolding exhaust_patterns_def by (rule fold_unchanged) (rule pattern_check_passes)

section \<open>Properties\<close>

text \<open>
  C35. Fields are put in and taken out without touching their neighbours. A value that fits is read back
  from where it was put, putting back what was read changes nothing, and no other bit of the word
  changes.
\<close>

theorem field_round_trip:
  assumes "bits < 32" and "first + bits \<le> 32" and "value < push_bit bits 1"
  shows "extract_field (insert_field raw value first bits) first bits = value
    \<and> insert_field raw (extract_field raw first bits) first bits = raw
    \<and> list_all (\<lambda>n. bit (insert_field raw value first bits) n = bit raw n) ([0 ..< first] @ [first + bits ..< 32])"
  using extract_inserted [OF assms] insert_extracted [OF assms(1,2)] insert_elsewhere [OF assms]
  by (auto simp: list_all_iff)

theorem field_round_trip_witness:
  "extract_field (insert_field 0xa50000f0 1 4 2) 4 2 = 1"
  using field_round_trip [of 2 4 1 "0xa50000f0"] by simp

text \<open>
  The control program passes on its device. From reset no access is refused, no check fails, the
  program ends with the result 0x640, and the device has seen exactly the accesses of the oracle in
  \<^verbatim>\<open>environments/cortex-m/packed.py\<close>.
\<close>

theorem packed_probe_passes:
  "probe device_reset = Some \<lparr>pr_result = 0x640, pr_stage = 1, pr_failures = 0, pr_device =
     \<lparr>dv_normal = 0xa50000d0, dv_destructive = 0, dv_command = 0x51, dv_pending = 0xf1, dv_count = 0xffff,
      dv_ones = 0xffffff51, dv_events = [R32 0 0xa50000f0, W32 0 0xa50000d0, R32 0 0xa50000d0, R32 4 0x9b, R32 4 0,
        W32 8 0x51, W32 12 2, R32 12 0xf1, W32 12 0, R32 12 0xf1, R16 16 0xffff, W16 16 0, R16 16 0, W16 16 0xffff,
        W32 20 0xffffff51, R32 20 0xffffff51]\<rparr>\<rparr>"
proof -
  have fields: "insert_field 0xa50000f0 1 4 2 = 0xa50000d0" "extract_field 0xa50000d0 4 3 = 5" "\<not> named 5"
    "extract_field 0x9b 0 3 = 3" "\<not> named 3" by code_simp+
  show ?thesis
    by (simp add: probe_def exhaust_patterns_passes drive_device_def image_read_def image_write_def device_reset_def
        count_read_def count_write_def seen_def require_that_def fields)
qed

end
