(* ===== verification/InterruptMask.thy ===== *)
theory InterruptMask
  imports Prelude "HOL-Library.Word"
begin

text \<open>
  Model of \<^verbatim>\<open>environments/cortex-m/probes/memory.c\<close>, the control program of the interrupt mask and
  of the atomic accesses. The processor is what the program uses of it: the mask \<^verbatim>\<open>PRIMASK\<close>, the
  enabled and the pending bit of one external interrupt, and its handler, which runs as a whole
  between two instructions as soon as the interrupt is pending, enabled and not masked. Requests of the
  device itself come from a schedule, one chance before each instruction.
\<close>

section \<open>The processor and the program's variables\<close>

record cpu =
  cp_primask :: "32 word"
  cp_enabled :: bool
  cp_pending :: bool
  cp_requests :: "bool list"
  cp_shared :: "32 word"
  cp_observed :: "32 word"
  cp_irq_seen :: "32 word"
  cp_byte :: "8 word"
  cp_half :: "16 word"
  cp_word :: "32 word"
  cp_result :: "32 word"

definition device_irq :: "cpu \<Rightarrow> cpu" where
  "device_irq c = c\<lparr>cp_observed := cp_shared c, cp_shared := 42, cp_irq_seen := cp_irq_seen c + 1\<rparr>"

definition take_interrupt :: "cpu \<Rightarrow> cpu" where
  "take_interrupt c = (if cp_pending c \<and> cp_enabled c \<and> cp_primask c = 0
     then device_irq (c\<lparr>cp_pending := False\<rparr>) else c)"

definition request :: "cpu \<Rightarrow> cpu" where
  "request c = (case cp_requests c of [] \<Rightarrow> c
     | r # rs \<Rightarrow> c\<lparr>cp_pending := (cp_pending c \<or> r), cp_requests := rs\<rparr>)"

text \<open>An instruction, after the interrupts that come before it.\<close>

definition instruction :: "(cpu \<Rightarrow> 'a \<times> cpu) \<Rightarrow> (cpu, 'a) state" where
  "instruction f = State (\<lambda>c. f (take_interrupt (request c)))"

definition assigns :: "(cpu \<Rightarrow> cpu) \<Rightarrow> (cpu, unit) state" where
  "assigns f = instruction (\<lambda>c. ((), f c))"

definition loads :: "(cpu \<Rightarrow> 'a) \<Rightarrow> (cpu, 'a) state" where
  "loads f = instruction (\<lambda>c. (f c, c))"

text \<open>The barriers at the end of \<open>restore\<close> let a pending interrupt in.\<close>

definition interrupt_mask :: "(cpu, 32 word) state" where
  "interrupt_mask = do {
     prior \<leftarrow> loads cp_primask;
     assigns (\<lambda>c. c\<lparr>cp_primask := 1\<rparr>);
     ret prior
   }"

definition interrupt_restore :: "32 word \<Rightarrow> (cpu, unit) state" where
  "interrupt_restore prior = do {
     assigns (\<lambda>c. c\<lparr>cp_primask := prior\<rparr>);
     assigns (\<lambda>c. c);
     assigns (\<lambda>c. c)
   }"

definition fail_probe :: "32 word \<Rightarrow> (cpu, unit) state" where
  "fail_probe code = assigns (\<lambda>c. c\<lparr>cp_result := code\<rparr>)"

definition atomic_accesses :: "(cpu, unit) state" where
  "atomic_accesses = do {
     assigns (\<lambda>c. c\<lparr>cp_byte := 0xa5\<rparr>);
     assigns (\<lambda>c. c\<lparr>cp_half := 0x5aa5\<rparr>);
     assigns (\<lambda>c. c\<lparr>cp_word := 0x12345678\<rparr>);
     b \<leftarrow> loads cp_byte;
     if b \<noteq> 0xa5 then fail_probe 4
     else do {
       h \<leftarrow> loads cp_half;
       if h \<noteq> 0x5aa5 then fail_probe 4
       else do {
         w \<leftarrow> loads cp_word;
         if w \<noteq> 0x12345678 then fail_probe 4 else assigns (\<lambda>c. c\<lparr>cp_result := 0x630\<rparr>)
       }
     }
   }"

definition all_barriers :: "(cpu, unit) state" where
  "all_barriers = do { assigns (\<lambda>c. c); assigns (\<lambda>c. c); assigns (\<lambda>c. c) }"

definition memory_probe :: "(cpu, unit) state" where
  "memory_probe = do {
     outer \<leftarrow> interrupt_mask;
     inner \<leftarrow> interrupt_mask;
     if outer \<noteq> 0 \<or> inner \<noteq> 1 then fail_probe 1
     else do {
       assigns (\<lambda>c. c\<lparr>cp_shared := 17\<rparr>);
       assigns (\<lambda>c. c\<lparr>cp_enabled := True\<rparr>);
       assigns (\<lambda>c. c\<lparr>cp_pending := True\<rparr>);
       interrupt_restore inner;
       early \<leftarrow> loads cp_irq_seen;
       if early \<noteq> 0 then fail_probe 2
       else do {
         interrupt_restore outer;
         all_barriers;
         observed \<leftarrow> loads cp_observed;
         if observed \<noteq> 17 then fail_probe 3
         else do {
           shared \<leftarrow> loads cp_shared;
           if shared \<noteq> 42 then fail_probe 3
           else do {
             seen \<leftarrow> loads cp_irq_seen;
             if seen \<noteq> 1 then fail_probe 3 else atomic_accesses
           }
         }
       }
     }
   }"

section \<open>Execution between interrupts\<close>

text \<open>A predicate that no request and no interrupt disturbs holds wherever an instruction begins.\<close>

definition stable :: "(cpu \<Rightarrow> bool) \<Rightarrow> bool" where
  "stable g \<longleftrightarrow> (\<forall>c. g c \<longrightarrow> g (take_interrupt (request c)))"

named_theorems instruction_rules \<open>instructions under a stable predicate\<close>

lemma wp_assigns [instruction_rules]:
  "stable g \<Longrightarrow> g c \<Longrightarrow> (\<And>d. g d \<Longrightarrow> Q () (f d)) \<Longrightarrow> wp (assigns f) Q c"
  by (auto simp: stable_def assigns_def instruction_def wp_def)

lemma wp_loads [instruction_rules]:
  "stable g \<Longrightarrow> g c \<Longrightarrow> (\<And>d. g d \<Longrightarrow> Q (f d) d) \<Longrightarrow> wp (loads f) Q c"
  by (auto simp: stable_def loads_def instruction_def wp_def)

text \<open>Interrupts masked or not enabled: none is taken. The variables the handler does not write stay.\<close>

definition held_off :: "32 word \<Rightarrow> bool \<Rightarrow> cpu \<Rightarrow> bool" where
  "held_off p e c \<longleftrightarrow> cp_primask c = p \<and> cp_enabled c = e \<and> cp_irq_seen c = 0 \<and> cp_result c = 0"

definition keeping :: "(8 word \<Rightarrow> 16 word \<Rightarrow> 32 word \<Rightarrow> bool) \<Rightarrow> cpu \<Rightarrow> bool" where
  "keeping g c \<longleftrightarrow> cp_result c = 0 \<and> g (cp_byte c) (cp_half c) (cp_word c)"

lemma request_fields [simp]:
  "cp_primask (request c) = cp_primask c" "cp_enabled (request c) = cp_enabled c"
  "cp_irq_seen (request c) = cp_irq_seen c" "cp_result (request c) = cp_result c"
  "cp_byte (request c) = cp_byte c" "cp_half (request c) = cp_half c" "cp_word (request c) = cp_word c"
  by (simp_all add: request_def split: list.split)

lemma stable_held_off: "p = 1 \<or> \<not> e \<Longrightarrow> stable (held_off p e)"
  by (auto simp: stable_def held_off_def take_interrupt_def)

lemma stable_keeping: "stable (keeping g)"
  by (auto simp: stable_def keeping_def take_interrupt_def device_irq_def)

lemma atomic_accesses_rule:
  assumes "keeping (\<lambda>b h w. True) c"
  shows "wp atomic_accesses (\<lambda>_ t. cp_result t = 0x630) c"
  unfolding atomic_accesses_def
  apply (rule wp_seq, rule wp_assigns [OF stable_keeping assms])
  apply (rule wp_seq, rule wp_assigns [OF stable_keeping [of "\<lambda>b h w. b = 0xa5"]], simp add: keeping_def)
  apply (rule wp_seq, rule wp_assigns [OF stable_keeping [of "\<lambda>b h w. b = 0xa5 \<and> h = 0x5aa5"]], simp add: keeping_def)
  apply (rule wp_seq, rule wp_loads [OF stable_keeping [of "\<lambda>b h w. b = 0xa5 \<and> h = 0x5aa5 \<and> w = 0x12345678"]],
      simp add: keeping_def)
  apply (rule wp_if, simp add: keeping_def)
  apply (rule wp_seq, erule wp_loads [OF stable_keeping], rule wp_if, simp add: keeping_def)
  apply (rule wp_seq, erule wp_loads [OF stable_keeping], rule wp_if, simp add: keeping_def)
  apply (erule wp_assigns [OF stable_keeping], simp)
  done

lemma held_off_mask:
  assumes "held_off p e c" and "p = 1 \<or> \<not> e" and "\<And>d. held_off 1 e d \<Longrightarrow> Q p d"
  shows "wp interrupt_mask Q c"
  unfolding interrupt_mask_def
  apply (rule wp_seq, rule wp_loads [OF stable_held_off [OF assms(2)] assms(1)])
  apply (rule wp_seq, rule wp_assigns [OF stable_held_off [OF assms(2)]], assumption, rule wp_ret)
  using assms(3) by (simp add: held_off_def)

lemma held_off_restore:
  assumes "held_off 1 e c" and "\<And>d. held_off 1 e d \<Longrightarrow> Q () d"
  shows "wp (interrupt_restore 1) Q c"
  unfolding interrupt_restore_def
  apply (rule wp_seq, rule wp_assigns [OF stable_held_off assms(1)], simp)
  apply (rule wp_seq, rule wp_assigns [OF stable_held_off [of 1 e]], simp, simp add: held_off_def)
  apply (rule wp_assigns [OF stable_held_off [of 1 e]], simp, simp add: held_off_def)
  using assms(2) by (simp add: held_off_def)

lemma keeping_restore:
  assumes "keeping g c" and "\<And>d. keeping g d \<Longrightarrow> Q () d"
  shows "wp (interrupt_restore p) Q c"
  unfolding interrupt_restore_def
  apply (rule wp_seq, rule wp_assigns [OF stable_keeping assms(1)])
  apply (rule wp_seq, rule wp_assigns [OF stable_keeping [of g]], simp add: keeping_def)
  apply (rule wp_assigns [OF stable_keeping [of g]], simp add: keeping_def)
  using assms(2) by (simp add: keeping_def)

lemma keeping_barriers:
  assumes "keeping g c" and "\<And>d. keeping g d \<Longrightarrow> Q () d"
  shows "wp all_barriers Q c"
  unfolding all_barriers_def
  by (rule wp_seq, rule wp_assigns [OF stable_keeping assms(1)], rule wp_seq, erule wp_assigns [OF stable_keeping],
      erule wp_assigns [OF stable_keeping], erule assms(2))

lemma held_off_keeping: "held_off p e c \<Longrightarrow> keeping (\<lambda>b h w. True) c"
  by (simp add: held_off_def keeping_def)

lemma memory_probe_rule:
  assumes "held_off 0 False c"
  shows "wp memory_probe (\<lambda>_ t. cp_result t = 0x630 \<or> cp_result t = 3) c"
  unfolding memory_probe_def
  apply (rule wp_seq, rule held_off_mask [OF assms], simp)
  apply (rule wp_seq, erule held_off_mask, simp)
  apply (rule wp_if, simp)
  apply (rule wp_seq, rule wp_assigns [OF stable_held_off [of 1 False]], simp, assumption)
  apply (rule wp_seq, rule wp_assigns [OF stable_held_off [of 1 False]], simp, simp add: held_off_def)
  apply (rule wp_seq, rule wp_assigns [OF stable_held_off [of 1 True]], simp, simp add: held_off_def)
  apply (rule wp_seq, rule held_off_restore [of True], simp add: held_off_def)
  apply (rule wp_seq, rule wp_loads [OF stable_held_off [of 1 True]], simp, assumption)
  apply (rule wp_if, simp add: held_off_def)
  apply (rule wp_seq, rule keeping_restore, erule held_off_keeping)
  apply (rule wp_seq, rule keeping_barriers, assumption)
  apply (unfold fail_probe_def)
  apply (rule wp_seq, erule wp_loads [OF stable_keeping], rule wp_if, erule wp_assigns [OF stable_keeping], simp)
  apply (rule wp_seq, erule wp_loads [OF stable_keeping], rule wp_if, erule wp_assigns [OF stable_keeping], simp)
  apply (rule wp_seq, erule wp_loads [OF stable_keeping], rule wp_if, erule wp_assigns [OF stable_keeping], simp)
  apply (rule wp_weaken, rule atomic_accesses_rule, simp_all)
  done

text \<open>Without requests an instruction takes the pending interrupt, if it may, and then has its effect.\<close>

lemma alone_request: "cp_requests c = [] \<Longrightarrow> request c = c"
  by (simp add: request_def)

lemma alone_idle:
  "cp_requests c = [] \<Longrightarrow> \<not> (cp_pending c \<and> cp_enabled c \<and> cp_primask c = 0) \<Longrightarrow> run_state (assigns f) c = ((), f c)"
  "cp_requests c = [] \<Longrightarrow> \<not> (cp_pending c \<and> cp_enabled c \<and> cp_primask c = 0) \<Longrightarrow> run_state (loads g) c = (g c, c)"
  by (auto simp: assigns_def loads_def instruction_def alone_request take_interrupt_def)

lemma alone_taken:
  "cp_requests c = [] \<Longrightarrow> cp_pending c \<and> cp_enabled c \<and> cp_primask c = 0
     \<Longrightarrow> run_state (assigns f) c = ((), f (device_irq (c\<lparr>cp_pending := False\<rparr>)))"
  by (simp add: assigns_def instruction_def alone_request take_interrupt_def)

text \<open>
  C36. Nothing gets into the masked section. Started with interrupts not masked and the interrupt not
  enabled, and whatever requests the device makes and when, the probe never finds that the mask did not
  nest (1), that an interrupt was taken before the outer mask was restored (2) or that a store was torn
  by the handler (4): it passes, or it counts another interrupt than its own (3). Without other
  requests it passes.
\<close>

theorem masked_section_uninterrupted:
  assumes "cp_primask c = 0" and "\<not> cp_enabled c" and "cp_irq_seen c = 0" and "cp_result c = 0"
  shows "cp_result (snd (run_state memory_probe c)) \<in> {0x630, 3}
    \<and> (cp_requests c = [] \<and> \<not> cp_pending c \<longrightarrow> cp_result (snd (run_state memory_probe c)) = 0x630)"
proof -
  have "held_off 0 False c" using assms by (simp add: held_off_def)
  from wpD [OF memory_probe_rule [OF this] surjective_pairing] 
  have "cp_result (snd (run_state memory_probe c)) \<in> {0x630, 3}" by simp
  moreover have "cp_result (snd (run_state memory_probe c)) = 0x630" if "cp_requests c = []" "\<not> cp_pending c"
    using assms that
    by (simp add: memory_probe_def interrupt_mask_def interrupt_restore_def all_barriers_def atomic_accesses_def
        alone_idle alone_taken device_irq_def)
  ultimately show ?thesis by blast
qed

definition idle_cpu :: cpu where
  "idle_cpu = \<lparr>cp_primask = 0, cp_enabled = False, cp_pending = False, cp_requests = [], cp_shared = 0,
     cp_observed = 0, cp_irq_seen = 0, cp_byte = 0, cp_half = 0, cp_word = 0, cp_result = 0\<rparr>"

theorem masked_section_uninterrupted_witness:
  "cp_result (snd (run_state memory_probe idle_cpu)) = 0x630"
  using masked_section_uninterrupted [of idle_cpu] by (simp add: idle_cpu_def)

end
