(* ===== verification/DmaProbe.thy ===== *)
theory DmaProbe
  imports Main "HOL-Library.Word" "HOL-Library.Monad_Syntax"
begin

text \<open>
  Model of \<^verbatim>\<open>environments/cortex-m/probes/peripheral.c\<close>, the control program of a prototype peripheral
  with a circular transfer into a buffer and an interrupt for its half, its end and an error. The device
  is the one the program is run against, \<^verbatim>\<open>PrototypePeripheral\<close> of \<^verbatim>\<open>environments/cortex-m/models.py\<close>,
  without its tallies; the test's bytes and errors arrive while the processor is stopped. A run that makes
  an access the device refuses has no result.
\<close>

unbundle bit_operations_syntax

section \<open>The device and the program's variables\<close>

text \<open>\<open>pd_raised\<close> is the history of the conditions raised; nothing reads it.\<close>

record prototype =
  pd_regs :: "32 word \<Rightarrow> 32 word"
  pd_count :: nat
  pd_initial :: nat
  pd_position :: nat
  pd_status :: "32 word"
  pd_transfers :: nat
  pd_errors :: nat
  pd_raised :: "32 word"

record board =
  bd_dev :: prototype
  bd_ram :: "32 word \<Rightarrow> 8 word"
  bd_enabled :: bool
  bd_masked :: bool
  bd_result :: "32 word"
  bd_irq_seen :: "32 word"
  bd_events :: "32 word"
  bd_stage :: "32 word"

text \<open>Registers by offset; \<open>None\<close> is a refused access.\<close>

definition pd_known :: "32 word list" where
  "pd_known = [0, 4, 8, 12, 0x10, 0x14, 0x18, 0x1c, 0x20, 0x24, 0x1000, 0x1004, 0x6058, 0x605c, 0x6060, 0x6064]"

definition pd_read :: "32 word \<Rightarrow> prototype \<Rightarrow> 32 word option" where
  "pd_read offset d =
     (if offset = 0x6000 then Some (pd_status d)
      else if offset = 0x605c then Some (of_nat (pd_count d))
      else if offset \<in> {0x6004, 0x18} then None
      else if offset \<notin> set pd_known then None
      else Some (pd_regs d offset))"

definition pd_write :: "32 word \<Rightarrow> 32 word \<Rightarrow> prototype \<Rightarrow> prototype option" where
  "pd_write offset v d =
     (if offset \<in> {0x6000, 0x10} then None
      else if offset = 0x6004 then Some (d\<lparr>pd_status := pd_status d AND NOT v\<rparr>)
      else if offset = 0x18 then
        Some (d\<lparr>pd_regs := (pd_regs d)(0x14 := (pd_regs d 0x14 OR (v AND 0xffff)) AND NOT (drop_bit 16 v))\<rparr>)
      else if offset \<notin> set pd_known then None
      else if offset = 0x605c then
        (if 65535 < v then None
         else Some (d\<lparr>pd_count := unat v, pd_initial := unat v, pd_position := 0,
           pd_regs := (pd_regs d)(offset := v)\<rparr>))
      else Some (d\<lparr>pd_regs := (pd_regs d)(offset := v)\<rparr>))"

definition pd_error :: "prototype \<Rightarrow> prototype" where
  "pd_error d = d\<lparr>pd_errors := pd_errors d + 1, pd_status := pd_status d OR 0x80, pd_raised := pd_raised d OR 0x80,
     pd_regs := (pd_regs d)(0x6058 := pd_regs d 0x6058 AND NOT 1)\<rparr>"

definition pd_level :: "prototype \<Rightarrow> bool" where
  "pd_level d \<longleftrightarrow> pd_status d AND 0x20 \<noteq> 0 \<and> pd_regs d 0x6058 AND 2 \<noteq> 0
     \<or> pd_status d AND 0x40 \<noteq> 0 \<and> pd_regs d 0x6058 AND 4 \<noteq> 0
     \<or> pd_status d AND 0x80 \<noteq> 0 \<and> pd_regs d 0x6058 AND 8 \<noteq> 0"

definition pd_raise :: "32 word \<Rightarrow> prototype \<Rightarrow> prototype" where
  "pd_raise s d = d\<lparr>pd_status := pd_status d OR s, pd_raised := pd_raised d OR s\<rparr>"

text \<open>One byte arrives: the register, the buffer, the counters, the status.\<close>

definition pd_counted :: "32 word \<Rightarrow> prototype \<Rightarrow> prototype" where
  "pd_counted cfg d = (let d1 = d\<lparr>pd_transfers := pd_transfers d + 1, pd_position := pd_position d + 1,
       pd_count := pd_count d - 1\<rparr>;
     d2 = (if pd_count d1 = pd_initial d1 div 2 then pd_raise 0x40 d1 else d1) in
     if pd_count d2 = 0 then (let d3 = pd_raise 0x20 d2 in
       if cfg AND 0x100 \<noteq> 0 then d3\<lparr>pd_count := pd_initial d3, pd_position := 0\<rparr>
       else d3\<lparr>pd_regs := (pd_regs d3)(0x6058 := cfg AND NOT 1)\<rparr>)
     else d2)"

definition feed :: "8 word \<Rightarrow> board \<Rightarrow> board" where
  "feed v c = (let d = (bd_dev c)\<lparr>pd_regs := (pd_regs (bd_dev c))(0x1004 := ucast v)\<rparr>;
       cfg = pd_regs d 0x6058; to = pd_regs d 0x6064 in
     if cfg AND 1 = 0 then c\<lparr>bd_dev := d\<rparr>
     else if pd_count d = 0 \<or> cfg AND 0xc0 \<noteq> 0 \<or> pd_regs d 0x6060 \<noteq> 0x40021004
       \<or> to < 0x20000000 \<or> 0x20003000 < uint to + int (pd_initial d)
     then c\<lparr>bd_dev := pd_error d\<rparr>
     else c\<lparr>bd_ram := (bd_ram c)(to + (if cfg AND 0x400 \<noteq> 0 then of_nat (pd_position d) else 0) := v),
            bd_dev := pd_counted cfg d\<rparr>)"

datatype stimulus = Byte "8 word" | Fault

fun stimulate :: "stimulus \<Rightarrow> board \<Rightarrow> board" where
  "stimulate (Byte v) c = feed v c"
| "stimulate Fault c = c\<lparr>bd_dev := pd_error (bd_dev c)\<rparr>"

abbreviation stimuli :: "stimulus list \<Rightarrow> board \<Rightarrow> board" where
  "stimuli \<equiv> fold stimulate"

section \<open>The program\<close>

text \<open>
  The handler, \<^verbatim>\<open>device_irq\<close>: stimuli may arrive before it, and between its read of the status, its
  acknowledgement and its account.
\<close>

definition prototype_irq :: "stimulus list \<Rightarrow> stimulus list \<Rightarrow> stimulus list \<Rightarrow> board \<Rightarrow> board option" where
  "prototype_irq s1 s2 s3 c = do {
     let c = stimuli s1 c;
     pending \<leftarrow> pd_read 0x6000 (bd_dev c);
     let c = stimuli s2 c;
     d \<leftarrow> pd_write 0x6004 pending (bd_dev c);
     let c = stimuli s3 (c\<lparr>bd_dev := d\<rparr>);
     Some (c\<lparr>bd_events := bd_events c OR pending, bd_irq_seen := bd_irq_seen c + 1\<rparr>)
   }"

text \<open>An interrupt is taken before an instruction when the line is up, enabled and not masked.\<close>

definition takes :: "board \<Rightarrow> bool" where
  "takes c \<longleftrightarrow> pd_level (bd_dev c) \<and> bd_enabled c \<and> \<not> bd_masked c"

definition serve :: "board \<Rightarrow> board option" where
  "serve c = (if takes c then prototype_irq [] [] [] c else Some c)"

definition reg :: "32 word \<Rightarrow> board \<Rightarrow> (32 word \<times> board) option" where
  "reg offset c = do { c \<leftarrow> serve c; v \<leftarrow> pd_read offset (bd_dev c); Some (v, c) }"

definition set_reg :: "32 word \<Rightarrow> 32 word \<Rightarrow> board \<Rightarrow> board option" where
  "set_reg offset v c = do { c \<leftarrow> serve c; d \<leftarrow> pd_write offset v (bd_dev c); Some (c\<lparr>bd_dev := d\<rparr>) }"

text \<open>The halfword \<^verbatim>\<open>COUNT\<close>.\<close>

definition count_half :: "board \<Rightarrow> (16 word \<times> board) option" where
  "count_half c = do { c \<leftarrow> serve c; Some (of_nat (pd_count (bd_dev c)), c) }"

definition set_count_half :: "16 word \<Rightarrow> board \<Rightarrow> board option" where
  "set_count_half v c = do { c \<leftarrow> serve c; d \<leftarrow> pd_write 0x605c (ucast v) (bd_dev c); Some (c\<lparr>bd_dev := d\<rparr>) }"

definition does :: "(board \<Rightarrow> board) \<Rightarrow> board \<Rightarrow> board option" where
  "does f c = map_option f (serve c)"

text \<open>
  \<^verbatim>\<open>stage = n; while (stage == n) nop\<close>: meanwhile the test stops the processor, sends a batch of stimuli
  and lets it run, as often as it likes, and at the end sets the next stage.
\<close>

fun batches :: "stimulus list list \<Rightarrow> board \<Rightarrow> board option" where
  "batches [] c = Some c"
| "batches (b # bs) c = do { c \<leftarrow> serve (stimuli b c); batches bs c }"

definition wait_stage :: "32 word \<Rightarrow> stimulus list list \<Rightarrow> board \<Rightarrow> board option" where
  "wait_stage n bs c = do {
     c \<leftarrow> does (\<lambda>c. c\<lparr>bd_stage := n\<rparr>) c;
     c \<leftarrow> batches bs c;
     Some (c\<lparr>bd_stage := n + 1\<rparr>)
   }"

definition fails :: "32 word \<Rightarrow> board \<Rightarrow> board option" where
  "fails code = does (\<lambda>c. c\<lparr>bd_result := code\<rparr>)"

text \<open>The program by its parts: the pins, the transfer's set-up, and the stages.\<close>

definition probe_pins :: "board \<Rightarrow> (bool \<times> board) option" where
  "probe_pins c = do {
     c \<leftarrow> set_reg 0 0xa5a50000 c;
     (m, c) \<leftarrow> reg 0 c;
     c \<leftarrow> set_reg 0 ((m AND NOT (push_bit 4 3)) OR push_bit 4 2) c;
     c \<leftarrow> set_reg 0x20 (push_bit 8 7) c;
     c \<leftarrow> set_reg 0x18 8 c;
     (pins, c) \<leftarrow> reg 0x14 c;
     (m, c) \<leftarrow> reg 0 c;
     if pins \<noteq> 8 \<or> m \<noteq> 0xa5a50020 then map_option (Pair False) (fails 1 c)
     else do {
       c \<leftarrow> set_reg 0x18 (push_bit 16 8) c;
       (pins, c) \<leftarrow> reg 0x14 c;
       if pins \<noteq> 0 then map_option (Pair False) (fails 2 c) else Some (True, c)
     }
   }"

definition probe_setup :: "32 word \<Rightarrow> board \<Rightarrow> board option" where
  "probe_setup buffer c = do {
     c \<leftarrow> set_reg 0x1000 139 c;
     c \<leftarrow> set_reg 0x6060 0x40021004 c;
     c \<leftarrow> set_reg 0x6064 buffer c;
     c \<leftarrow> set_count_half 4 c;
     c \<leftarrow> set_reg 0x6058 0x8000050e c;
     does (\<lambda>c. c\<lparr>bd_enabled := True\<rparr>) c
   }"

definition at_buffer :: "32 word \<Rightarrow> 32 word \<Rightarrow> board \<Rightarrow> 8 word" where
  "at_buffer buffer i c = bd_ram c (buffer + i)"

definition probe_last :: "32 word \<Rightarrow> stimulus list list \<Rightarrow> board \<Rightarrow> board option" where
  "probe_last buffer b9 c = do {
     c \<leftarrow> wait_stage 9 b9 c;
     c \<leftarrow> serve c;
     (cfg, c) \<leftarrow> reg 0x6058 c;
     (status, c) \<leftarrow> reg 0x6000 c;
     if bd_events c \<noteq> 0xe0 \<or> bd_irq_seen c \<noteq> 3 \<or> cfg AND 1 \<noteq> 0 \<or> status \<noteq> 0 then fails 7 c
     else do {
       (cfg, c) \<leftarrow> reg 0x6058 c;
       if cfg AND 0x80000000 = 0 then fails 8 c else does (\<lambda>c. c\<lparr>bd_result := 0x610\<rparr>) c
     }
   }"

definition probe_masked :: "32 word \<Rightarrow> stimulus list list \<Rightarrow> stimulus list list \<Rightarrow> stimulus list list \<Rightarrow> board \<Rightarrow> board option" where
  "probe_masked buffer b5 b7 b9 c = do {
     c \<leftarrow> does (\<lambda>c. c\<lparr>bd_masked := True\<rparr>) c;
     c \<leftarrow> wait_stage 5 b5 c;
     (count, c) \<leftarrow> count_half c;
     if count \<noteq> 4 \<or> at_buffer buffer 2 c \<noteq> 67 \<or> at_buffer buffer 3 c \<noteq> 68 \<or> bd_irq_seen c \<noteq> 1 then fails 5 c
     else do {
       c \<leftarrow> does (\<lambda>c. c\<lparr>bd_masked := False\<rparr>) c;
       c \<leftarrow> does (\<lambda>c. c) c;
       c \<leftarrow> does (\<lambda>c. c) c;
       c \<leftarrow> wait_stage 7 b7 c;
       (count, c) \<leftarrow> count_half c;
       if count \<noteq> 3 \<or> at_buffer buffer 0 c \<noteq> 69 \<or> bd_events c \<noteq> 0x60 \<or> bd_irq_seen c \<noteq> 2 then fails 6 c
       else probe_last buffer b9 c
     }
   }"

definition peripheral_probe :: "32 word \<Rightarrow> stimulus list list \<Rightarrow> stimulus list list \<Rightarrow> stimulus list list
    \<Rightarrow> stimulus list list \<Rightarrow> stimulus list list \<Rightarrow> board \<Rightarrow> board option" where
  "peripheral_probe buffer b1 b3 b5 b7 b9 c = do {
     (ok, c) \<leftarrow> probe_pins c;
     if \<not> ok then Some c
     else do {
       c \<leftarrow> probe_setup buffer c;
       c \<leftarrow> wait_stage 1 b1 c;
       (count, c) \<leftarrow> count_half c;
       if count \<noteq> 4 \<or> at_buffer buffer 0 c \<noteq> 0 then fails 3 c
       else do {
         (cfg, c) \<leftarrow> reg 0x6058 c;
         c \<leftarrow> set_reg 0x6058 (cfg OR 1) c;
         c \<leftarrow> wait_stage 3 b3 c;
         (count, c) \<leftarrow> count_half c;
         if count \<noteq> 2 \<or> at_buffer buffer 0 c \<noteq> 65 \<or> at_buffer buffer 1 c \<noteq> 66 \<or> bd_events c \<noteq> 0x40 then fails 4 c
         else probe_masked buffer b5 b7 b9 c
       }
     }
   }"

section \<open>Waiting\<close>

lemma serve_idle: "\<not> takes c \<Longrightarrow> serve c = Some c"
  by (simp add: serve_def)

lemma batches_empty: "concat bs = [] \<Longrightarrow> \<not> takes c \<Longrightarrow> batches bs c = Some c"
  by (induction bs) (simp_all add: serve_idle)

text \<open>How the stimuli are split does not matter where at most the last one raises the line.\<close>

lemma batches_settle:
  assumes "concat bs = xs" and "\<And>k. k < length xs \<Longrightarrow> \<not> takes (stimuli (take k xs) c)" and "\<not> takes c"
    and "serve (stimuli xs c) = Some d" and "\<not> takes d"
  shows "batches bs c = Some d"
  using assms
proof (induction bs arbitrary: c xs)
  case Nil
  then show ?case by (simp add: serve_idle)
next
  case (Cons b bs)
  show ?case
  proof (cases "concat bs = []")
    case True
    with Cons.prems have "serve (stimuli b c) = Some d" by simp
    with batches_empty [OF True Cons.prems(5)] show ?thesis by simp
  next
    case False
    let ?c = "stimuli b c"
    have xs: "xs = b @ concat bs" using Cons.prems(1) by simp
    with Cons.prems(2) [of "length b"] False have idle: "\<not> takes ?c" by simp
    have "batches bs ?c = Some d"
    proof (rule Cons.IH [OF refl _ idle])
      show "\<not> takes (stimuli (take k (concat bs)) ?c)" if "k < length (concat bs)" for k
        using Cons.prems(2) [of "length b + k"] that xs by simp
    qed (use Cons.prems(4,5) xs in simp_all)
    with idle show ?thesis by (simp add: serve_idle)
  qed
qed

section \<open>No notification is lost\<close>

text \<open>What has been raised is either still in the status or in the program's account.\<close>

definition accounted :: "board \<Rightarrow> bool" where
  "accounted c \<longleftrightarrow> bd_events c OR pd_status (bd_dev c) = pd_raised (bd_dev c)"

lemma word_or_raise: "(a :: 32 word) OR b = r \<Longrightarrow> a OR (b OR s) = r OR s"
  by (simp add: or.assoc [symmetric])

lemma raise_effect:
  "pd_status (pd_raise s d) = pd_status d OR s" "pd_raised (pd_raise s d) = pd_raised d OR s"
  by (simp_all add: pd_raise_def)

lemma counted_effect:
  "\<exists>s. pd_status (pd_counted cfg d) = pd_status d OR s \<and> pd_raised (pd_counted cfg d) = pd_raised d OR s"
proof -
  have "\<exists>s. (pd_status d OR 0x40) OR 0x20 = pd_status d OR s \<and> (pd_raised d OR 0x40) OR 0x20 = pd_raised d OR s"
    by (rule exI [of _ "0x40 OR 0x20"]) (simp only: or.assoc)
  moreover have "\<exists>s. pd_status d = pd_status d OR s \<and> pd_raised d = pd_raised d OR s"
    by (rule exI [of _ 0]) simp
  ultimately show ?thesis by (auto simp: pd_counted_def Let_def raise_effect)
qed

text \<open>A stimulus adds to both, and touches neither the account nor the count of interrupts.\<close>

lemma stimuli_effect:
  "\<exists>s. pd_status (bd_dev (stimuli xs c)) = pd_status (bd_dev c) OR s
     \<and> pd_raised (bd_dev (stimuli xs c)) = pd_raised (bd_dev c) OR s"
  "bd_events (stimuli xs c) = bd_events c" "bd_irq_seen (stimuli xs c) = bd_irq_seen c"
proof -
  have one: "\<exists>s. pd_status (bd_dev (stimulate x c)) = pd_status (bd_dev c) OR s
      \<and> pd_raised (bd_dev (stimulate x c)) = pd_raised (bd_dev c) OR s" for x c
  proof -
    have "\<exists>s. pd_status d = pd_status d OR s \<and> pd_raised d = pd_raised d OR s" for d
      by (rule exI [of _ 0]) simp
    moreover have "\<exists>s. pd_status (pd_counted cfg (d\<lparr>pd_regs := r\<rparr>)) = pd_status d OR s
        \<and> pd_raised (pd_counted cfg (d\<lparr>pd_regs := r\<rparr>)) = pd_raised d OR s" for cfg d r
      using counted_effect [of cfg "d\<lparr>pd_regs := r\<rparr>"] by simp
    ultimately show ?thesis by (cases x) (auto simp: feed_def Let_def pd_error_def)
  qed
  show "\<exists>s. pd_status (bd_dev (stimuli xs c)) = pd_status (bd_dev c) OR s
     \<and> pd_raised (bd_dev (stimuli xs c)) = pd_raised (bd_dev c) OR s"
  proof (induction xs arbitrary: c)
    case Nil
    show ?case by (rule exI [of _ 0]) simp
  next
    case (Cons x xs)
    obtain s1 s2 where "pd_status (bd_dev (stimulate x c)) = pd_status (bd_dev c) OR s1"
      "pd_raised (bd_dev (stimulate x c)) = pd_raised (bd_dev c) OR s1"
      "pd_status (bd_dev (stimuli xs (stimulate x c))) = pd_status (bd_dev (stimulate x c)) OR s2"
      "pd_raised (bd_dev (stimuli xs (stimulate x c))) = pd_raised (bd_dev (stimulate x c)) OR s2"
      using one [of x c] Cons.IH [of "stimulate x c"] by blast
    then show ?case by (intro exI [of _ "s1 OR s2"]) (simp add: or.assoc)
  qed
  have "bd_events (stimulate x c) = bd_events c \<and> bd_irq_seen (stimulate x c) = bd_irq_seen c" for x c
    by (cases x) (simp_all add: feed_def Let_def)
  then show "bd_events (stimuli xs c) = bd_events c" "bd_irq_seen (stimuli xs c) = bd_irq_seen c"
    by (induction xs arbitrary: c) simp_all
qed

lemma word_account:
  fixes e p q r u v z :: "32 word"
  assumes "e OR p = r" and "q = p OR s" and "u = q OR t" and "v = (u AND NOT q) OR x" and "z = ((r OR s) OR t) OR x"
  shows "(e OR q) OR v = z"
  by (rule bit_word_eqI) (auto simp: assms(2-5) assms(1) [symmetric] bit_or_iff bit_and_iff bit_not_iff)

lemma irq_rule:
  assumes "accounted c"
  shows "\<exists>d. prototype_irq s1 s2 s3 c = Some d \<and> accounted d \<and> bd_irq_seen d = bd_irq_seen c + 1
    \<and> (s2 = [] \<and> s3 = [] \<longrightarrow> pd_status (bd_dev d) = 0)"
proof -
  let ?c1 = "stimuli s1 c"
  let ?pending = "pd_status (bd_dev ?c1)"
  let ?c2 = "stimuli s2 ?c1"
  let ?c3 = "?c2\<lparr>bd_dev := (bd_dev ?c2)\<lparr>pd_status := pd_status (bd_dev ?c2) AND NOT ?pending\<rparr>\<rparr>"
  let ?c4 = "stimuli s3 ?c3"
  let ?d = "?c4\<lparr>bd_events := bd_events ?c4 OR ?pending, bd_irq_seen := bd_irq_seen ?c4 + 1\<rparr>"
  have run: "prototype_irq s1 s2 s3 c = Some ?d"
    by (simp add: prototype_irq_def pd_read_def pd_write_def Let_def)
  obtain a1 where 1: "?pending = pd_status (bd_dev c) OR a1" "pd_raised (bd_dev ?c1) = pd_raised (bd_dev c) OR a1"
    using stimuli_effect(1) [of s1 c] by blast
  obtain a2 where 2: "pd_status (bd_dev ?c2) = ?pending OR a2" "pd_raised (bd_dev ?c2) = pd_raised (bd_dev ?c1) OR a2"
    using stimuli_effect(1) [of s2 ?c1] by blast
  obtain a3 where 3: "pd_status (bd_dev ?c4) = (pd_status (bd_dev ?c2) AND NOT ?pending) OR a3"
      "pd_raised (bd_dev ?c4) = pd_raised (bd_dev ?c2) OR a3"
    using stimuli_effect(1) [of s3 ?c3] by auto
  have "bd_events c OR pd_status (bd_dev c) = pd_raised (bd_dev c)" using assms by (simp add: accounted_def)
  from word_account [OF this 1(1) 2(1) 3(1), of "pd_raised (bd_dev ?c4)"] 1(2) 2(2) 3(2)
  have "(bd_events c OR ?pending) OR pd_status (bd_dev ?c4) = pd_raised (bd_dev ?c4)" by argo
  moreover have "bd_events ?d = bd_events c OR ?pending" "bd_dev ?d = bd_dev ?c4" by (simp_all add: stimuli_effect)
  ultimately have "accounted ?d" unfolding accounted_def by argo
  moreover have "pd_status (bd_dev ?d) = 0" if "s2 = []" "s3 = []" using that by simp
  moreover have "bd_irq_seen ?d = bd_irq_seen c + 1" by (simp add: stimuli_effect)
  ultimately show ?thesis using run by blast
qed

section \<open>A run\<close>

definition power_up :: "(32 word \<Rightarrow> 8 word) \<Rightarrow> board" where
  "power_up ram = \<lparr>bd_dev = \<lparr>pd_regs = (\<lambda>_. 0), pd_count = 0, pd_initial = 0, pd_position = 0, pd_status = 0,
       pd_transfers = 0, pd_errors = 0, pd_raised = 0\<rparr>,
     bd_ram = ram, bd_enabled = False, bd_masked = False, bd_result = 0, bd_irq_seen = 0, bd_events = 0, bd_stage = 0\<rparr>"

text \<open>
  How a run stands: configuration, remaining count, position and status of the transfer into \<open>buffer\<close>,
  bytes and errors so far, whether the interrupt is enabled and masked, interrupts taken, the account, memory.
\<close>

definition standing :: "32 word \<Rightarrow> 32 word \<Rightarrow> nat \<times> nat \<times> 32 word \<Rightarrow> nat \<times> nat \<Rightarrow> bool \<Rightarrow> bool \<Rightarrow> 32 word \<times> 32 word
    \<Rightarrow> (32 word \<Rightarrow> 8 word) \<Rightarrow> board \<Rightarrow> bool" where
  "standing buffer cfg z tally en mk seen ram c \<longleftrightarrow>
     pd_regs (bd_dev c) 0x6058 = cfg \<and> pd_regs (bd_dev c) 0x6060 = 0x40021004 \<and> pd_regs (bd_dev c) 0x6064 = buffer
     \<and> pd_initial (bd_dev c) = 4 \<and> z = (pd_count (bd_dev c), pd_position (bd_dev c), pd_status (bd_dev c))
     \<and> tally = (pd_transfers (bd_dev c), pd_errors (bd_dev c))
     \<and> bd_enabled c = en \<and> bd_masked c = mk \<and> seen = (bd_irq_seen c, bd_events c) \<and> bd_ram c = ram"

definition ring_config :: "32 word" where
  "ring_config = 0x8000050f"

lemma standing_waits: "standing buffer cfg (n, k, st) tally en mk seen ram c \<Longrightarrow> st = 0 \<or> \<not> en \<or> mk \<Longrightarrow> \<not> takes c"
  by (auto simp: standing_def takes_def pd_level_def)

lemma standing_byte:
  assumes "standing buffer ring_config (n, k, st) (tr, er) en mk seen ram c" and "0x20000000 \<le> buffer"
    and "uint buffer + 4 \<le> 0x20003000" and "0 < n"
  shows "standing buffer ring_config
    (if n = 1 then (4, 0, st OR 0x20) else (n - 1, k + 1, if n = 3 then st OR 0x40 else st))
    (tr + 1, er) en mk seen (ram(buffer + of_nat k := v)) (stimulate (Byte v) c)"
  using assms
  by (auto simp: standing_def ring_config_def feed_def Let_def pd_counted_def pd_raise_def not_less)

lemma standing_off:
  "standing buffer 0x8000050e z tally en mk seen ram c \<Longrightarrow>
   standing buffer 0x8000050e z tally en mk seen ram (stimulate (Byte v) c)"
  by (simp add: standing_def feed_def Let_def)

lemma standing_fault:
  "standing buffer ring_config (n, k, st) (tr, er) en mk seen ram c \<Longrightarrow>
   standing buffer 0x8000050e (n, k, st OR 0x80) (tr, er + 1) en mk seen ram (stimulate Fault c)"
  by (auto simp: standing_def ring_config_def pd_error_def)

lemma standing_stage [simp]:
  "standing buffer cfg z tally en mk seen ram (c\<lparr>bd_stage := n\<rparr>) = standing buffer cfg z tally en mk seen ram c"
  by (simp add: standing_def)

lemma standing_serve:
  assumes "standing buffer cfg (n, k, st) tally True False (seen, ev) ram c"
    and "cfg \<in> {ring_config, 0x8000050e}" and "st \<in> {0x40, 0x20, 0x60, 0x80}"
  shows "\<exists>d. serve c = Some d \<and> standing buffer cfg (n, k, 0) tally True False (seen + 1, ev OR st) ram d"
  using assms
  by (auto simp: standing_def serve_def takes_def pd_level_def prototype_irq_def pd_read_def pd_write_def
      ring_config_def Let_def)

lemma wait_settle:
  assumes "\<not> takes c" and "concat bs = xs" and "\<And>k. k < length xs \<Longrightarrow> \<not> takes (stimuli (take k xs) (c\<lparr>bd_stage := n\<rparr>))"
    and "serve (stimuli xs (c\<lparr>bd_stage := n\<rparr>)) = Some d" and "\<not> takes d"
  shows "wait_stage n bs c = Some (d\<lparr>bd_stage := n + 1\<rparr>)"
proof -
  have "\<not> takes (c\<lparr>bd_stage := n\<rparr>)" using assms(1) by (simp add: takes_def)
  from batches_settle [OF assms(2,3) this assms(4,5)] assms(1) show ?thesis
    by (simp add: wait_stage_def does_def serve_idle)
qed

text \<open>The stages of the run.\<close>

lemma power_up_ready:
  "\<exists>c. probe_pins (power_up ram) = Some (True, c)
     \<and> (\<exists>d. probe_setup buffer c = Some d \<and> standing buffer 0x8000050e (4, 0, 0) (0, 0) True False (0, 0) ram d)"
  by (simp add: probe_pins_def probe_setup_def power_up_def set_reg_def reg_def set_count_half_def does_def serve_def takes_def
      pd_level_def pd_read_def pd_write_def pd_known_def standing_def push_bit_eq_mult)

lemma standing_ops:
  assumes "standing buffer cfg (n, k, st) tally en mk seen ram c" and "st = 0 \<or> \<not> en \<or> mk"
  shows "serve c = Some c" "does f c = Some (f c)" "reg 0x6058 c = Some (cfg, c)" "reg 0x6000 c = Some (st, c)"
    "count_half c = Some (of_nat n, c)" "set_reg 0x6058 v c = Some (c\<lparr>bd_dev := (bd_dev c)\<lparr>pd_regs := (pd_regs (bd_dev c))(0x6058 := v)\<rparr>\<rparr>)"
    "bd_events c = snd seen" "bd_irq_seen c = fst seen" "at_buffer buffer i c = ram (buffer + i)" "fails code c = Some (c\<lparr>bd_result := code\<rparr>)"
  using standing_waits [OF assms] assms(1)
  by (simp_all add: serve_idle does_def reg_def set_reg_def count_half_def pd_read_def pd_write_def pd_known_def standing_def
      at_buffer_def fails_def)

lemma probe_last_passes:
  assumes c: "standing buffer ring_config (3, 1, 0) (5, 0) True False (2, 0x60) ram c" and "concat b9 = [Fault]"
  shows "\<exists>d. probe_last buffer b9 c = Some d \<and> bd_result d = 0x610
    \<and> standing buffer 0x8000050e (3, 1, 0) (5, 1) True False (3, 0xe0) ram d"
proof -
  let ?c = "c\<lparr>bd_stage := 9\<rparr>"
  from c have start: "standing buffer ring_config (3, 1, 0) (5, 0) True False (2, 0x60) ram ?c" by simp
  from standing_serve [OF standing_fault [OF this]] obtain d where d: "serve (stimuli [Fault] ?c) = Some d"
    "standing buffer 0x8000050e (3, 1, 0) (5, 1) True False (3, 0xe0) ram d" by auto
  have "wait_stage 9 b9 c = Some (d\<lparr>bd_stage := 9 + 1\<rparr>)"
    by (rule wait_settle [OF standing_waits [OF c] assms(2) _ d(1) standing_waits [OF d(2)]])
      (use standing_waits [OF start] in simp_all)
  moreover have "standing buffer 0x8000050e (3, 1, 0) (5, 1) True False (3, 0xe0) ram (d\<lparr>bd_stage := 9 + 1\<rparr>)"
    using d(2) by simp
  note standing_ops [OF this]
  ultimately show ?thesis using d(2) by (simp add: probe_last_def) (simp add: standing_def)
qed

lemma probe_masked_passes:
  assumes c: "standing buffer ring_config (2, 2, 0) (2, 0) True False (1, 0x40) ram c"
    and buffer: "0x20000000 \<le> buffer" "uint buffer + 4 \<le> 0x20003000"
    and sent: "concat b5 = [Byte 67, Byte 68]" "concat b7 = [Byte 69]" "concat b9 = [Fault]"
  shows "\<exists>d. probe_masked buffer b5 b7 b9 c = Some d \<and> bd_result d = 0x610
    \<and> standing buffer 0x8000050e (3, 1, 0) (5, 1) True False (3, 0xe0)
        (ram(buffer + 2 := 67, buffer + 3 := 68, buffer := 69)) d"
proof -
  let ?c1 = "c\<lparr>bd_masked := True\<rparr>"
  have c1: "standing buffer ring_config (2, 2, 0) (2, 0) True True (1, 0x40) ram ?c1" using c by (simp add: standing_def)
  then have s0: "standing buffer ring_config (2, 2, 0) (2, 0) True True (1, 0x40) ram (?c1\<lparr>bd_stage := 5\<rparr>)" by simp
  note s1 = standing_byte [OF s0 buffer, of 67, simplified]
  note s2 = standing_byte [OF s1 buffer, of 68, simplified]
  let ?c2 = "stimuli [Byte 67, Byte 68] (?c1\<lparr>bd_stage := 5\<rparr>)"
  let ?ram = "ram(buffer + 2 := 67, buffer + 3 := 68)"
  have c2: "standing buffer ring_config (4, 0, 0x20) (4, 0) True True (1, 0x40) ?ram ?c2" using s2 by simp
  have w5: "wait_stage 5 b5 ?c1 = Some (?c2\<lparr>bd_stage := 5 + 1\<rparr>)"
  proof (rule wait_settle [OF standing_waits [OF c1] sent(1) _ _ standing_waits [OF c2]])
    fix k :: nat
    assume "k < length [Byte 67, Byte 68]"
    then have "k = 0 \<or> k = 1" by auto
    then show "\<not> takes (stimuli (take k [Byte 67, Byte 68]) (?c1\<lparr>bd_stage := 5\<rparr>))"
      using standing_waits [OF s0] standing_waits [OF s1] by auto
  qed (use standing_ops(1) [OF c2] in simp_all)
  let ?c3 = "?c2\<lparr>bd_stage := 5 + 1\<rparr>" and ?c4 = "?c2\<lparr>bd_stage := 5 + 1, bd_masked := False\<rparr>"
  have c3: "standing buffer ring_config (4, 0, 0x20) (4, 0) True True (1, 0x40) ?ram ?c3" using c2 by simp
  have "standing buffer ring_config (4, 0, 0x20) (4, 0) True False (1, 0x40) ?ram ?c4" using c3 by (simp add: standing_def)
  from standing_serve [OF this] obtain d where d: "serve ?c4 = Some d"
    "standing buffer ring_config (4, 0, 0) (4, 0) True False (2, 0x60) ?ram d" by auto
  then have s7: "standing buffer ring_config (4, 0, 0) (4, 0) True False (2, 0x60) ?ram (d\<lparr>bd_stage := 7\<rparr>)" by simp
  note s8 = standing_byte [OF s7 buffer, of 69, simplified]
  let ?c5 = "stimuli [Byte 69] (d\<lparr>bd_stage := 7\<rparr>)"
  have c5: "standing buffer ring_config (3, 1, 0) (5, 0) True False (2, 0x60) (?ram(buffer := 69)) ?c5" using s8 by simp
  have w7: "wait_stage 7 b7 d = Some (?c5\<lparr>bd_stage := 7 + 1\<rparr>)"
    by (rule wait_settle [OF standing_waits [OF d(2)] sent(2) _ _ standing_waits [OF c5]])
      (use standing_ops(1) [OF c5] standing_waits [OF s7] in simp_all)
  have c6: "standing buffer ring_config (3, 1, 0) (5, 0) True False (2, 0x60) (?ram(buffer := 69)) (?c5\<lparr>bd_stage := 7 + 1\<rparr>)"
    using c5 by simp
  have "does (\<lambda>c. c\<lparr>bd_masked := True\<rparr>) c = Some ?c1" by (rule standing_ops(2) [OF c]) simp
  moreover have "does (\<lambda>c. c\<lparr>bd_masked := False\<rparr>) ?c3 = Some ?c4" by (subst standing_ops(2) [OF c3]) simp_all
  moreover have "does (\<lambda>c. c) ?c4 = Some d" using d(1) by (simp add: does_def)
  moreover have "does (\<lambda>c. c) d = Some d" by (rule standing_ops(2) [OF d(2)]) simp
  ultimately have "probe_masked buffer b5 b7 b9 c = probe_last buffer b9 (?c5\<lparr>bd_stage := 7 + 1\<rparr>)"
    using standing_ops(5,7-9) [OF c3] standing_ops(5,7-9) [OF c6] by (simp add: probe_masked_def w5 w7)
  with probe_last_passes [OF c6 sent(3)] show ?thesis by simp
qed

lemma probe_runs:
  assumes buffer: "0x20000000 \<le> buffer" "uint buffer + 4 \<le> 0x20003000" and empty: "ram buffer = 0"
    and sent: "concat b1 = [Byte 88]" "concat b3 = [Byte 65, Byte 66]" "concat b5 = [Byte 67, Byte 68]"
      "concat b7 = [Byte 69]" "concat b9 = [Fault]"
  shows "\<exists>d. peripheral_probe buffer b1 b3 b5 b7 b9 (power_up ram) = Some d \<and> bd_result d = 0x610
    \<and> standing buffer 0x8000050e (3, 1, 0) (5, 1) True False (3, 0xe0)
        (ram(buffer := 65, buffer + 1 := 66, buffer + 2 := 67, buffer + 3 := 68, buffer := 69)) d"
proof -
  obtain c0 c where pins: "probe_pins (power_up ram) = Some (True, c0)" and prepared: "probe_setup buffer c0 = Some c"
    and c: "standing buffer 0x8000050e (4, 0, 0) (0, 0) True False (0, 0) ram c"
    using power_up_ready [of ram buffer] by blast
  let ?c1 = "stimuli [Byte 88] (c\<lparr>bd_stage := 1\<rparr>)"
  have c1: "standing buffer 0x8000050e (4, 0, 0) (0, 0) True False (0, 0) ram ?c1"
    using standing_off [of buffer "(4, 0, 0)"] c by simp
  have w1: "wait_stage 1 b1 c = Some (?c1\<lparr>bd_stage := 1 + 1\<rparr>)"
    by (rule wait_settle [OF standing_waits [OF c] sent(1) _ _ standing_waits [OF c1]])
      (use standing_ops(1) [OF c1] standing_waits [of buffer _ 4 0 0] c in simp_all)
  let ?c2 = "?c1\<lparr>bd_stage := 1 + 1\<rparr>"
  have c2: "standing buffer 0x8000050e (4, 0, 0) (0, 0) True False (0, 0) ram ?c2" using c1 by simp
  let ?c3 = "?c2\<lparr>bd_dev := (bd_dev ?c2)\<lparr>pd_regs := (pd_regs (bd_dev ?c2))(0x6058 := ring_config)\<rparr>\<rparr>"
  have c3: "standing buffer ring_config (4, 0, 0) (0, 0) True False (0, 0) ram ?c3" using c2 by (simp add: standing_def)
  have started: "set_reg 0x6058 (0x8000050e OR 1) ?c2 = Some ?c3"
    unfolding ring_config_def by (subst standing_ops(6) [OF c2]) simp_all
  have s3: "standing buffer ring_config (4, 0, 0) (0, 0) True False (0, 0) ram (?c3\<lparr>bd_stage := 3\<rparr>)"
    by (simp only: standing_stage c3)
  note s4 = standing_byte [OF s3 buffer, of 65, simplified]
  note s5 = standing_byte [OF s4 buffer, of 66, simplified]
  let ?ram = "ram(buffer := 65, buffer + 1 := 66)"
  from standing_serve [OF s5] obtain d where d: "serve (stimuli [Byte 65, Byte 66] (?c3\<lparr>bd_stage := 3\<rparr>)) = Some d"
    "standing buffer ring_config (2, 2, 0) (2, 0) True False (1, 0x40) ?ram d"
    by (auto simp: numeral_2_eq_2)
  have w3: "wait_stage 3 b3 ?c3 = Some (d\<lparr>bd_stage := 3 + 1\<rparr>)"
  proof (rule wait_settle [OF standing_waits [OF c3] sent(2) _ d(1) standing_waits [OF d(2)]])
    fix k :: nat
    assume "k < length [Byte 65, Byte 66]"
    then have "k = 0 \<or> k = 1" by auto
    then show "\<not> takes (stimuli (take k [Byte 65, Byte 66]) (?c3\<lparr>bd_stage := 3\<rparr>))"
      using standing_waits [OF s3] standing_waits [OF s4] by auto
  qed simp_all
  have c4: "standing buffer ring_config (2, 2, 0) (2, 0) True False (1, 0x40) ?ram (d\<lparr>bd_stage := 3 + 1\<rparr>)" using d(2) by simp
  have "peripheral_probe buffer b1 b3 b5 b7 b9 (power_up ram) = probe_masked buffer b5 b7 b9 (d\<lparr>bd_stage := 3 + 1\<rparr>)"
    using pins prepared w1 w3 standing_ops(3,5,7-9) [OF c2] standing_ops(5,7-9) [OF c4] started empty
    by (simp add: peripheral_probe_def)
  with probe_masked_passes [OF c4 buffer sent(3-5)] show ?thesis by simp
qed

section \<open>Properties\<close>

text \<open>
  C37. No notification is lost. Whatever bytes and errors arrive before the handler and between its
  statements, the handler makes no access the device refuses and, if every condition raised so far was
  in the program's account or still in the status, then so is every condition raised by its end: it
  acknowledges exactly what it accounts for. When nothing arrives in between, it leaves the status clear.
\<close>

theorem handler_loses_nothing:
  assumes "bd_events c OR pd_status (bd_dev c) = pd_raised (bd_dev c)"
  shows "\<exists>d. prototype_irq s1 s2 s3 c = Some d \<and> bd_events d OR pd_status (bd_dev d) = pd_raised (bd_dev d)
    \<and> bd_irq_seen d = bd_irq_seen c + 1 \<and> (s2 = [] \<and> s3 = [] \<longrightarrow> pd_status (bd_dev d) = 0)"
  using irq_rule [of c s1 s2 s3] assms by (simp add: accounted_def)

text \<open>
  C38. The control program of the peripheral passes. Wherever its buffer lies in memory and however the
  test's bytes and its error are spread over stops of the processor, the program makes no access the
  device refuses, reports 0x610 after three interrupts and the three conditions half, end and error, and the
  device has transferred five bytes, the fifth over the first, and does not ask for an interrupt.
\<close>

theorem peripheral_probe_passes:
  assumes "0x20000000 \<le> buffer" and "uint buffer + 4 \<le> 0x20003000" and "ram buffer = 0"
    and "concat b1 = [Byte 88]" and "concat b3 = [Byte 65, Byte 66]" and "concat b5 = [Byte 67, Byte 68]"
    and "concat b7 = [Byte 69]" and "concat b9 = [Fault]"
  shows "\<exists>d. peripheral_probe buffer b1 b3 b5 b7 b9 (power_up ram) = Some d
    \<and> bd_result d = 0x610 \<and> bd_irq_seen d = 3 \<and> bd_events d = 0xe0
    \<and> pd_transfers (bd_dev d) = 5 \<and> pd_errors (bd_dev d) = 1 \<and> \<not> pd_level (bd_dev d)
    \<and> bd_ram d = ram(buffer := 69, buffer + 1 := 66, buffer + 2 := 67, buffer + 3 := 68)"
proof -
  from probe_runs [of buffer ram, OF assms] obtain d where d: "peripheral_probe buffer b1 b3 b5 b7 b9 (power_up ram) = Some d"
    "bd_result d = 0x610" and s: "standing buffer 0x8000050e (3, 1, 0) (5, 1) True False (3, 0xe0)
        (ram(buffer := 65, buffer + 1 := 66, buffer + 2 := 67, buffer + 3 := 68, buffer := 69)) d" by blast
  have "ram(buffer := 65, buffer + 1 := 66, buffer + 2 := 67, buffer + 3 := 68, buffer := 69)
      = ram(buffer := 69, buffer + 1 := 66, buffer + 2 := 67, buffer + 3 := 68)" by (auto simp: fun_eq_iff)
  with d s show ?thesis by (auto simp: standing_def pd_level_def)
qed

lemma handler_loses_nothing_witness:
  "case prototype_irq [] [Fault] [] (power_up (\<lambda>_. 0)) of None \<Rightarrow> False
   | Some d \<Rightarrow> bd_events d OR pd_status (bd_dev d) = pd_raised (bd_dev d)"
  using handler_loses_nothing [of "power_up (\<lambda>_. 0)" "[]" "[Fault]" "[]"] by (auto simp: power_up_def)

lemma peripheral_probe_passes_witness:
  "case peripheral_probe 0x20000100 [[Byte 88]] [[Byte 65], [Byte 66]] [[Byte 67, Byte 68]] [[], [Byte 69]] [[Fault]]
     (power_up (\<lambda>_. 0)) of None \<Rightarrow> False | Some d \<Rightarrow> bd_result d = 0x610"
  using peripheral_probe_passes [where buffer = "0x20000100" and ram = "\<lambda>_. 0" and ?b1.0 = "[[Byte 88]]"
      and ?b3.0 = "[[Byte 65], [Byte 66]]" and ?b5.0 = "[[Byte 67, Byte 68]]" and ?b7.0 = "[[], [Byte 69]]" and ?b9.0 = "[[Fault]]"] by (auto split: option.split)

end
