(* ===== verification/DeviceControl.thy ===== *)
theory DeviceControl
  imports Main "HOL-Library.Word" "HOL-Library.Monad_Syntax"
begin

text \<open>
  Model of \<^verbatim>\<open>environments/cortex-m/probes/device-control.c\<close>, the control program the generated device
  fixtures are compared with. The device is \<^verbatim>\<open>FixturePeripheral\<close> of \<^verbatim>\<open>environments/cortex-m/models.py\<close>
  with its trace; the test's bytes arrive while the processor is stopped. A run that makes an access the
  device refuses, or waits for ever, has no result.
\<close>

unbundle bit_operations_syntax

section \<open>The device and the program's variables\<close>

datatype fixture_event = Rd "32 word" "32 word" | Wr "32 word" "32 word" | Dma nat "8 word"

record fixture =
  fx_gpio :: "32 word"
  fx_fifo :: nat
  fx_output :: "32 word"
  fx_transmitted :: "32 word"
  fx_remaining :: nat
  fx_transfers :: nat
  fx_configuration :: "32 word"
  fx_pending :: "32 word"
  fx_source :: "32 word"
  fx_destination :: "32 word"
  fx_enabled :: "32 word"
  fx_timer_pending :: "32 word"
  fx_alarm :: "32 word"
  fx_trace :: "fixture_event list"

definition fixture_reset :: fixture where
  "fixture_reset = \<lparr>fx_gpio = 31, fx_fifo = 0, fx_output = 0, fx_transmitted = 0, fx_remaining = 0,
     fx_transfers = 0, fx_configuration = 0, fx_pending = 0, fx_source = 0, fx_destination = 0,
     fx_enabled = 0, fx_timer_pending = 3, fx_alarm = 0, fx_trace = []\<rparr>"

record control =
  ct_dev :: fixture
  ct_ram :: "32 word \<Rightarrow> 8 word"
  ct_enabled :: bool
  ct_masked :: bool
  ct_stage :: "32 word"
  ct_notifications :: "32 word"
  ct_completed :: "32 word"
  ct_result :: "32 word"

definition traced :: "fixture_event \<Rightarrow> fixture \<Rightarrow> fixture" where
  "traced e d = d\<lparr>fx_trace := fx_trace d @ [e]\<rparr>"

definition fixture_read :: "32 word \<Rightarrow> fixture \<Rightarrow> (32 word \<times> fixture) option" where
  "fixture_read offset d = (let got = (\<lambda>v d. Some (v, traced (Rd offset v) d)) in
     if offset = 4 then got (fx_gpio d) d
     else if offset = 0x104 then got 0 d
     else if offset = 0x110 then got (fx_output d) d
     else if offset = 0x200 then
       (if 1 < fx_fifo d then None else got (0x41 + of_nat (fx_fifo d)) (d\<lparr>fx_fifo := fx_fifo d + 1\<rparr>))
     else if offset = 0x218 then got 0x90 d
     else if offset = 0x328 then got 7 d
     else if offset = 0x334 then got (fx_timer_pending d) d
     else if offset = 0x1008 then got (of_nat (fx_remaining d)) d
     else if offset = 0x100c then
       got (fx_configuration d OR (if fx_remaining d \<noteq> 0 then 0x1000000 else 0)) d
     else if offset = 0x1400 then got (fx_pending d) d
     else None)"

definition fixture_write :: "32 word \<Rightarrow> 32 word \<Rightarrow> fixture \<Rightarrow> fixture option" where
  "fixture_write offset v d = (let put = (\<lambda>m d. if v AND NOT m \<noteq> 0 then None else Some (traced (Wr offset v) d)) in
     if offset = 4 then put 0x3003331f (d\<lparr>fx_gpio := v\<rparr>)
     else if offset = 0x114 then put 0x3fffffff (d\<lparr>fx_output := fx_output d OR v\<rparr>)
     else if offset = 0x118 then put 0x3fffffff (d\<lparr>fx_output := fx_output d AND NOT v\<rparr>)
     else if offset = 0x200 then put 0xff (d\<lparr>fx_transmitted := v\<rparr>)
     else if offset = 0x244 then put 0x7ff d
     else if offset = 0x310 then put (- 1) (d\<lparr>fx_alarm := v\<rparr>)
     else if offset = 0x334 then put 0xf (d\<lparr>fx_timer_pending := fx_timer_pending d AND NOT v\<rparr>)
     else if offset = 0x1000 then put (- 1) (d\<lparr>fx_source := v\<rparr>)
     else if offset = 0x1004 then put (- 1) (d\<lparr>fx_destination := v\<rparr>)
     else if offset = 0x1008 then (if v \<noteq> 4 then None else put (- 1) (d\<lparr>fx_remaining := unat v\<rparr>))
     else if offset = 0x100c then
       (if v \<notin> {0xa8020, 0xa8021} then None else put (- 1) (d\<lparr>fx_configuration := v\<rparr>))
     else if offset = 0x1400 then put 0xffff (d\<lparr>fx_pending := fx_pending d AND NOT v\<rparr>)
     else if offset = 0x1404 then put 1 (d\<lparr>fx_enabled := v\<rparr>)
     else None)"

text \<open>One byte arrives; \<open>None\<close> is a transfer the device does not make.\<close>

definition fixture_feed :: "8 word \<Rightarrow> control \<Rightarrow> control option" where
  "fixture_feed v c = (let d = ct_dev c; d1 = traced (Dma (fx_transfers d) v)
         (d\<lparr>fx_transfers := fx_transfers d + 1, fx_remaining := fx_remaining d - 1\<rparr>);
       d2 = (if fx_remaining d1 \<in> {2, 0} then d1\<lparr>fx_pending := 1\<rparr> else d1);
       d3 = (if fx_remaining d2 = 0 then d2\<lparr>fx_configuration := fx_configuration d2 AND NOT 1\<rparr> else d2) in
     if fx_configuration d AND 1 = 0 \<or> fx_remaining d = 0 \<or> fx_source d \<noteq> 0x40070200
       \<or> fx_destination d < 0x20000000 \<or> 0x20003000 < uint (fx_destination d) + 4 then None
     else Some (c\<lparr>ct_ram := (ct_ram c)(fx_destination d + of_nat (fx_transfers d) := v), ct_dev := d3\<rparr>))"

fun feeds :: "8 word list \<Rightarrow> control \<Rightarrow> control option" where
  "feeds [] c = Some c"
| "feeds (v # vs) c = do { c \<leftarrow> fixture_feed v c; feeds vs c }"

section \<open>The program\<close>

text \<open>The handler \<^verbatim>\<open>device_irq\<close>.\<close>

definition fixture_irq :: "control \<Rightarrow> control option" where
  "fixture_irq c = do {
     (pending, d) \<leftarrow> fixture_read 0x1400 (ct_dev c);
     let c = c\<lparr>ct_dev := d, ct_notifications := ct_notifications c + 1\<rparr>;
     c \<leftarrow> (if pending \<noteq> 0 then do {
         (count, d) \<leftarrow> fixture_read 0x1008 (ct_dev c);
         Some (c\<lparr>ct_dev := d, ct_completed := (if count = 0 then 1 else ct_completed c)\<rparr>)
       } else Some c);
     d \<leftarrow> fixture_write 0x1400 1 (ct_dev c);
     Some (c\<lparr>ct_dev := d\<rparr>)
   }"

definition interrupts :: "control \<Rightarrow> bool" where
  "interrupts c \<longleftrightarrow> fx_pending (ct_dev c) AND fx_enabled (ct_dev c) \<noteq> 0 \<and> ct_enabled c \<and> \<not> ct_masked c"

definition serves :: "control \<Rightarrow> control option" where
  "serves c = (if interrupts c then fixture_irq c else Some c)"

definition rd :: "32 word \<Rightarrow> control \<Rightarrow> (32 word \<times> control) option" where
  "rd offset c = do { c \<leftarrow> serves c; (v, d) \<leftarrow> fixture_read offset (ct_dev c); Some (v, c\<lparr>ct_dev := d\<rparr>) }"

definition wr :: "32 word \<Rightarrow> 32 word \<Rightarrow> control \<Rightarrow> control option" where
  "wr offset v c = do { c \<leftarrow> serves c; d \<leftarrow> fixture_write offset v (ct_dev c); Some (c\<lparr>ct_dev := d\<rparr>) }"

definition performs :: "(control \<Rightarrow> control) \<Rightarrow> control \<Rightarrow> control option" where
  "performs f c = map_option f (serves c)"

text \<open>\<^verbatim>\<open>stage = n; while (stage == n) nop\<close>, while the test sends its batches of bytes.\<close>

fun sendings :: "8 word list list \<Rightarrow> control \<Rightarrow> control option" where
  "sendings [] c = Some c"
| "sendings (b # bs) c = do { c \<leftarrow> feeds b c; c \<leftarrow> serves c; sendings bs c }"

definition hold_stage :: "32 word \<Rightarrow> 8 word list list \<Rightarrow> control \<Rightarrow> control option" where
  "hold_stage n bs c = do {
     c \<leftarrow> performs (\<lambda>c. c\<lparr>ct_stage := n\<rparr>) c;
     c \<leftarrow> sendings bs c;
     Some (c\<lparr>ct_stage := n + 1\<rparr>)
   }"

text \<open>\<^verbatim>\<open>while (completed == 0) nop\<close>: nothing but the interrupt can end it.\<close>

definition await_completed :: "control \<Rightarrow> control option" where
  "await_completed c = do { c \<leftarrow> serves c; if ct_completed c = 0 then None else Some c }"

text \<open>The three checks of the first part; the flag says whether they passed.\<close>

definition control_images :: "control \<Rightarrow> (bool \<times> control) option" where
  "control_images c = do {
     (gpio, c) \<leftarrow> rd 4 c;
     c \<leftarrow> wr 4 ((gpio AND NOT 31) OR 2) c;
     c \<leftarrow> wr 0x114 0x12 c;
     c \<leftarrow> wr 0x118 2 c;
     (out, c) \<leftarrow> rd 0x110 c;
     if out \<noteq> 16 then Some (False, c)
     else do {
       (first, c) \<leftarrow> rd 0x200 c;
       (second, c) \<leftarrow> rd 0x200 c;
       if first \<noteq> 0x41 \<or> second \<noteq> 0x42 then Some (False, c)
       else do {
         c \<leftarrow> wr 0x200 0x55 c;
         c \<leftarrow> wr 0x244 0x10 c;
         (status, c) \<leftarrow> rd 0x218 c;
         if status \<noteq> 0x90 then Some (False, c)
         else do {
           c \<leftarrow> wr 0x310 7 c;
           c \<leftarrow> wr 0x334 1 c;
           c \<leftarrow> wr 0x334 0 c;
           (timer, c) \<leftarrow> rd 0x334 c;
           Some (timer = 2, c)
         }
       }
     }
   }"

definition control_descriptor :: "32 word \<Rightarrow> control \<Rightarrow> control option" where
  "control_descriptor buffer c = do {
     c \<leftarrow> performs (\<lambda>c. c\<lparr>ct_enabled := True\<rparr>) c;
     c \<leftarrow> wr 0x1000 0x40070200 c;
     c \<leftarrow> wr 0x1004 buffer c;
     c \<leftarrow> wr 0x1008 4 c;
     c \<leftarrow> wr 0x100c 0xa8020 c;
     c \<leftarrow> wr 0x1404 1 c;
     wr 0x100c 0xa8021 c
   }"

definition control_transfer :: "32 word \<Rightarrow> 8 word list list \<Rightarrow> 8 word list list \<Rightarrow> control \<Rightarrow> control option" where
  "control_transfer buffer b1 b3 c = do {
     c \<leftarrow> hold_stage 1 b1 c;
     c \<leftarrow> performs (\<lambda>c. c\<lparr>ct_masked := True\<rparr>) c;
     c \<leftarrow> hold_stage 3 b3 c;
     c \<leftarrow> performs (\<lambda>c. c\<lparr>ct_masked := False\<rparr>) c;
     c \<leftarrow> await_completed c;
     c \<leftarrow> performs (\<lambda>c. c\<lparr>ct_result := ucast (ct_ram c buffer) + ucast (ct_ram c (buffer + 1))
       + ucast (ct_ram c (buffer + 2)) + ucast (ct_ram c (buffer + 3))\<rparr>) c;
     performs (\<lambda>c. c\<lparr>ct_stage := 5\<rparr>) c
   }"

definition control_probe :: "32 word \<Rightarrow> 8 word list list \<Rightarrow> 8 word list list \<Rightarrow> control \<Rightarrow> control option" where
  "control_probe buffer b1 b3 c = do {
     (ok, c) \<leftarrow> control_images c;
     if \<not> ok then Some c
     else do { c \<leftarrow> control_descriptor buffer c; control_transfer buffer b1 b3 c }
   }"

section \<open>Waiting\<close>

lemma serves_idle: "\<not> interrupts c \<Longrightarrow> serves c = Some c"
  by (simp add: serves_def)

lemma feeds_append: "feeds (xs @ ys) c = do { d \<leftarrow> feeds xs c; feeds ys d }"
  by (induction xs arbitrary: c) (auto simp: bind_eq_Some_conv split: Option.bind_split)

lemma sendings_empty: "concat bs = [] \<Longrightarrow> \<not> interrupts c \<Longrightarrow> sendings bs c = Some c"
  by (induction bs) (simp_all add: serves_idle)

text \<open>How the bytes are split does not matter where at most the last one raises the line.\<close>

lemma sendings_settle:
  assumes "concat bs = xs" and "\<And>k. k < length xs \<Longrightarrow> \<exists>d. feeds (take k xs) c = Some d \<and> \<not> interrupts d"
    and "\<not> interrupts c" and "feeds xs c = Some e" and "serves e = Some f" and "\<not> interrupts f"
  shows "sendings bs c = Some f"
  using assms
proof (induction bs arbitrary: c xs)
  case Nil
  then show ?case by (simp add: serves_idle)
next
  case (Cons b bs)
  show ?case
  proof (cases "concat bs = []")
    case True
    with Cons.prems have "feeds b c = Some e" by simp
    with Cons.prems(5) sendings_empty [OF True Cons.prems(6)] show ?thesis by simp
  next
    case False
    have xs: "xs = b @ concat bs" using Cons.prems(1) by simp
    with Cons.prems(2) [of "length b"] False obtain d where d: "feeds b c = Some d" "\<not> interrupts d" by auto
    have "sendings bs d = Some f"
    proof (rule Cons.IH [OF refl _ d(2)])
      show "\<exists>x. feeds (take k (concat bs)) d = Some x \<and> \<not> interrupts x" if "k < length (concat bs)" for k
        using Cons.prems(2) [of "length b + k"] that xs d(1) by (simp add: feeds_append)
      show "feeds (concat bs) d = Some e" using Cons.prems(4) xs d(1) by (simp add: feeds_append)
    qed (use Cons.prems(5,6) in simp_all)
    with d show ?thesis by (simp add: serves_idle)
  qed
qed

section \<open>A run\<close>

definition control_start :: "(32 word \<Rightarrow> 8 word) \<Rightarrow> control" where
  "control_start ram = \<lparr>ct_dev = fixture_reset, ct_ram = ram, ct_enabled = False, ct_masked = False, ct_stage = 0,
     ct_notifications = 0, ct_completed = 0, ct_result = 0\<rparr>"

text \<open>
  How a run stands: configuration, remaining count, transfers and pending bit; whether the processor masks
  the enabled interrupt; notifications and completion; memory, and the trace.
\<close>

definition transferring :: "32 word \<Rightarrow> 32 word \<times> nat \<times> nat \<times> 32 word \<Rightarrow> bool \<Rightarrow> 32 word \<times> 32 word
    \<Rightarrow> (32 word \<Rightarrow> 8 word) \<Rightarrow> fixture_event list \<Rightarrow> control \<Rightarrow> bool" where
  "transferring buffer z mk seen ram tr c \<longleftrightarrow>
     z = (fx_configuration (ct_dev c), fx_remaining (ct_dev c), fx_transfers (ct_dev c), fx_pending (ct_dev c))
     \<and> fx_source (ct_dev c) = 0x40070200 \<and> fx_destination (ct_dev c) = buffer \<and> fx_enabled (ct_dev c) = 1
     \<and> fx_output (ct_dev c) = 16 \<and> fx_transmitted (ct_dev c) = 0x55 \<and> fx_alarm (ct_dev c) = 7
     \<and> ct_enabled c \<and> ct_masked c = mk \<and> seen = (ct_notifications c, ct_completed c) \<and> ct_ram c = ram
     \<and> fx_trace (ct_dev c) = tr"

definition image_trace :: "fixture_event list" where
  "image_trace = [Rd 4 0x1f, Wr 4 2, Wr 0x114 0x12, Wr 0x118 2, Rd 0x110 0x10, Rd 0x200 0x41, Rd 0x200 0x42,
     Wr 0x200 0x55, Wr 0x244 0x10, Rd 0x218 0x90, Wr 0x310 7, Wr 0x334 1, Wr 0x334 0, Rd 0x334 2,
     Wr 0x1000 0x40070200]"

definition set_up_trace :: "32 word \<Rightarrow> fixture_event list" where
  "set_up_trace buffer = image_trace @ [Wr 0x1004 buffer, Wr 0x1008 4, Wr 0x100c 0xa8020, Wr 0x1404 1, Wr 0x100c 0xa8021]"

lemma control_ready:
  "\<exists>c. control_images (control_start ram) = Some (True, c)
     \<and> (\<exists>d. control_descriptor buffer c = Some d
          \<and> transferring buffer (0xa8021, 4, 0, 0) False (0, 0) ram (set_up_trace buffer) d)"
  by (simp add: control_images_def control_descriptor_def control_start_def fixture_reset_def rd_def wr_def performs_def
      serves_def interrupts_def fixture_read_def fixture_write_def traced_def Let_def transferring_def set_up_trace_def
      image_trace_def)

lemma transferring_idle: "transferring buffer (cfg, n, t, p) mk seen ram tr c \<Longrightarrow> p = 0 \<or> mk \<Longrightarrow> \<not> interrupts c"
  by (auto simp: transferring_def interrupts_def)

lemma transferring_stage [simp]: "transferring buffer z mk seen ram tr (c\<lparr>ct_stage := n\<rparr>) = transferring buffer z mk seen ram tr c"
  by (simp add: transferring_def)

lemma transferring_mask:
  "transferring buffer z mk seen ram tr c \<Longrightarrow> transferring buffer z m seen ram tr (c\<lparr>ct_masked := m\<rparr>)"
  by (simp add: transferring_def)

lemma transferring_byte:
  assumes "transferring buffer (0xa8021, n, t, p) mk seen ram tr c" and "0 < n"
    and "0x20000000 \<le> buffer" and "uint buffer + 4 \<le> 0x20003000"
  shows "\<exists>d. fixture_feed v c = Some d \<and> transferring buffer
    (if n = 1 then 0xa8020 else 0xa8021, n - 1, t + 1, if n = 1 \<or> n = 3 then 1 else p) mk seen
    (ram(buffer + of_nat t := v)) (tr @ [Dma t v]) d"
  using assms by (auto simp: transferring_def fixture_feed_def Let_def traced_def not_less)

lemma transferring_serve:
  assumes "transferring buffer (cfg, n, t, 1) False (k, fin) ram tr c" and "n < 4"
  shows "\<exists>d. serves c = Some d \<and> transferring buffer (cfg, n, t, 0) False (k + 1, if n = 0 then 1 else fin) ram
    (tr @ [Rd 0x1400 1, Rd 0x1008 (of_nat n), Wr 0x1400 1]) d"
proof -
  have "n = 0 \<or> n = 1 \<or> n = 2 \<or> n = 3" using assms(2) by auto
  with assms(1) show ?thesis
    by (auto simp: transferring_def serves_def interrupts_def fixture_irq_def fixture_read_def fixture_write_def
        Let_def traced_def)
qed

lemma hold_settle:
  assumes "\<not> interrupts c" and "concat bs = [u, v]"
    and "fixture_feed u (c\<lparr>ct_stage := n\<rparr>) = Some d" and "\<not> interrupts d" and "fixture_feed v d = Some e"
    and "serves e = Some f" and "\<not> interrupts f"
  shows "hold_stage n bs c = Some (f\<lparr>ct_stage := n + 1\<rparr>)"
proof -
  have idle: "\<not> interrupts (c\<lparr>ct_stage := n\<rparr>)" using assms(1) by (simp add: interrupts_def)
  have "sendings bs (c\<lparr>ct_stage := n\<rparr>) = Some f"
  proof (rule sendings_settle [OF assms(2) _ idle _ assms(6,7)])
    fix k
    assume "k < length [u, v]"
    then have "k = 0 \<or> k = 1" by auto
    then show "\<exists>x. feeds (take k [u, v]) (c\<lparr>ct_stage := n\<rparr>) = Some x \<and> \<not> interrupts x"
      using assms(3,4) idle by auto
  qed (use assms(3,5) in simp)
  with assms(1) show ?thesis by (simp add: hold_stage_def performs_def serves_idle)
qed

lemma control_runs:
  assumes c: "transferring buffer (0xa8021, 4, 0, 0) False (0, 0) ram tr c"
    and buffer: "0x20000000 \<le> buffer" "uint buffer + 4 \<le> 0x20003000"
    and sent: "concat b1 = [42, 43]" "concat b3 = [44, 45]"
  shows "\<exists>d. control_transfer buffer b1 b3 c = Some d \<and> ct_result d = 174 \<and> ct_stage d = 5
    \<and> transferring buffer (0xa8020, 0, 4, 0) False (2, 1)
        (ram(buffer := 42, buffer + 1 := 43, buffer + 2 := 44, buffer + 3 := 45))
        (tr @ [Dma 0 42, Dma 1 43, Rd 0x1400 1, Rd 0x1008 2, Wr 0x1400 1,
               Dma 2 44, Dma 3 45, Rd 0x1400 1, Rd 0x1008 0, Wr 0x1400 1]) d"
proof -
  from c have "transferring buffer (0xa8021, 4, 0, 0) False (0, 0) ram tr (c\<lparr>ct_stage := 1\<rparr>)" by simp
  from transferring_byte [OF this _ buffer, of 42] obtain d1 where d1: "fixture_feed 42 (c\<lparr>ct_stage := 1\<rparr>) = Some d1"
    "transferring buffer (0xa8021, 3, 1, 0) False (0, 0) (ram(buffer := 42)) (tr @ [Dma 0 42]) d1" by auto
  from transferring_byte [OF d1(2) _ buffer, of 43] obtain d2 where d2: "fixture_feed 43 d1 = Some d2"
    "transferring buffer (0xa8021, 2, 2, 1) False (0, 0) (ram(buffer := 42, buffer + 1 := 43)) (tr @ [Dma 0 42, Dma 1 43]) d2"
    by (auto simp: numeral_2_eq_2)
  let ?t2 = "tr @ [Dma 0 42, Dma 1 43, Rd 0x1400 1, Rd 0x1008 2, Wr 0x1400 1]"
  let ?r2 = "ram(buffer := 42, buffer + 1 := 43)"
  from transferring_serve [OF d2(2)] obtain d3 where d3: "serves d2 = Some d3"
    "transferring buffer (0xa8021, 2, 2, 0) False (1, 0) ?r2 ?t2 d3" by auto
  have w1: "hold_stage 1 b1 c = Some (d3\<lparr>ct_stage := 1 + 1\<rparr>)"
    by (rule hold_settle [OF _ sent(1) d1(1) _ d2(1) d3(1)]) (use transferring_idle c d1(2) d3(2) in blast)+
  let ?c4 = "d3\<lparr>ct_stage := 1 + 1, ct_masked := True\<rparr>"
  have c4: "transferring buffer (0xa8021, 2, 2, 0) True (1, 0) ?r2 ?t2 ?c4"
    using transferring_mask [of buffer _ _ _ _ _ "d3\<lparr>ct_stage := 1 + 1\<rparr>" True] d3(2) by simp
  have "transferring buffer (0xa8021, 2, 2, 0) True (1, 0) ?r2 ?t2 (?c4\<lparr>ct_stage := 3\<rparr>)"
    by (simp only: transferring_stage c4)
  from transferring_byte [OF this _ buffer, of 44] obtain d5 where d5: "fixture_feed 44 (?c4\<lparr>ct_stage := 3\<rparr>) = Some d5"
    "transferring buffer (0xa8021, 1, 3, 0) True (1, 0) (?r2(buffer + 2 := 44)) (?t2 @ [Dma 2 44]) d5" by auto
  from transferring_byte [OF d5(2) _ buffer, of 45] obtain d6 where d6: "fixture_feed 45 d5 = Some d6"
    "transferring buffer (0xa8020, 0, 4, 1) True (1, 0) (?r2(buffer + 2 := 44, buffer + 3 := 45)) (?t2 @ [Dma 2 44, Dma 3 45]) d6"
    by (auto simp: numeral_eq_Suc)
  have m6: "\<not> interrupts d6" using transferring_idle d6(2) by blast
  have w3: "hold_stage 3 b3 ?c4 = Some (d6\<lparr>ct_stage := 3 + 1\<rparr>)"
    by (rule hold_settle [OF _ sent(2) d5(1) _ d6(1) serves_idle [OF m6] m6]) (use transferring_idle c4 d5(2) in blast)+
  let ?c7 = "d6\<lparr>ct_stage := 3 + 1, ct_masked := False\<rparr>" and ?r4 = "?r2(buffer + 2 := 44, buffer + 3 := 45)"
  have "transferring buffer (0xa8020, 0, 4, 1) False (1, 0) ?r4 (?t2 @ [Dma 2 44, Dma 3 45]) ?c7"
    using transferring_mask [of buffer _ _ _ _ _ "d6\<lparr>ct_stage := 3 + 1\<rparr>" False] d6(2) by simp
  from transferring_serve [OF this] obtain d8 where d8: "serves ?c7 = Some d8"
    "transferring buffer (0xa8020, 0, 4, 0) False (2, 1) ?r4
      (?t2 @ [Dma 2 44, Dma 3 45, Rd 0x1400 1, Rd 0x1008 0, Wr 0x1400 1]) d8" by auto
  have idle: "\<not> interrupts c" "\<not> interrupts (d3\<lparr>ct_stage := 1 + 1\<rparr>)" "\<not> interrupts (d6\<lparr>ct_stage := 3 + 1\<rparr>)"
      "\<not> interrupts d8" "\<not> interrupts (d8\<lparr>ct_result := x\<rparr>)" for x
    using transferring_idle [OF c] transferring_idle [OF d3(2)] m6 transferring_idle [OF d8(2)] by (simp_all add: interrupts_def)
  have ram: "ct_ram d8 = ?r4" "ct_completed d8 = 1" using d8(2) by (simp_all add: transferring_def)
  have "control_transfer buffer b1 b3 c = Some (d8\<lparr>ct_result := 174, ct_stage := 5\<rparr>)"
    using w1 w3 d8(1) idle ram by (simp add: control_transfer_def performs_def serves_idle await_completed_def)
  then show ?thesis using d8(2) by (simp add: transferring_def)
qed

section \<open>Property\<close>

text \<open>
  C39. The control program of the device fixtures passes. Wherever its buffer lies and however the test
  spreads its four bytes over stops of the processor, the program makes no access the device refuses and
  does not wait for ever: it sums the bytes to 174 after two notifications, one of them delivered only when
  the mask is lifted, and the device's trace is the recorded one, access by access.
\<close>

theorem device_control_passes:
  assumes "0x20000000 \<le> buffer" and "uint buffer + 4 \<le> 0x20003000"
    and "concat b1 = [42, 43]" and "concat b3 = [44, 45]"
  shows "\<exists>d. control_probe buffer b1 b3 (control_start ram) = Some d
    \<and> ct_result d = 174 \<and> ct_notifications d = 2 \<and> ct_completed d = 1 \<and> ct_stage d = 5
    \<and> fx_pending (ct_dev d) = 0 \<and> fx_configuration (ct_dev d) = 0xa8020
    \<and> fx_output (ct_dev d) = 16 \<and> fx_transmitted (ct_dev d) = 0x55 \<and> fx_alarm (ct_dev d) = 7
    \<and> fx_trace (ct_dev d) = set_up_trace buffer @
        [Dma 0 42, Dma 1 43, Rd 0x1400 1, Rd 0x1008 2, Wr 0x1400 1,
         Dma 2 44, Dma 3 45, Rd 0x1400 1, Rd 0x1008 0, Wr 0x1400 1]"
proof -
  obtain c0 c where c0: "control_images (control_start ram) = Some (True, c0)" "control_descriptor buffer c0 = Some c"
    and c: "transferring buffer (0xa8021, 4, 0, 0) False (0, 0) ram (set_up_trace buffer) c"
    using control_ready [of ram buffer] by blast
  from control_runs [OF c assms] c0 show ?thesis
    by (auto simp: control_probe_def) (auto simp: transferring_def)
qed

lemma device_control_passes_witness:
  "case control_probe 0x20000200 [[42], [], [43]] [[44, 45]] (control_start (\<lambda>_. 0)) of None \<Rightarrow> False
   | Some d \<Rightarrow> ct_result d = 174"
  using device_control_passes [where buffer = "0x20000200" and ?b1.0 = "[[42], [], [43]]" and ?b3.0 = "[[44, 45]]"
      and ram = "\<lambda>_. 0"] by (auto split: option.split)

end
