(* ===== verification/LineTransport.thy ===== *)
theory LineTransport
  imports JournalFacts "HOL-Library.Word" "HOL-Library.Monad_Syntax"
begin

text \<open>
  Model of \<^verbatim>\<open>environments/cortex-m/probes/packed-transport.c\<close>: a program's accesses of a device go as lines
  over a pipe to \<^verbatim>\<open>transport\<close> of \<^verbatim>\<open>environments/cortex-m/packed_native.py\<close>, which performs them on a model
  and answers with a number. The program, \<^verbatim>\<open>scenario\<close>, is compiled from another language; it is an argument,
  as the tree of its accesses, and so is the device. A failed assertion, or a refusal, has no result.
\<close>

section \<open>The program, the device and the pipe\<close>

datatype scenario =
    Scenario_result "32 word"
  | Get32 "32 word" "32 word \<Rightarrow> scenario"
  | Get16 "32 word" "16 word \<Rightarrow> scenario"
  | Put32 "32 word" "32 word" scenario
  | Put16 "32 word" "16 word" scenario

record 'd device_ops =
  op_read32 :: "32 word \<Rightarrow> 'd \<Rightarrow> (32 word \<times> 'd) option"
  op_read16 :: "32 word \<Rightarrow> 'd \<Rightarrow> (16 word \<times> 'd) option"
  op_write32 :: "32 word \<Rightarrow> 32 word \<Rightarrow> 'd \<Rightarrow> 'd option"
  op_write16 :: "32 word \<Rightarrow> 16 word \<Rightarrow> 'd \<Rightarrow> 'd option"

record 'd conversation =
  cv_stdin :: cstring
  cv_lines :: "cstring list"
  cv_device :: 'd

section \<open>The driver's end\<close>

text \<open>\<^verbatim>\<open>line.split()\<close>, and \<^verbatim>\<open>int\<close> of a field of digits.\<close>

fun fields_from :: "cstring \<Rightarrow> cstring \<Rightarrow> cstring list" where
  "fields_from acc [] = (if acc = [] then [] else [rev acc])"
| "fields_from acc (c # cs) =
     (if is_space c then (if acc = [] then fields_from [] cs else rev acc # fields_from [] cs)
      else fields_from (c # acc) cs)"

definition int_field :: "cstring \<Rightarrow> nat option" where
  "int_field s = (if s = [] \<or> (\<exists>c \<in> set s. \<not> is_digit c) then None else Some (value_of 10 s))"

text \<open>One line served: the text of the answer and the device after it.\<close>

definition driver_serve :: "'d device_ops \<Rightarrow> cstring \<Rightarrow> 'd \<Rightarrow> (cstring \<times> 'd) option" where
  "driver_serve ops line d = (case fields_from [] line of
     [what, at] \<Rightarrow> do {
       offset \<leftarrow> int_field at;
       if what = ''R32'' then do { (v, d) \<leftarrow> op_read32 ops (of_nat offset) d; Some (dec (unat v) @ [newline], d) }
       else if what = ''R16'' then do { (v, d) \<leftarrow> op_read16 ops (of_nat offset) d; Some (dec (unat v) @ [newline], d) }
       else None
     }
   | [what, at, new] \<Rightarrow> do {
       offset \<leftarrow> int_field at;
       value \<leftarrow> int_field new;
       if what = ''W32'' then do { d \<leftarrow> op_write32 ops (of_nat offset) (of_nat value) d; Some (dec 1 @ [newline], d) }
       else if what = ''W16'' then do { d \<leftarrow> op_write16 ops (of_nat offset) (of_nat value) d; Some (dec 1 @ [newline], d) }
       else None
     }
   | _ \<Rightarrow> None)"

section \<open>The program's end\<close>

text \<open>
  \<^verbatim>\<open>reply\<close>: \<^verbatim>\<open>scanf\<close> skips the white space the previous answer left, and the assertion wants a number.
\<close>

definition transport_reply :: "cstring \<Rightarrow> (32 word \<times> cstring) option" where
  "transport_reply s = (case strtoul s of (v, rest) \<Rightarrow> if rest = s then None else Some (of_nat v, rest))"

text \<open>A line is written and its answer read; the driver refuses more lines than its limit.\<close>

definition transport_ask :: "'d device_ops \<Rightarrow> nat \<Rightarrow> cstring \<Rightarrow> 'd conversation \<Rightarrow> (32 word \<times> 'd conversation) option" where
  "transport_ask ops limit line c = (if limit < length (cv_lines c) + 1 then None else do {
     (answer, d) \<leftarrow> driver_serve ops line (cv_device c);
     (v, rest) \<leftarrow> transport_reply (cv_stdin c @ answer);
     Some (v, \<lparr>cv_stdin = rest, cv_lines = cv_lines c @ [line], cv_device = d\<rparr>)
   })"

definition transport_read32 :: "'d device_ops \<Rightarrow> nat \<Rightarrow> 32 word \<Rightarrow> 'd conversation \<Rightarrow> (32 word \<times> 'd conversation) option" where
  "transport_read32 ops limit offset = transport_ask ops limit (''R32 '' @ dec (unat offset))"

definition transport_read16 :: "'d device_ops \<Rightarrow> nat \<Rightarrow> 32 word \<Rightarrow> 'd conversation \<Rightarrow> (16 word \<times> 'd conversation) option" where
  "transport_read16 ops limit offset c = do {
     (v, c) \<leftarrow> transport_ask ops limit (''R16 '' @ dec (unat offset)) c;
     if v \<le> 65535 then Some (ucast v, c) else None
   }"

definition transport_write32 :: "'d device_ops \<Rightarrow> nat \<Rightarrow> 32 word \<Rightarrow> 32 word \<Rightarrow> 'd conversation \<Rightarrow> 'd conversation option" where
  "transport_write32 ops limit offset value c = do {
     (v, c) \<leftarrow> transport_ask ops limit (''W32 '' @ dec (unat offset) @ '' '' @ dec (unat value)) c;
     if v = 1 then Some c else None
   }"

definition transport_write16 :: "'d device_ops \<Rightarrow> nat \<Rightarrow> 32 word \<Rightarrow> 16 word \<Rightarrow> 'd conversation \<Rightarrow> 'd conversation option" where
  "transport_write16 ops limit offset value c = do {
     (v, c) \<leftarrow> transport_ask ops limit (''W16 '' @ dec (unat offset) @ '' '' @ dec (unat value)) c;
     if v = 1 then Some c else None
   }"

primrec transport_scenario :: "'d device_ops \<Rightarrow> nat \<Rightarrow> scenario \<Rightarrow> 'd conversation \<Rightarrow> (32 word \<times> 'd conversation) option" where
  "transport_scenario ops limit (Scenario_result v) c = Some (v, c)"
| "transport_scenario ops limit (Get32 off k) c = do {
     (v, c) \<leftarrow> transport_read32 ops limit off c; transport_scenario ops limit (k v) c }"
| "transport_scenario ops limit (Get16 off k) c = do {
     (v, c) \<leftarrow> transport_read16 ops limit off c; transport_scenario ops limit (k v) c }"
| "transport_scenario ops limit (Put32 off v sc) c = do {
     c \<leftarrow> transport_write32 ops limit off v c; transport_scenario ops limit sc c }"
| "transport_scenario ops limit (Put16 off v sc) c = do {
     c \<leftarrow> transport_write16 ops limit off v c; transport_scenario ops limit sc c }"

text \<open>\<^verbatim>\<open>main\<close>: the exit status, the lines written and the device; the first argument is that the limit on core
  files could be set. The driver counts the last line too.\<close>

definition transport_main :: "bool \<Rightarrow> 'd device_ops \<Rightarrow> nat \<Rightarrow> scenario \<Rightarrow> 'd \<Rightarrow> (nat \<times> cstring list \<times> 'd) option" where
  "transport_main no_core ops limit sc d = (if \<not> no_core then None else do {
     (v, c) \<leftarrow> transport_scenario ops limit sc \<lparr>cv_stdin = [], cv_lines = [], cv_device = d\<rparr>;
     if limit < length (cv_lines c) + 1 then None
     else Some (if v = 0x640 then 0 else 1, cv_lines c @ [''DONE '' @ dec (unat v)], cv_device c)
   })"

section \<open>The accesses themselves\<close>

datatype device_request = Q_R32 "32 word" | Q_R16 "32 word" | Q_W32 "32 word" "32 word" | Q_W16 "32 word" "16 word"

fun spell :: "device_request \<Rightarrow> cstring" where
  "spell (Q_R32 off) = ''R32 '' @ dec (unat off)"
| "spell (Q_R16 off) = ''R16 '' @ dec (unat off)"
| "spell (Q_W32 off v) = ''W32 '' @ dec (unat off) @ '' '' @ dec (unat v)"
| "spell (Q_W16 off v) = ''W16 '' @ dec (unat off) @ '' '' @ dec (unat v)"

text \<open>The program on the device without a pipe, with the accesses it made.\<close>

primrec directly :: "'d device_ops \<Rightarrow> scenario \<Rightarrow> 'd \<Rightarrow> (32 word \<times> device_request list \<times> 'd) option" where
  "directly ops (Scenario_result v) d = Some (v, [], d)"
| "directly ops (Get32 off k) d = do {
     (v, d) \<leftarrow> op_read32 ops off d; (r, qs, d) \<leftarrow> directly ops (k v) d; Some (r, Q_R32 off # qs, d) }"
| "directly ops (Get16 off k) d = do {
     (v, d) \<leftarrow> op_read16 ops off d; (r, qs, d) \<leftarrow> directly ops (k v) d; Some (r, Q_R16 off # qs, d) }"
| "directly ops (Put32 off v sc) d = do {
     d \<leftarrow> op_write32 ops off v d; (r, qs, d) \<leftarrow> directly ops sc d; Some (r, Q_W32 off v # qs, d) }"
| "directly ops (Put16 off v sc) d = do {
     d \<leftarrow> op_write16 ops off v d; (r, qs, d) \<leftarrow> directly ops sc d; Some (r, Q_W16 off v # qs, d) }"

section \<open>One exchange\<close>

lemma dec_no_space: "c \<in> set (dec n) \<Longrightarrow> \<not> is_space c"
  using digits_10_digit [of n] by (auto simp: list_all_iff digit_no_space)

lemma fields_word: "(\<And>c. c \<in> set w \<Longrightarrow> \<not> is_space c) \<Longrightarrow> fields_from acc (w @ s) = fields_from (rev w @ acc) s"
  by (induction w arbitrary: acc) simp_all

lemma fields_dec: "fields_from acc (dec n @ s) = fields_from (rev (dec n) @ acc) s"
  by (rule fields_word) (rule dec_no_space)

lemma int_field_dec [simp]: "int_field (dec n) = Some n"
  using digits_10_digit [of n] by (simp add: int_field_def list_all_iff value_of_digits)

lemma fields_one [simp]: "fields_from [] (dec n) = [dec n]"
  using fields_dec [of "[]" n "[]"] by simp

lemma fields_two [simp]: "fields_from [] (dec n @ CHR '' '' # dec m) = [dec n, dec m]"
  using fields_dec [of "[]" n "CHR '' '' # dec m"] by (simp add: is_space_def)

lemma strtoul_space: "is_space x \<Longrightarrow> strtoul s = (v, r) \<Longrightarrow> r \<noteq> s \<Longrightarrow> strtoul (x # s) = (v, r)"
  unfolding strtoul_def by (auto simp: Let_def split: if_splits)

lemma reply_dec:
  assumes "n < 2 ^ 64" and "before = [] \<or> before = [newline]"
  shows "transport_reply (before @ dec n @ [newline]) = Some (of_nat n, [newline])"
proof -
  have "\<not> is_digit newline" "is_space newline" by (simp_all add: is_digit_def is_space_def newline_def)
  with assms(1) strtoul_dec have n: "strtoul (dec n @ [newline]) = (n, [newline])" by blast
  moreover have "[newline] \<noteq> dec n @ [newline]" by simp
  ultimately have "strtoul (newline # dec n @ [newline]) = (n, [newline])"
    using strtoul_space \<open>is_space newline\<close> by blast
  with n assms(2) show ?thesis by (auto simp: transport_reply_def)
qed

lemma reply_word:
  fixes v :: "'a::len word"
  assumes "LENGTH('a) \<le> 32" and "before = [] \<or> before = [newline]"
  shows "transport_reply (before @ dec (unat v) @ [newline]) = Some (ucast v, [newline])"
proof -
  have "unat v < 2 ^ LENGTH('a)" by simp
  also have "(2 :: nat) ^ LENGTH('a) \<le> 2 ^ 64" using assms(1) by (intro power_increasing) simp_all
  finally show ?thesis using reply_dec [OF _ assms(2)] by simp
qed

text \<open>One access over the pipe, where the program's end has read everything but a newline.\<close>

abbreviation pending_newline :: "'d conversation \<Rightarrow> bool" where
  "pending_newline c \<equiv> cv_stdin c = [] \<or> cv_stdin c = [newline]"

definition told :: "device_request \<Rightarrow> 'd \<Rightarrow> 'd conversation \<Rightarrow> 'd conversation" where
  "told q d c = \<lparr>cv_stdin = [newline], cv_lines = cv_lines c @ [spell q], cv_device = d\<rparr>"

definition perform :: "'d device_ops \<Rightarrow> device_request \<Rightarrow> 'd \<Rightarrow> (32 word \<times> 'd) option" where
  "perform ops q d = (case q of
     Q_R32 off \<Rightarrow> op_read32 ops off d
   | Q_R16 off \<Rightarrow> map_option (\<lambda>(v, d). (ucast v, d)) (op_read16 ops off d)
   | Q_W32 off v \<Rightarrow> map_option (Pair 1) (op_write32 ops off v d)
   | Q_W16 off v \<Rightarrow> map_option (Pair 1) (op_write16 ops off v d))"

lemma unat_half: "unat (ucast (v :: 16 word) :: 32 word) = unat v"
proof -
  have "unat v < 2 ^ 16" using unsigned_less [of v] by simp
  then have "unat v < 2 ^ 32" by simp
  then show ?thesis by (simp add: unsigned_ucast_eq take_bit_nat_eq_self)
qed

lemma half_small: "ucast (v :: 16 word) \<le> (65535 :: 32 word)" "ucast (ucast v :: 32 word) = v"
proof -
  have "unat v < 2 ^ 16" using unsigned_less [of v] by simp
  then show "ucast v \<le> (65535 :: 32 word)" by (simp add: word_le_nat_alt unat_half)
  show "ucast (ucast v :: 32 word) = v" by (metis of_nat_unat unat_half ucast_id)
qed

lemma serve_perform: "driver_serve ops (spell q) d = do { (v, d) \<leftarrow> perform ops q d; Some (dec (unat v) @ [newline], d) }"
  by (cases q) (auto simp: driver_serve_def perform_def is_space_def unat_half split: Option.bind_splits)

lemma ask_perform:
  assumes "pending_newline c"
  shows "transport_ask ops limit (spell q) c = do { (v, d) \<leftarrow> perform ops q (cv_device c);
     if limit < length (cv_lines c) + 1 then None else Some (v, told q d c) }"
proof -
  have "transport_reply (cv_stdin c @ dec (unat v) @ [newline]) = Some (v, [newline])" for v :: "32 word"
    using reply_word [OF _ assms, of v] by simp
  then show ?thesis
    by (cases "perform ops q (cv_device c)") (auto simp: transport_ask_def serve_perform told_def)
qed

lemmas ask_told = ask_perform [of _ _ _ "Q_R32 off", unfolded spell.simps]
  ask_perform [of _ _ _ "Q_R16 off", unfolded spell.simps]
  ask_perform [of _ _ _ "Q_W32 off v", unfolded spell.simps]
  ask_perform [of _ _ _ "Q_W16 off v", unfolded spell.simps] for off v

lemma read32_told:
  "pending_newline c \<Longrightarrow> transport_read32 ops limit off c = do { (v, d) \<leftarrow> op_read32 ops off (cv_device c);
     if limit < length (cv_lines c) + 1 then None else Some (v, told (Q_R32 off) d c) }"
  unfolding transport_read32_def by (subst ask_told) (simp_all add: perform_def)

lemma read16_told:
  "pending_newline c \<Longrightarrow> transport_read16 ops limit off c = do { (v, d) \<leftarrow> op_read16 ops off (cv_device c);
     if limit < length (cv_lines c) + 1 then None else Some (v, told (Q_R16 off) d c) }"
  unfolding transport_read16_def
  by (subst ask_told) (auto simp: perform_def half_small split: Option.bind_splits)

lemma write32_told:
  "pending_newline c \<Longrightarrow> transport_write32 ops limit off v c = do { d \<leftarrow> op_write32 ops off v (cv_device c);
     if limit < length (cv_lines c) + 1 then None else Some (told (Q_W32 off v) d c) }"
  unfolding transport_write32_def
  by (subst ask_told) (auto simp: perform_def split: Option.bind_splits)

lemma write16_told:
  "pending_newline c \<Longrightarrow> transport_write16 ops limit off v c = do { d \<leftarrow> op_write16 ops off v (cv_device c);
     if limit < length (cv_lines c) + 1 then None else Some (told (Q_W16 off v) d c) }"
  unfolding transport_write16_def
  by (subst ask_told) (auto simp: perform_def split: Option.bind_splits)

lemma told_simps [simp]:
  "cv_stdin (told q d c) = [newline]" "cv_lines (told q d c) = cv_lines c @ [spell q]" "cv_device (told q d c) = d"
  by (simp_all add: told_def)

section \<open>A whole program\<close>

text \<open>What the pipe makes of the rest of a direct run.\<close>

definition piped :: "nat \<Rightarrow> cstring \<Rightarrow> cstring list \<Rightarrow> (32 word \<times> device_request list \<times> 'd) option \<Rightarrow> (32 word \<times> 'd conversation) option" where
  "piped limit input lines r = (case r of None \<Rightarrow> None | Some (v, qs, d) \<Rightarrow>
     if qs \<noteq> [] \<and> limit < length lines + length qs then None
     else Some (v, \<lparr>cv_stdin = (if qs = [] then input else [newline]), cv_lines = lines @ map spell qs, cv_device = d\<rparr>))"

lemma piped_more:
  "piped limit input lines (do { (v, qs, d) \<leftarrow> r; Some (v, q # qs, d) }) =
     (if limit < length lines + 1 then None else piped limit [newline] (lines @ [spell q]) r)"
  by (cases r) (auto simp: piped_def)

lemma scenario_piped:
  "pending_newline c \<Longrightarrow>
   transport_scenario ops limit sc c = piped limit (cv_stdin c) (cv_lines c) (directly ops sc (cv_device c))"
proof (induction sc arbitrary: c)
  case (Scenario_result v)
  then show ?case by (simp add: piped_def)
next
  case (Get32 off k)
  then show ?case
    by (cases "op_read32 ops off (cv_device c)") (auto simp: read32_told piped_more, simp_all add: piped_def)
next
  case (Get16 off k)
  then show ?case
    by (cases "op_read16 ops off (cv_device c)") (auto simp: read16_told piped_more, simp_all add: piped_def)
next
  case (Put32 off v sc)
  then show ?case
    by (cases "op_write32 ops off v (cv_device c)") (auto simp: write32_told piped_more, simp_all add: piped_def)
next
  case (Put16 off v sc)
  then show ?case
    by (cases "op_write16 ops off v (cv_device c)") (auto simp: write16_told piped_more, simp_all add: piped_def)
qed

section \<open>Property\<close>

text \<open>
  C40. The pipe is transparent. Whatever program of word and halfword accesses is linked with the transport
  and whatever the device answers or refuses, the run over lines of text has a result exactly when the
  direct run has one and its accesses and the final line keep the driver's limit. Then the device ends in
  the same state, the lines are the accesses in order and the program's result, no assertion fails, and
  the exit status is 0 exactly for the result 0x640.
\<close>

theorem transport_transparent:
  "transport_main no_core ops limit sc d =
     (if \<not> no_core then None
      else case directly ops sc d of
        None \<Rightarrow> None
      | Some (v, qs, d) \<Rightarrow> if limit < length qs + 1 then None
          else Some (if v = 0x640 then 0 else 1, map spell qs @ [''DONE '' @ dec (unat v)], d))"
  by (auto simp: transport_main_def scenario_piped piped_def split: option.splits)

end
