(* ===== verification/Launcher.thy ===== *)
theory Launcher
  imports ToolClaims
begin

text \<open>
  Model of \<^verbatim>\<open>scripts/scaling_exec.c\<close>: a small process that forks, runs the compiler in the child, waits for
  it and ends as it ended. The processes are those of \<open>ToolProcess\<close>. Results carry what \<^verbatim>\<open>perror\<close> writes.
\<close>

section \<open>The program\<close>

text \<open>The child replaces itself, or says why not and leaves with 127.\<close>

definition launcher_child :: "errno option \<Rightarrow> child_state" where
  "launcher_child exec = (case exec of None \<Rightarrow> Live | Some _ \<Rightarrow> Exited 127)"

definition sys_fork :: "child_state \<Rightarrow> ('z proc_world_scheme, int) state" where
  "sys_fork start = pcall (-1) (\<lambda>t w. Inr (u_pid t, w\<lparr>q_children := (u_pid t, start) # q_children w\<rparr>))"

definition launcher_status :: "child_state \<Rightarrow> int" where
  "launcher_status s = (case s of Exited n \<Rightarrow> int n | Signaled n \<Rightarrow> 128 + int n | Live \<Rightarrow> 128)"

text \<open>\<open>args\<close> is the whole argument vector; \<open>exec\<close> is what \<^verbatim>\<open>execv\<close> fails with in the child, if it fails.\<close>

definition launcher_main :: "cstring list \<Rightarrow> errno option \<Rightarrow> ('z proc_world_scheme, int \<times> cstring option) state" where
  "launcher_main args exec =
     (if length args < 2 then ret (2, None)
      else do {
        child \<leftarrow> sys_fork (launcher_child exec);
        if child < 0 then do {
          e \<leftarrow> get_errno;
          strerror \<leftarrow> gets w_strerror;
          ret (2, Some (''scaling fork: '' @ strerror e))
        }
        else do {
          reaped \<leftarrow> State (wait_loop child False);
          case reaped of
            None \<Rightarrow> do {
              e \<leftarrow> get_errno;
              strerror \<leftarrow> gets w_strerror;
              ret (2, Some (''scaling wait: '' @ strerror e))
            }
          | Some (_, s) \<Rightarrow> ret (launcher_status s, None)
        }
      })"

section \<open>How it ends\<close>

lemma wait_interrupted:
  assumes "q_turns w = es @ t # rest" and "\<And>e. e \<in> set es \<Longrightarrow> u_fault e = Some EINTR" and "u_fault t = None"
    and "map_of (u_children t (fold u_children es (q_children w))) pid = Some s" and "s \<noteq> Live"
  shows "\<exists>w'. wait_loop pid False w = (Some (pid, s), w') \<and> q_turns w' = rest
    \<and> q_children w' = al_del pid (u_children t (fold u_children es (q_children w)))"
  using assms
proof (induction es arbitrary: w)
  case Nil
  then show ?case by (subst wait_loop.simps) (simp add: sys_waitpid_def pcall_def next_pturn_def)
next
  case (Cons e es)
  define w1 where "w1 = (deliver (u_signal e) (w\<lparr>q_turns := es @ t # rest, q_children := u_children e (q_children w)\<rparr>))\<lparr>w_errno := EINTR\<rparr>"
  have "run_state (sys_waitpid pid False) w = (None, w1)"
    using Cons.prems(1,2) by (simp add: sys_waitpid_def pcall_def next_pturn_def w1_def)
  then have step: "wait_loop pid False w = wait_loop pid False w1"
    by (subst wait_loop.simps) (simp add: w1_def)
  have "\<exists>w'. wait_loop pid False w1 = (Some (pid, s), w') \<and> q_turns w' = rest
    \<and> q_children w' = al_del pid (u_children t (fold u_children es (q_children w1)))"
    by (rule Cons.IH) (use Cons.prems in \<open>simp_all add: w1_def\<close>)
  then show ?case by (simp add: step w1_def)
qed

text \<open>
  The launcher ends as the compiler did. However often the wait is interrupted, and whatever the other
  children do meanwhile, it takes the child's end and returns its exit status, or 128 and its signal; a
  child whose \<^verbatim>\<open>execv\<close> failed has ended with 127.
\<close>

theorem launcher_passes_on:
  assumes "2 \<le> length args" and "q_turns w = f # es @ t # rest"
    and "u_fault f = None" and "0 < u_pid f" and "\<And>e. e \<in> set es \<Longrightarrow> u_fault e = Some EINTR" and "u_fault t = None"
    and "map_of (u_children t (fold u_children es ((u_pid f, launcher_child exec) # u_children f (q_children w)))) (u_pid f) = Some s"
    and "s \<noteq> Live"
  shows "\<exists>w'. run_state (launcher_main args exec) w = ((launcher_status s, None), w')
    \<and> map_of (q_children w') (u_pid f) = None \<and> q_turns w' = rest"
proof -
  define w1 where "w1 = deliver (u_signal f) (w\<lparr>q_turns := es @ t # rest, q_children := u_children f (q_children w)\<rparr>)"
  define w2 where "w2 = w1\<lparr>q_children := (u_pid f, launcher_child exec) # q_children w1\<rparr>"
  have fork: "run_state (sys_fork (launcher_child exec)) w = (u_pid f, w2)"
    using assms(2,3) by (simp add: sys_fork_def pcall_def next_pturn_def w1_def w2_def)
  have "q_turns w2 = es @ t # rest" "q_children w2 = (u_pid f, launcher_child exec) # u_children f (q_children w)"
    by (simp_all add: w2_def w1_def)
  with wait_interrupted [of w2 es t rest "u_pid f" s] assms(5-8) obtain w' where
    "wait_loop (u_pid f) False w2 = (Some (u_pid f, s), w')" "q_turns w' = rest"
    "q_children w' = al_del (u_pid f) (u_children t (fold u_children es (q_children w2)))" by auto
  with fork assms(1,4) show ?thesis by (simp add: launcher_main_def)
qed

end
