(* ===== verification/Spec2Isabelle.thy ===== *)
theory Spec2Isabelle
  imports Prelude Host Reading OwnedDirectory FileIdentity PrivateRegistry PublicationStage
    PublicationArena PublicationJournal PublicationStep FormatReplace ToolProcess
    HostServices NameFacts HostRules PublicationRules PublicationMachine
    PublicationSafety Samples PublicationClaims TransferLoops FormatFacts LoopClaims WriteFacts
    CustodyRules Custody Unhindered Success Retirement
    PublicationEvents JournalFacts GuardFacts Scanner ScannerFacts ScannerClaims
    ToolStart ToolCancel ToolClaims Inheritance Boundaries StaleCapture OwnedFacts MoveFacts
    Layouts PackedFields InterruptMask DmaProbe DeviceControl LineTransport
    Launcher
begin

text \<open>
  A verification library for the C code of Landin: the platform layer of the compiler
  (\<^verbatim>\<open>src/compiler/ada/src/platform\<close>), the external scanner of the Tree-sitter grammar
  (\<^verbatim>\<open>src/highlight/tree-sitter/src/scanner.c\<close>), and the C control programs of the 32-bit environments
  (\<^verbatim>\<open>src/environments\<close>) with the launcher of \<^verbatim>\<open>src/scripts\<close>. The compiler itself is Ada and is not part of the library.

  \<^bold>\<open>The program.\<close> The compiler writes its outputs, starts tools and replaces formatted sources through
  a small layer of C functions. \<^verbatim>\<open>landin_publication.c\<close> publishes outputs: a build writes into a private
  stage directory beside the destination, and each output is then validated, captured (the old entry is
  moved into a recovery directory), installed, and, on failure, restored; Finish removes what is left. A
  journal in the workspace lets another process recognise it after a crash. The layer assumes that other
  processes may rename, replace and write files at any moment. \<^verbatim>\<open>landin_owned_directory.h\<close> makes and
  removes private directories under random names; \<^verbatim>\<open>landin_file_identity.c\<close> keeps the registry of
  private roots and decides whether two paths may name the same file; \<^verbatim>\<open>landin_format_replace.c\<close>
  rewrites a source file in place, with a kept copy; \<^verbatim>\<open>landin_tool_process.c\<close> starts, waits for, stops
  and cancels tools and captures their output; \<^verbatim>\<open>landin_channel.c\<close>, \<^verbatim>\<open>landin_executable.c\<close> and
  \<^verbatim>\<open>landin_resource_usage.c\<close> are small host services. The registries are static lists behind one mutex
  each; publications call into the registry of private roots.

  \<^bold>\<open>How C is modelled.\<close> A structure is a record, with the pointers between registry entries as numbers of
  the entries; a C string is a list of characters without its NUL; a buffer with a room is a list with
  the C test of its length; \<^verbatim>\<open>errno\<close> is a field of the state; a returned -1 or \<^verbatim>\<open>NULL\<close> is -1 or
  \<open>None\<close>. A function with effects is a program of the state monad over a record \<open>world\<close> which each
  component extends by its own registries (\<open>private_world\<close>, \<open>pub_world\<close>, \<open>fmt_world\<close>,
  \<open>proc_world\<close>). Before every system call a \<open>turn\<close> of a schedule is taken: other processes change
  the file system arbitrarily, a signal may arrive, the call may fail with any error or transfer a part.
  A theorem over all worlds is therefore one over every interleaving with other processes and every
  failure. \<open>w_log\<close> is a history variable of the process's own changes, which no definition reads.

  \<^bold>\<open>Theories.\<close>

  \<^item> \<open>Prelude\<close>: C strings, association lists, weakest preconditions \<open>wp\<close> and their rules.
  \<^item> \<open>Host\<close>: objects, descriptors, the system calls of the sources, the reading and writing loops.
    \<open>Reading\<close>: the locale \<open>reading\<close>, what an assertion must be closed under so that the calls and
    programs that only read keep it; interpreted for \<open>sees\<close>, \<open>quiet\<close> and \<open>still\<close>, the assertions the
    properties are proved with.
    \<open>HostRules\<close>: the invariant \<open>sees F ok L M\<close> (the descriptors of \<open>F\<close> stay open on their objects,
    every event since \<open>L\<close> satisfies \<open>ok\<close>, the registries stay \<open>M\<close>), with a rule for each call in the
    collection \<open>sees_rules\<close>.
  \<^item> \<open>OwnedDirectory\<close> (\<^verbatim>\<open>landin_owned_directory.h\<close>), \<open>FileIdentity\<close> and \<open>PrivateRegistry\<close>
    (the two halves of \<^verbatim>\<open>landin_file_identity.c\<close>), \<open>FormatReplace\<close>, \<open>ToolProcess\<close>,
    \<open>HostServices\<close>: the models of these files, one definition per function.
  \<^item> \<open>PublicationStage\<close>, \<open>PublicationArena\<close>, \<open>PublicationJournal\<close>, \<open>PublicationStep\<close>: the model of
    \<^verbatim>\<open>landin_publication.c\<close> in the order of the file: registry, staged names and snapshots; parents,
    anchors and arenas; journal records and discovery; opening and the five actions.
  \<^item> \<open>Boundaries\<close>: the public functions, each the operation above under its registry's mutex, for one
    thread; and a step relation of several threads over the four mutexes.
  \<^item> \<open>PublicationRules\<close>, \<open>PublicationMachine\<close>, \<open>PublicationSafety\<close>, \<open>PublicationClaims\<close>: the abstract
    state machine \<open>advance\<close> over the flags of a publication, that every step refines it, and the
    invariant of every reachable registry. \<open>PublicationEvents\<close>: what steps and exclusive moves do to the
    name space. \<open>JournalFacts\<close>: the journal read back. \<open>Samples\<close>: a concrete host for the
    witnesses. \<open>StaleCapture\<close>: a run in which Finish discards an entry that was never validated.
  \<^item> \<open>CustodyRules\<close>, \<open>Custody\<close>: on a host where no other process interferes, where the names of a
    publication lead (\<open>still F C N M\<close>: the files of \<open>C\<close>, the names of \<open>N\<close>, the registries \<open>M\<close>), and that
    the previous output is never lost before Finish.
  \<^item> \<open>Unhindered\<close>, \<open>Success\<close>, \<open>Retirement\<close>: total correctness. On a host where nothing is scheduled
    and no call fails (\<open>calm F C N D E p a w\<close>: descriptors, files, names and live directories, registry,
    publication and arena), Validate, Capture, Install and Restore of a regular file succeed, and so does
    the Finish of an arena's last publication, which removes the whole workspace.
  \<^item> \<open>NameFacts\<close>, \<open>GuardFacts\<close>: the reserved name spaces and who answers for a path (locale
    \<open>guarded_names\<close>, interpreted for stages and for private roots). \<open>OwnedFacts\<close>: what removing an owned
    directory changes, and the refusal of private names without a root. \<open>MoveFacts\<close>: moving a file by
    path, and a run in which it removes another process's file.
  \<^item> \<open>TransferLoops\<close>, \<open>LoopClaims\<close>: the loops that write and read everything (locale \<open>sender\<close>,
    interpreted for the channel, for the positioned write and for the write at a descriptor's own
    position). \<open>WriteFacts\<close>: what writing a private or staged file leaves. \<open>FormatFacts\<close>: no content
    is lost by a format replacement.
  \<^item> \<open>ToolStart\<close>, \<open>ToolCancel\<close>, \<open>ToolClaims\<close>: descriptors of a started tool, signal handlers and
    the reservation of a child (locale \<open>process_view\<close> and its interpretations). \<open>Inheritance\<close>: the one
    descriptor of the publications that started tools inherit.
  \<^item> \<open>Scanner\<close>, \<open>ScannerFacts\<close>, \<open>ScannerClaims\<close>: the scanner over a record of the lexer's operations,
    which the Tree-sitter runtime provides; \<open>lawful\<close> states what the runtime documents. The grammar of
    comments and brackets is given independently, and the scanner is compared with it.
  \<^item> \<open>Layouts\<close>, \<open>PackedFields\<close>, \<open>InterruptMask\<close>: C object layouts with the tables of
    \<^verbatim>\<open>abi.c\<close> and the assertions of \<^verbatim>\<open>abi_peer.c\<close>; the bit fields and the run of \<^verbatim>\<open>packed.c\<close> on its
    device; the masked section of \<^verbatim>\<open>memory.c\<close> under arbitrary interrupt requests.
  \<^item> \<open>DmaProbe\<close> (\<^verbatim>\<open>peripheral.c\<close>), \<open>DeviceControl\<close> (\<^verbatim>\<open>device-control.c\<close>): the runs of these programs and
    their interrupt handlers on the devices of \<^verbatim>\<open>models.py\<close>, for every split of the test's bytes over stops.
    \<open>LineTransport\<close> (\<^verbatim>\<open>packed-transport.c\<close>): accesses as lines of text, compared with the accesses themselves;
    the program linked with it and the device are arguments. \<open>Launcher\<close>: \<^verbatim>\<open>src/scripts/scaling_exec.c\<close>.

  \<^bold>\<open>What is shown.\<close> Publications: refinement of the state machine, isolation, the registry's invariant,
  nothing at the destination replaced or removed before Finish, exclusive moves replace nothing, routing and
  refusal of reserved names, the journal's round trips; and where nothing hinders, a transaction completes
  and leaves only its output, and a rollback puts back what there was. Owned directories and private roots: removal touches
  nothing but its own entries, unregistered names are refused. Replacement: old or new contents always
  stand somewhere whole. Loops: they terminate, deliver, and stay within their buffers. Tools: exact
  descriptors and environment, handlers restored, a child held exactly until it is waited for. Mutexes: no deadlock, and one
  thread at a time in a registry. Scanner: agreement with the grammar, termination, and two places where it
  differs from the language's specification. Controls: layouts sound and equal to the recorded contract,
  fields independent, the mask never broken, no notification of a transfer lost, three control programs
  passing on their devices, the transport transparent. Where a theorem shows a defect of the code it says so.

  \<^bold>\<open>Bounds and fuel.\<close> \<open>PATH_MAX\<close> is 4096, \<open>NAME_MAX\<close> 255, \<open>SIZE_MAX\<close> \<open>2 ^ 64 - 1\<close>. Loops that retry after
  \<open>EINTR\<close> terminate because an interrupted call uses up a turn of the finite schedule. The recursion into
  directories carries a depth equal to the descriptor limit \<open>w_nofile\<close>: each level holds an open
  descriptor, so that at depth zero the \<^verbatim>\<open>openat\<close> of the next level is the one that fails with
  \<open>EMFILE\<close>. The 100 attempts at a random name, the 100 names of a kept copy and the 50 rounds of watching a
  cancelled tool are the code's own bounds. The scanner's loops on an arbitrary lexer are
  \<open>partial_function (option)\<close>; that they return on every text is a theorem.

  \<^bold>\<open>Not modelled.\<close> \<^verbatim>\<open>parser.c\<close> is generated by Tree-sitter and the headers \<^verbatim>\<open>parser.h\<close>, \<^verbatim>\<open>array.h\<close>,
  \<^verbatim>\<open>alloc.h\<close> are vendored (of \<^verbatim>\<open>parser.h\<close> the lexer's structure is modelled). The compiler, the
  libraries and the tools in Ada, Landin and Python, among them the Ada transaction that calls the
  publication steps, are not C. The C tests and the peers of test fixtures only call and compare. Of the
  control programs, \<^verbatim>\<open>cpu.c\<close> drives the exceptions, the timer and the peripherals of an emulator outside the
  repository, \<^verbatim>\<open>firmware-control.c\<close> is two counters another language calls, and the calls between C and assembly in
  \<^verbatim>\<open>abi.c\<close>, \<^verbatim>\<open>abi-vfp.c\<close> and \<^verbatim>\<open>abi_peer.c\<close> have their other side in assembly. Installing a test hook is
  not a definition: an installed hook is one more interference. File permissions, quotas and name lengths
  enter only as failures of calls; fsync and crash durability are not modelled beyond the order of calls.
\<close>

end
